(* ===== verification/Rush_Prelude.thy ===== *)
theory Rush_Prelude
  imports Main "HOL-Library.Word" "HOL-Library.Char_ord" "HOL-Library.List_Lexorder"
    "HOL-Library.Sublist"
begin

text \<open>
  Shared vocabulary of the rush development.

  \<^item> \<open>outcome\<close>: what a Rust computation yields. \<open>Ok\<close> and \<open>Err\<close> are the constructors of
    \<open>Result\<close>; \<open>Panic\<close> is a panic, so that every slice out of range and every
    \<open>expect\<close> is a branch of the model. \<open>and_then\<close>, \<open>map_err\<close> and \<open>try_in\<close> are the
    combinators the code uses (\<open>try_in\<close> is the question-mark operator in a method that has
    already changed its state).
  \<^item> Text is a list of bytes (\<open>string\<close>, a \<open>char\<close> is 8 bits): \<open>str\<close> slicing with its
    bounds and character-boundary checks, \<open>starts_with\<close>, and the lexicographic byte order of
    \<open>String\<close>.
  \<^item> \<open>BTreeMap\<close> as its sorted list of entries, with insertion, removal and the lemmas that
    relate the order of the entries to the order of the keys.
\<close>

named_theorems outcome_simps \<open>facts about the outcome combinators\<close>
named_theorems btree_simps \<open>facts about sorted entry lists\<close>

type_synonym u8 = "8 word"
type_synonym u64 = "64 word"
type_synonym bytes = "u8 list"

section \<open>Outcomes of Rust computations\<close>

datatype ('a, 'e) outcome = Ok 'a | Err 'e | Panic string

primrec and_then :: "('a, 'e) outcome \<Rightarrow> ('a \<Rightarrow> ('b, 'e) outcome) \<Rightarrow> ('b, 'e) outcome" where
  "and_then (Ok a) f = f a"
| "and_then (Err e) f = Err e"
| "and_then (Panic m) f = Panic m"

primrec map_err :: "('e \<Rightarrow> 'f) \<Rightarrow> ('a, 'e) outcome \<Rightarrow> ('a, 'f) outcome" where
  "map_err f (Ok a) = Ok a"
| "map_err f (Err e) = Err (f e)"
| "map_err f (Panic m) = Panic m"

text \<open>\<open>r?\<close> in a method whose state is \<open>s\<close> at that point: an error or a panic leaves with \<open>s\<close>.\<close>

primrec try_in ::
  "('a, 'e) outcome \<Rightarrow> 's \<Rightarrow> ('a \<Rightarrow> ('b, 'e) outcome \<times> 's) \<Rightarrow> ('b, 'e) outcome \<times> 's" where
  "try_in (Ok a) s f = f a"
| "try_in (Err e) s f = (Err e, s)"
| "try_in (Panic m) s f = (Panic m, s)"

text \<open>A call that returns its new state, followed by the question mark.\<close>

definition then_in ::
  "('a, 'e) outcome \<times> 's \<Rightarrow> ('a \<Rightarrow> 's \<Rightarrow> ('b, 'e) outcome \<times> 's) \<Rightarrow> ('b, 'e) outcome \<times> 's" where
  "then_in x f = try_in (fst x) (snd x) (\<lambda>a. f a (snd x))"

primrec is_ok :: "('a, 'e) outcome \<Rightarrow> bool" where
  "is_ok (Ok a) = True"
| "is_ok (Err e) = False"
| "is_ok (Panic m) = False"

primrec panics :: "('a, 'e) outcome \<Rightarrow> bool" where
  "panics (Ok a) = False"
| "panics (Err e) = False"
| "panics (Panic m) = True"

section \<open>Text\<close>

definition starts_with :: "string \<Rightarrow> string \<Rightarrow> bool" where
  "starts_with s p \<longleftrightarrow> take (length p) s = p"

text \<open>A byte \<open>10xxxxxx\<close> continues a UTF-8 character; a slice index must not point at one.\<close>

definition is_continuation :: "char \<Rightarrow> bool" where
  "is_continuation c \<longleftrightarrow> (of_char c :: nat) div 64 = 2"

definition slice_from :: "string \<Rightarrow> nat \<Rightarrow> (string, 'e) outcome" where
  "slice_from s n =
     (if n > length s then Panic ''byte index out of bounds''
      else if n < length s \<and> is_continuation (s ! n) then Panic ''byte index is not a char boundary''
      else Ok (drop n s))"

text \<open>UTF-8: the length of the character a text begins with (\<open>0\<close> if it begins with none), and the
  check of \<open>String::from_utf8\<close>.\<close>

definition conts :: "nat \<Rightarrow> string \<Rightarrow> bool" where
  "conts n cs \<longleftrightarrow> n \<le> length cs \<and> (\<forall>c \<in> set (take n cs). is_continuation c)"

definition second_ok :: "nat \<Rightarrow> string \<Rightarrow> bool" where
  "second_ok b cs =
     (case cs of
        [] \<Rightarrow> False
      | c # _ \<Rightarrow>
          (b = 224 \<longrightarrow> 160 \<le> (of_char c :: nat)) \<and> (b = 237 \<longrightarrow> (of_char c :: nat) < 160) \<and>
          (b = 240 \<longrightarrow> 144 \<le> (of_char c :: nat)) \<and> (b = 244 \<longrightarrow> (of_char c :: nat) < 144))"

fun utf8_len :: "string \<Rightarrow> nat" where
  "utf8_len [] = 0"
| "utf8_len (c # cs) =
     (let b = (of_char c :: nat)
      in if b < 128 then 1
         else if 194 \<le> b \<and> b < 224 \<and> conts 1 cs then 2
         else if 224 \<le> b \<and> b < 240 \<and> conts 2 cs \<and> second_ok b cs then 3
         else if 240 \<le> b \<and> b < 245 \<and> conts 3 cs \<and> second_ok b cs then 4
         else 0)"

function utf8_ok :: "string \<Rightarrow> bool" where
  "utf8_ok s =
     (if s = [] then True
      else if utf8_len s = 0 then False
      else utf8_ok (drop (utf8_len s) s))"
  by pat_completeness auto
termination
  by (relation "measure length") (auto simp del: utf8_len.simps)

declare utf8_ok.simps [simp del]

section \<open>BTreeMap as its sorted entries\<close>

type_synonym 'v btree = "(string \<times> 'v) list"

definition bt_ok :: "('k::linorder \<times> 'v) list \<Rightarrow> bool" where
  "bt_ok m \<longleftrightarrow> sorted_wrt (<) (map fst m)"

definition bt_insert :: "'k::linorder \<Rightarrow> 'v \<Rightarrow> ('k \<times> 'v) list \<Rightarrow> ('k \<times> 'v) list" where
  "bt_insert k v m = takeWhile (\<lambda>p. fst p < k) m @ (k, v) # dropWhile (\<lambda>p. fst p \<le> k) m"

definition bt_remove :: "'k \<Rightarrow> ('k \<times> 'v) list \<Rightarrow> ('k \<times> 'v) list" where
  "bt_remove k m = filter (\<lambda>p. fst p \<noteq> k) m"

section \<open>Lemmas on outcomes\<close>

lemma and_then_eq_Ok [outcome_simps]:
  "and_then r f = Ok b \<longleftrightarrow> (\<exists>a. r = Ok a \<and> f a = Ok b)"
  by (cases r) auto

lemma map_err_eq_Ok [outcome_simps]: "map_err f r = Ok a \<longleftrightarrow> r = Ok a"
  by (cases r) auto

lemma try_in_eq_Ok [outcome_simps]:
  "try_in r s f = (Ok b, t) \<longleftrightarrow> (\<exists>a. r = Ok a \<and> f a = (Ok b, t))"
  by (cases r) auto

lemma then_in_simps [simp]:
  "then_in (Ok a, s) f = f a s" "then_in (Err e, s) f = (Err e, s)"
  "then_in (Panic m, s) f = (Panic m, s)"
  by (simp_all add: then_in_def)

lemma is_ok_iff [outcome_simps]: "is_ok r \<longleftrightarrow> (\<exists>a. r = Ok a)"
  by (cases r) auto

lemma panics_map_err [simp]: "panics (map_err f r) = panics r"
  by (cases r) auto

section \<open>Lemmas on text\<close>

lemma starts_with_prefix: "starts_with s p \<longleftrightarrow> prefix p s"
proof
  assume "starts_with s p"
  then have "s = p @ drop (length p) s"
    by (metis append_take_drop_id starts_with_def)
  then show "prefix p s" by (metis prefixI)
qed (auto simp: starts_with_def prefix_def)

lemma starts_with_append [simp]: "starts_with (p @ s) p"
  by (simp add: starts_with_def)

lemma starts_with_Nil [simp]: "starts_with s []"
  by (simp add: starts_with_def)

lemma starts_with_obtain:
  assumes "starts_with s p"
  obtains t where "s = p @ t"
  using assms by (auto simp: starts_with_prefix prefix_def)

lemma slice_from_after [simp]:
  "\<not> is_continuation c \<Longrightarrow> slice_from (p @ c # s) (length p) = Ok (c # s)"
  by (simp add: slice_from_def nth_append)

lemma utf8_ok_Nil [simp]: "utf8_ok []"
  by (simp add: utf8_ok.simps)

lemma utf8_ok_ascii:
  assumes "\<forall>c \<in> set s. (of_char c :: nat) < 128"
  shows "utf8_ok s"
  using assms
proof (induction s)
  case (Cons c cs)
  then have "utf8_len (c # cs) = 1" "utf8_ok cs" by simp_all
  then show ?case using utf8_ok.simps [of "c # cs"] by simp
qed simp

lemma utf8_head: "utf8_ok (c # cs) \<Longrightarrow> \<not> is_continuation c"
  using utf8_ok.simps [of "c # cs"] by (auto simp: is_continuation_def Let_def split: if_splits)

lemma conts_append: "conts n cs \<Longrightarrow> conts n (cs @ ds)"
  by (simp add: conts_def)

lemma utf8_len_le: "utf8_len s \<le> length s"
  by (cases s) (auto simp: Let_def conts_def)

lemma utf8_len_append:
  assumes "0 < utf8_len s"
  shows "utf8_len (s @ t) = utf8_len s"
proof (cases s)
  case (Cons c cs)
  have "second_ok b cs \<Longrightarrow> second_ok b (cs @ t)" for b
    by (cases cs) (simp_all add: second_ok_def)
  with assms Cons show ?thesis
    by (auto simp: Let_def conts_append split: if_splits)
qed (use assms in simp)

lemma utf8_ok_append: "utf8_ok s \<Longrightarrow> utf8_ok t \<Longrightarrow> utf8_ok (s @ t)"
proof (induction s rule: utf8_ok.induct)
  case (1 s)
  show ?case
  proof (cases "s = []")
    case False
    with 1(2) have l: "0 < utf8_len s" and d: "utf8_ok (drop (utf8_len s) s)"
      by (simp_all add: utf8_ok.simps [of s] split: if_splits)
    have "utf8_ok (drop (utf8_len s) s @ t)" using 1(1) [OF False _ d 1(3)] l by simp
    then show ?thesis
      using l False utf8_len_le [of s] utf8_ok.simps [of "s @ t"] by (simp add: utf8_len_append)
  qed (use 1(3) in simp)
qed

lemma Cons_less_Cons_iff: "(x # xs < y # ys) \<longleftrightarrow> x < y \<or> x = y \<and> xs < (ys :: 'a::linorder list)"
  by (auto simp: list_less_def)

lemma append_less_append [simp]: "(p @ xs < p @ ys) \<longleftrightarrow> xs < (ys :: 'a::linorder list)"
  by (induction p) (auto simp: Cons_less_Cons_iff)

lemma snoc_less_snoc:
  "length xs = length ys \<Longrightarrow>
   (xs @ [a] < ys @ [b]) \<longleftrightarrow> xs < ys \<or> xs = ys \<and> a < (b :: 'a::linorder)"
  by (induction xs ys rule: list_induct2) (auto simp: Cons_less_Cons_iff)

section \<open>Lemmas on sorted entries\<close>

lemma bt_ok_Nil [simp]: "bt_ok []"
  by (simp add: bt_ok_def)

lemma bt_ok_Cons [simp]: "bt_ok (p # m) \<longleftrightarrow> (\<forall>q \<in> set m. fst p < fst q) \<and> bt_ok m"
  by (auto simp: bt_ok_def)

lemma bt_ok_append [simp]:
  "bt_ok (m @ n) \<longleftrightarrow> bt_ok m \<and> bt_ok n \<and> (\<forall>p \<in> set m. \<forall>q \<in> set n. fst p < fst q)"
  by (auto simp: bt_ok_def sorted_wrt_append)

lemma bt_ok_distinct: "bt_ok m \<Longrightarrow> distinct (map fst m)"
  unfolding bt_ok_def using strict_sorted_iff by blast

lemma bt_ok_filter: "bt_ok m \<Longrightarrow> bt_ok (filter P m)"
  by (induction m) auto

lemma bt_ok_remove [simp]: "bt_ok m \<Longrightarrow> bt_ok (bt_remove k m)"
  by (simp add: bt_remove_def bt_ok_filter)

lemma bt_insert_Nil [simp]: "bt_insert k v [] = [(k, v)]"
  by (simp add: bt_insert_def)

lemma bt_insert_Cons:
  "bt_ok ((k', v') # m) \<Longrightarrow>
   bt_insert k v ((k', v') # m) =
     (if k' < k then (k', v') # bt_insert k v m
      else if k' = k then (k, v) # m else (k, v) # (k', v') # m)"
  by (cases m) (auto simp: bt_insert_def)

lemma set_bt_insert:
  "bt_ok m \<Longrightarrow> set (bt_insert k v m) = insert (k, v) {p \<in> set m. fst p \<noteq> k}"
  by (induction m) (force simp: bt_insert_Cons)+

lemma bt_ok_insert [simp]: "bt_ok m \<Longrightarrow> bt_ok (bt_insert k v m)"
proof (induction m)
  case (Cons p m)
  then show ?case
    by (cases p) (force simp: bt_insert_Cons set_bt_insert not_less_iff_gr_or_eq
        intro: less_trans)
qed simp

lemma map_of_bt_insert [btree_simps]: "bt_ok m \<Longrightarrow> map_of (bt_insert k v m) = (map_of m)(k \<mapsto> v)"
  by (induction m) (auto simp: bt_insert_Cons fun_upd_twist)

lemma map_of_bt_remove [btree_simps]: "map_of (bt_remove k m) = (map_of m)(k := None)"
  by (induction m) (auto simp: bt_remove_def)

lemma bt_insert_last: "\<forall>p \<in> set m. fst p < k \<Longrightarrow> bt_insert k v m = m @ [(k, v)]"
proof -
  assume a: "\<forall>p \<in> set m. fst p < k"
  then have "takeWhile (\<lambda>p. fst p < k) m = m" by (simp add: takeWhile_eq_all_conv)
  moreover from a have "dropWhile (\<lambda>p. fst p \<le> k) m = []"
    by (simp add: dropWhile_eq_Nil_conv less_imp_le)
  ultimately show ?thesis by (simp add: bt_insert_def)
qed

lemma bt_insert_first: "\<forall>p \<in> set m. k < fst p \<Longrightarrow> bt_insert k v m = (k, v) # m"
  by (cases m) (auto simp: bt_insert_def)

lemma bt_insert_same_last:
  "bt_ok (m @ [(k, u)]) \<Longrightarrow> bt_insert k v (m @ [(k, u)]) = m @ [(k, v)]"
  by (induction m) (auto simp: bt_insert_Cons)

text \<open>A strictly monotone renaming of the keys (adding a common prefix) commutes with the
  operations.\<close>

lemma bt_ok_map_key:
  "(\<And>a b. f a < f b \<longleftrightarrow> a < b) \<Longrightarrow> bt_ok (map (apfst f) m) \<longleftrightarrow> bt_ok m"
  by (induction m) auto

lemma bt_insert_map_key:
  assumes "\<And>a b :: 'k::linorder. (f a :: 'j::linorder) < f b \<longleftrightarrow> a < b" and "bt_ok m"
  shows "bt_insert (f k) v (map (apfst f) m) = map (apfst f) (bt_insert k v m)"
proof -
  have le: "f a \<le> f b \<longleftrightarrow> a \<le> b" for a b by (simp add: assms(1) linorder_not_less [symmetric])
  show ?thesis
    by (simp add: bt_insert_def takeWhile_map dropWhile_map comp_def assms(1) le)
qed

lemma bt_remove_map_key:
  "inj f \<Longrightarrow> bt_remove (f k) (map (apfst f) m) = map (apfst f) (bt_remove k m)"
  by (simp add: bt_remove_def filter_map comp_def inj_eq)

lemma map_of_map_key: "inj f \<Longrightarrow> map_of (map (apfst f) m) (f k) = map_of m k"
  by (induction m) (auto simp: inj_eq)

lemma last_entry_max:
  "bt_ok m \<Longrightarrow> m \<noteq> [] \<Longrightarrow> p \<in> set m \<Longrightarrow> fst p \<le> fst (last m)"
  by (induction m) (auto simp: less_imp_le split: if_splits)

section \<open>Runs of a few steps\<close>

lemma steps2: "r a b \<Longrightarrow> r b c \<Longrightarrow> r\<^sup>*\<^sup>* a c"
  by (rule rtranclp.rtrancl_into_rtrancl [OF r_into_rtranclp])

lemma steps4: "r a b \<Longrightarrow> r b c \<Longrightarrow> r c d \<Longrightarrow> r d e \<Longrightarrow> r\<^sup>*\<^sup>* a e"
  using steps2 [of r a b c] steps2 [of r c d e] by (rule rtranclp_trans)

end
