(* ===== verification/Actor_Path.thy ===== *)
theory Actor_Path
  imports Rush_Prelude
begin

text \<open>
  Actor paths (\<open>src/actor/src/path.rs\<close>). An \<open>ActorPath\<close> is its vector of components; the
  functions follow the methods one by one, and \<open>path_from\<close>, \<open>path_div\<close> and \<open>path_display\<close> are
  the \<open>From<&str>\<close>, \<open>Div<&str>\<close> and \<open>Display\<close> implementations. \<open>is_blank\<close> is
  \<open>trim().is_empty()\<close>: every character has the Unicode property White_Space, read on the UTF-8
  bytes. \<open>path_ok\<close> is the invariant of every path the crate builds: no component is blank or
  contains a slash.
\<close>

type_synonym actor_path = "string list"

section \<open>Operations\<close>

definition path_root :: "actor_path \<Rightarrow> actor_path" where
  "path_root p = (if length p = 1 then p else if p \<noteq> [] then take 1 p else [])"

definition path_parent :: "actor_path \<Rightarrow> actor_path" where
  "path_parent p = (if length p > 1 then take (length p - 1) p else [])"

definition path_key :: "actor_path \<Rightarrow> string" where
  "path_key p = (if p = [] then '''' else last p)"

definition path_level :: "actor_path \<Rightarrow> nat" where
  "path_level p = length p"

definition path_is_top_level :: "actor_path \<Rightarrow> bool" where
  "path_is_top_level p \<longleftrightarrow> length p = 1"

definition path_is_empty :: "actor_path \<Rightarrow> bool" where
  "path_is_empty p \<longleftrightarrow> p = []"

definition path_at_level :: "actor_path \<Rightarrow> nat \<Rightarrow> actor_path" where
  "path_at_level p level =
     (if level < 1 \<or> level \<ge> path_level p then p
      else if path_is_top_level p then path_root p
      else if level = path_level p - 1 then path_parent p
      else take level p)"

fun join_slash :: "string list \<Rightarrow> string" where
  "join_slash [] = ''''"
| "join_slash [t] = t"
| "join_slash (t # ts) = t @ CHR ''/'' # join_slash ts"

definition path_display :: "actor_path \<Rightarrow> string" where
  "path_display p =
     (if path_level p < 1 then ''/''
      else if path_level p = 1 then CHR ''/'' # p ! 0
      else CHR ''/'' # join_slash p)"

definition path_is_ancestor_of :: "actor_path \<Rightarrow> actor_path \<Rightarrow> bool" where
  "path_is_ancestor_of p other = starts_with (path_display other) (path_display p @ ''/'')"

definition path_is_descendant_of :: "actor_path \<Rightarrow> actor_path \<Rightarrow> bool" where
  "path_is_descendant_of p other = starts_with (path_display p) (path_display other @ ''/'')"

definition path_is_parent_of :: "actor_path \<Rightarrow> actor_path \<Rightarrow> bool" where
  "path_is_parent_of p other \<longleftrightarrow> p = path_parent other"

definition path_is_child_of :: "actor_path \<Rightarrow> actor_path \<Rightarrow> bool" where
  "path_is_child_of p other \<longleftrightarrow> path_parent p = other"

text \<open>\<open>str::split\<close> on one character: one more piece than there are separators.\<close>

fun split_on :: "char \<Rightarrow> string \<Rightarrow> string list" where
  "split_on c [] = [[]]"
| "split_on c (x # xs) =
     (if x = c then [] # split_on c xs
      else (case split_on c xs of [] \<Rightarrow> [[x]] | t # ts \<Rightarrow> (x # t) # ts))"

text \<open>The number of bytes of a leading white-space character, 0 when there is none.\<close>

definition ws_len :: "string \<Rightarrow> nat" where
  "ws_len s = (case map (of_char :: char \<Rightarrow> nat) s of
      [] \<Rightarrow> 0
    | b0 # r \<Rightarrow>
        if b0 \<in> {9, 10, 11, 12, 13, 32} then 1
        else (case r of
            [] \<Rightarrow> 0
          | b1 # r' \<Rightarrow>
              if b0 = 194 \<and> b1 \<in> {133, 160} then 2
              else (case r' of
                  [] \<Rightarrow> 0
                | b2 # _ \<Rightarrow>
                    if b0 = 225 \<and> b1 = 154 \<and> b2 = 128
                     \<or> b0 = 226 \<and> b1 = 128 \<and> (128 \<le> b2 \<and> b2 \<le> 138 \<or> b2 \<in> {168, 169, 175})
                     \<or> b0 = 226 \<and> b1 = 129 \<and> b2 = 159
                     \<or> b0 = 227 \<and> b1 = 128 \<and> b2 = 128
                    then 3 else 0)))"

function is_blank :: "string \<Rightarrow> bool" where
  "is_blank s =
     (if s = [] then True
      else if ws_len s = 0 then False
      else is_blank (drop (ws_len s) s))"
  by pat_completeness auto
termination
  by (relation "measure length") auto

declare is_blank.simps [simp del]

definition path_tokens :: "string \<Rightarrow> string list" where
  "path_tokens s = filter (\<lambda>x. \<not> is_blank x) (split_on CHR ''/'' s)"

definition path_from :: "string \<Rightarrow> actor_path" where
  "path_from s = path_tokens s"

definition path_div :: "actor_path \<Rightarrow> string \<Rightarrow> actor_path" where
  "path_div p rhs = p @ path_tokens rhs"

definition path_ok :: "actor_path \<Rightarrow> bool" where
  "path_ok p \<longleftrightarrow> (\<forall>t \<in> set p. \<not> is_blank t \<and> CHR ''/'' \<notin> set t)"

section \<open>Splitting and joining\<close>

lemma is_blank_Nil [simp]: "is_blank []"
  by (subst is_blank.simps) simp

lemma split_on_no_sep: "t \<in> set (split_on c s) \<Longrightarrow> c \<notin> set t"
proof (induction s arbitrary: t)
  case (Cons x xs)
  then show ?case by (cases "split_on c xs") (auto split: if_splits)
qed simp

lemma split_on_nonempty [simp]: "split_on c s \<noteq> []"
  by (cases s) (auto split: list.split)

lemma split_on_token: "c \<notin> set t \<Longrightarrow> split_on c t = [t]"
  by (induction t) auto

lemma split_on_sep:
  "c \<notin> set t \<Longrightarrow> split_on c (t @ c # s) = t # split_on c s"
  by (induction t) auto

lemma split_on_append_sep: "split_on c (s @ c # r) = split_on c s @ split_on c r"
proof (induction s)
  case (Cons x s)
  then show ?case by (cases "split_on c s") auto
qed simp

lemma path_ok_Nil [simp]: "path_ok []"
  by (simp add: path_ok_def)

lemma path_ok_Cons [simp]: "path_ok (t # p) \<longleftrightarrow> \<not> is_blank t \<and> CHR ''/'' \<notin> set t \<and> path_ok p"
  by (auto simp: path_ok_def)

lemma path_ok_append [simp]: "path_ok (p @ q) \<longleftrightarrow> path_ok p \<and> path_ok q"
  by (auto simp: path_ok_def)

lemma path_ok_take: "path_ok p \<Longrightarrow> path_ok (take n p)"
  by (auto simp: path_ok_def dest: in_set_takeD)

lemma path_ok_tokens [simp]: "path_ok (path_tokens s)"
  by (auto simp: path_ok_def path_tokens_def dest: split_on_no_sep)

lemma split_join:
  "path_ok p \<Longrightarrow> p \<noteq> [] \<Longrightarrow> split_on CHR ''/'' (join_slash p) = p"
  by (induction p rule: join_slash.induct) (auto simp: split_on_token split_on_sep)

lemma display_join: "p \<noteq> [] \<Longrightarrow> path_display p = CHR ''/'' # join_slash p"
  by (cases p rule: join_slash.cases) (auto simp: path_display_def path_level_def)

lemma display_Nil [simp]: "path_display [] = ''/''"
  by (simp add: path_display_def path_level_def)

lemma tokens_split_ok: "path_ok p \<Longrightarrow> filter (\<lambda>x. \<not> is_blank x) p = p"
  by (simp add: path_ok_def)

lemma path_tokens_slash: "path_tokens (CHR ''/'' # s) = path_tokens s"
  by (simp add: path_tokens_def)

lemma path_tokens_display:
  assumes "path_ok p"
  shows "path_tokens (path_display p) = p"
proof (cases "p = []")
  case True
  then show ?thesis by (simp add: path_tokens_def)
next
  case False
  with assms show ?thesis
    by (simp add: display_join path_tokens_slash) (simp add: path_tokens_def split_join tokens_split_ok)
qed

lemma path_tokens_append: "path_tokens (s @ CHR ''/'' # r) = path_tokens s @ path_tokens r"
  by (simp add: path_tokens_def split_on_append_sep)

section \<open>Ancestry by string prefix\<close>

text \<open>Each component preceded by its slash: the form on which prefixes of strings and prefixes
  of component lists correspond.\<close>

definition slashed :: "actor_path \<Rightarrow> string" where
  "slashed p = concat (map ((#) CHR ''/'') p)"

lemma slashed_simps [simp]: "slashed [] = []" "slashed (t # p) = CHR ''/'' # t @ slashed p"
  by (simp_all add: slashed_def)

lemma display_slashed: "p \<noteq> [] \<Longrightarrow> path_display p = slashed p"
proof -
  have "p \<noteq> [] \<Longrightarrow> CHR ''/'' # join_slash p = slashed p"
    by (induction p rule: join_slash.induct) auto
  then show "p \<noteq> [] \<Longrightarrow> path_display p = slashed p" by (simp add: display_join)
qed

lemma token_prefix:
  assumes "c \<notin> set a" "c \<notin> set b" "y = [] \<or> hd y = c"
  shows "prefix (a @ c # x) (b @ y) \<longleftrightarrow> a = b \<and> prefix (c # x) y"
  using assms(1,2)
proof (induction a arbitrary: b)
  case Nil
  then show ?case by (cases b) auto
next
  case (Cons u a)
  then show ?case using assms(3) by (cases b) (cases y; auto)+
qed

lemma slashed_hd: "slashed p = [] \<or> hd (slashed p) = CHR ''/''"
  by (cases p) auto

lemma slashed_prefix:
  "path_ok p \<Longrightarrow> path_ok q \<Longrightarrow> prefix (slashed p @ ''/'') (slashed q) \<longleftrightarrow> strict_prefix p q"
proof (induction p arbitrary: q)
  case Nil
  then show ?case by (cases q) auto
next
  case (Cons a p)
  show ?case
  proof (cases q)
    case (Cons b r)
    obtain x where x: "slashed p @ ''/'' = CHR ''/'' # x"
      by (cases p) auto
    have "prefix (slashed (a # p) @ ''/'') (slashed q) \<longleftrightarrow>
        prefix (a @ CHR ''/'' # x) (b @ slashed r)"
      by (simp add: Cons x)
    also have "\<dots> \<longleftrightarrow> a = b \<and> prefix (slashed p @ ''/'') (slashed r)"
      unfolding x using Cons.prems Cons slashed_hd [of r] by (intro token_prefix) auto
    finally show ?thesis using Cons.IH [of r] Cons.prems Cons by simp
  qed simp
qed

lemma ancestor_slashed:
  assumes "path_ok p" "path_ok q" "p \<noteq> []"
  shows "path_is_ancestor_of p q \<longleftrightarrow> strict_prefix p q"
proof (cases "q = []")
  case True
  with assms(3) show ?thesis
    by (cases p) (auto simp: path_is_ancestor_of_def starts_with_prefix display_slashed)
next
  case False
  with assms show ?thesis
    by (simp add: path_is_ancestor_of_def starts_with_prefix display_slashed slashed_prefix)
qed

lemma descendant_ancestor: "path_is_descendant_of p q = path_is_ancestor_of q p"
  by (simp add: path_is_descendant_of_def path_is_ancestor_of_def)

lemma root_no_ancestor:
  assumes "path_ok q"
  shows "\<not> path_is_ancestor_of [] q"
proof (cases q)
  case (Cons t r)
  with assms have "\<not> is_blank t" and "CHR ''/'' \<notin> set t" by auto
  then show ?thesis
    using Cons by (cases t) (auto simp: path_is_ancestor_of_def starts_with_prefix display_slashed)
qed (simp add: path_is_ancestor_of_def starts_with_prefix)

lemma at_level_take: "path_at_level p n = (if n = 0 then p else take n p)"
  by (cases p)
    (auto simp: path_at_level_def path_level_def path_is_top_level_def path_root_def path_parent_def)

lemma parent_div_token: "path_ok [t] \<Longrightarrow> path_parent (path_div p t) = p"
  by (simp add: path_div_def path_tokens_def split_on_token path_parent_def)

section \<open>Properties\<close>

text \<open>C33. Printing a path whose keys are neither blank nor contain a slash and parsing it again gives
  the path.\<close>

theorem path_display_roundtrip:
  assumes "path_ok p"
  shows "path_from (path_display p) = p"
  using path_tokens_display [OF assms] by (simp add: path_from_def)

theorem path_display_roundtrip_witness: "path_from (path_display [''user'', ''a b'']) = [''user'', ''a b'']"
proof -
  have "path_ok [''user'', ''a b'']" unfolding path_ok_def by code_simp
  then show ?thesis by (rule path_display_roundtrip)
qed

text \<open>C34. \<open>is_ancestor_of\<close>, which compares the printed paths, holds exactly when the one path is a
  proper prefix of the other as a list of keys and is not the root path; \<open>is_descendant_of\<close> is its
  converse. The root path is the parent of every top-level path but the ancestor of none: its
  printed form already ends with the slash the comparison adds.\<close>

theorem ancestor_is_strict_prefix:
  assumes "path_ok p" "path_ok q"
  shows "(path_is_ancestor_of p q \<longleftrightarrow> p \<noteq> [] \<and> strict_prefix p q) \<and>
    (path_is_descendant_of q p \<longleftrightarrow> p \<noteq> [] \<and> strict_prefix p q) \<and>
    (path_is_parent_of [] q \<longleftrightarrow> path_level q \<le> 1)"
  using ancestor_slashed [OF assms] root_no_ancestor [OF assms(2)]
  by (auto simp: descendant_ancestor path_is_parent_of_def path_parent_def path_level_def)

theorem ancestor_is_strict_prefix_witness:
  "path_is_ancestor_of [''user''] [''user'', ''a''] \<and> \<not> path_is_ancestor_of [''user''] [''users'', ''a''] \<and>
   path_is_parent_of [] [''user''] \<and> \<not> path_is_ancestor_of [] [''user'']"
proof -
  have "path_ok []" "path_ok [''user'']" "path_ok [''user'', ''a'']" "path_ok [''users'', ''a'']"
    unfolding path_ok_def by code_simp+
  then show ?thesis
    using ancestor_is_strict_prefix [of "[''user'']" "[''user'', ''a'']"]
      ancestor_is_strict_prefix [of "[''user'']" "[''users'', ''a'']"]
      ancestor_is_strict_prefix [of "[]" "[''user'']"]
    by (auto simp: strict_prefix_def path_level_def)
qed

text \<open>C32. Every path the crate builds is well formed: no key is blank or contains a slash. Parsing
  gives such a path for any text, and appending any text, taking the parent, the root or the path
  at a level keeps it; a level between \<open>1\<close> and that of the path gives a path of exactly that level.\<close>

theorem path_operations_wellformed:
  assumes "path_ok p"
  shows "path_ok (path_from s) \<and> path_ok (path_div p s) \<and> path_ok (path_parent p) \<and> path_ok (path_root p) \<and>
    path_ok (path_at_level p n) \<and> (1 \<le> n \<longrightarrow> path_level (path_at_level p n) = min n (path_level p))"
  using assms path_ok_take [OF assms]
  by (simp add: path_from_def path_div_def path_parent_def path_root_def at_level_take path_level_def min.commute)

theorem path_operations_wellformed_witness:
  "path_ok (path_from ''//x/ '') \<and> path_ok (path_div [''user''] ''a//b'') \<and> path_ok (path_parent [''user'']) \<and>
   path_ok (path_root [''user'']) \<and> path_ok (path_at_level [''user''] 3) \<and>
   path_level (path_at_level [''user''] 3) = 1"
proof -
  have "path_ok [''user'']" unfolding path_ok_def by code_simp
  from path_operations_wellformed [OF this, of "''//x/ ''" 3] path_operations_wellformed [OF this, of "''a//b''" 3]
  show ?thesis by (simp add: path_level_def)
qed

end
