(* ===== verification/Rush_Errors.thy ===== *)
theory Rush_Errors
  imports Actor_Path
begin

text \<open>
  The two error enums, \<open>actor::Error\<close> (\<open>src/actor/src/error.rs\<close>) and \<open>store::Error\<close>
  (\<open>src/store/src/error.rs\<close>), with the messages their \<open>Display\<close> implementations print: the store
  wraps one in the other by its message.
\<close>

datatype actor_error =
    ActorErr_Send string
  | ActorErr_UnexpectedResponse actor_path string
  | ActorErr_Create actor_path string
  | ActorErr_Exists actor_path
  | ActorErr_NotFound actor_path
  | ActorErr_Stop
  | ActorErr_Start string
  | ActorErr_SendEvent string
  | ActorErr_CreateStore string
  | ActorErr_Get string
  | ActorErr_EntryNotFound string
  | ActorErr_Store string
  | ActorErr_Functional string
  | ActorErr_FunctionalFail string
  | ActorErr_State string
  | ActorErr_ReTry
  | ActorErr_NotHelper string

datatype store_error =
    StoreErr_CreateStore string
  | StoreErr_Get string
  | StoreErr_EntryNotFound string
  | StoreErr_Store string

fun actor_error_display :: "actor_error \<Rightarrow> string" where
  "actor_error_display (ActorErr_Send m) =
     ''An error occurred while sending a message to actor: '' @ m @ ''.''"
| "actor_error_display (ActorErr_UnexpectedResponse p m) =
     ''Actor '' @ path_display p
       @ '' returned a response that was not expected, expected response: '' @ m"
| "actor_error_display (ActorErr_Create p m) =
     ''An error occurred while creating an actor: '' @ path_display p @ ''/'' @ m @ ''.''"
| "actor_error_display (ActorErr_Exists p) = ''Actor '' @ path_display p @ '' exist.''"
| "actor_error_display (ActorErr_NotFound p) = ''Actor '' @ path_display p @ '' not found.''"
| "actor_error_display ActorErr_Stop = ''An error occurred while stopping an actor.''"
| "actor_error_display (ActorErr_Start m) =
     ''An error occurred while starting the actor system: '' @ m"
| "actor_error_display (ActorErr_SendEvent m) =
     ''An error occurred while sending an event to event bus: '' @ m"
| "actor_error_display (ActorErr_CreateStore m) = ''Can't create store: '' @ m"
| "actor_error_display (ActorErr_Get m) = ''Get error: '' @ m"
| "actor_error_display (ActorErr_EntryNotFound m) = ''Entry not found: '' @ m"
| "actor_error_display (ActorErr_Store m) = ''Store error: '' @ m"
| "actor_error_display (ActorErr_Functional m) = ''Error: '' @ m"
| "actor_error_display (ActorErr_FunctionalFail m) = ''Error: '' @ m"
| "actor_error_display (ActorErr_State m) = ''State error: '' @ m"
| "actor_error_display ActorErr_ReTry = ''The maximum number of retries has been reached.''"
| "actor_error_display (ActorErr_NotHelper m) = ''Helper '' @ m @ '' could not be accessed.''"

fun store_error_display :: "store_error \<Rightarrow> string" where
  "store_error_display (StoreErr_CreateStore m) = ''Can't create store: '' @ m"
| "store_error_display (StoreErr_Get m) = ''Get error: '' @ m"
| "store_error_display (StoreErr_EntryNotFound m) = ''Entry not found: '' @ m"
| "store_error_display (StoreErr_Store m) = ''Store error: '' @ m"

end
