(* ===== verification/Actor_System.thy ===== *)
theory Actor_System
  imports Rush_Errors "HOL-Library.AList"
begin

text \<open>
  The actor system (\<open>src/actor/src/system.rs\<close>): the registry of actors by path, the helpers by name,
  the stop senders of the root actors, the cancellation token and the shutdown task.

  A registered value is a type tag (what \<open>downcast_ref\<close> compares) with the identity of the actor; a
  helper is a tag with its value. The two hash maps are association lists, read through
  \<open>map_of\<close>. Creation of an actor reads the registry under one lock and writes it under another, so
  concurrent creations are the step relation \<open>create_step\<close>; \<open>create_actor_path\<close> is one creation that
  nothing interrupts.
\<close>

record 'h system_ref =
  sy_actors :: "(actor_path \<times> (string \<times> nat)) list"
  sy_helpers :: "(string \<times> (string \<times> 'h)) list"
  sy_root_senders :: "nat list"
  sy_cancelled :: bool

definition system_new :: "'h system_ref" where
  "system_new = \<lparr>sy_actors = [], sy_helpers = [], sy_root_senders = [], sy_cancelled = False\<rparr>"

text \<open>\<open>ActorSystem::create\<close>, with the token as it is at that moment: the reference, and the events queued
  for the runner.\<close>

datatype SystemEvent = StopSystem

definition system_create :: "bool \<Rightarrow> 'h system_ref \<times> SystemEvent list" where
  "system_create cancelled = (system_new\<lparr>sy_cancelled := cancelled\<rparr>, [])"

text \<open>\<open>any.downcast_ref\<close>.\<close>

definition downcast :: "string \<Rightarrow> string \<times> 'a \<Rightarrow> 'a option" where
  "downcast tag v = (if fst v = tag then Some (snd v) else None)"

definition get_actor :: "string \<Rightarrow> actor_path \<Rightarrow> 'h system_ref \<Rightarrow> nat option" where
  "get_actor tag path sys = Option.bind (map_of (sy_actors sys) path) (downcast tag)"

definition remove_actor :: "actor_path \<Rightarrow> 'h system_ref \<Rightarrow> 'h system_ref" where
  "remove_actor path sys = sys\<lparr>sy_actors := AList.delete path (sy_actors sys)\<rparr>"

text \<open>What the task that runs the new actor reports: it is started, it ended without starting, or it
  was dropped by a panic before it reported. Before the report \<open>pre_start\<close> runs on the same registry,
  where it may create children and do whatever else the system lets it: \<open>init\<close> gives the report and
  the system as \<open>pre_start\<close> leaves it.\<close>

datatype init_result = InitStarted | InitFailed | InitDropped

type_synonym 'h actor_init = "'h system_ref \<Rightarrow> init_result \<times> 'h system_ref"

definition create_actor_path ::
  "actor_path \<Rightarrow> string \<Rightarrow> nat \<Rightarrow> 'h actor_init \<Rightarrow> 'h system_ref \<Rightarrow>
   (nat \<times> nat, actor_error) outcome \<times> 'h system_ref" where
  "create_actor_path path tag aid init sys =
     (if map_of (sy_actors sys) path \<noteq> None then (Err (ActorErr_Exists path), sys)
      else case init (sys\<lparr>sy_actors := AList.update path (tag, aid) (sy_actors sys)\<rparr>) of
             (InitStarted, sys') \<Rightarrow> (Ok (aid, aid), sys')
           | (InitFailed, sys') \<Rightarrow>
               (Err (ActorErr_Start (''Runner can not init '' @ path_display path)), remove_actor path sys')
           | (InitDropped, sys') \<Rightarrow> (Err (ActorErr_Start ''channel closed''), sys'))"

definition create_root_actor ::
  "string \<Rightarrow> string \<Rightarrow> nat \<Rightarrow> 'h actor_init \<Rightarrow> 'h system_ref \<Rightarrow>
   (nat, actor_error) outcome \<times> 'h system_ref" where
  "create_root_actor name tag aid init sys =
     then_in (create_actor_path (path_div (path_from ''/user'') name) tag aid init sys)
       (\<lambda>(actor_ref, stop_sender) sys'.
          (Ok actor_ref, sys'\<lparr>sy_root_senders := sy_root_senders sys' @ [stop_sender]\<rparr>))"

definition stop_system :: "'h system_ref \<Rightarrow> 'h system_ref" where
  "stop_system sys = sys\<lparr>sy_cancelled := True\<rparr>"

definition children :: "actor_path \<Rightarrow> 'h system_ref \<Rightarrow> actor_path list" where
  "children path sys = filter (\<lambda>p. path_is_child_of p path) (map fst (sy_actors sys))"

definition add_helper :: "string \<Rightarrow> string \<Rightarrow> 'h \<Rightarrow> 'h system_ref \<Rightarrow> 'h system_ref" where
  "add_helper name tag helper sys =
     sys\<lparr>sy_helpers := AList.update name (tag, helper) (sy_helpers sys)\<rparr>"

definition get_helper :: "string \<Rightarrow> string \<Rightarrow> 'h system_ref \<Rightarrow> 'h option" where
  "get_helper name tag sys = Option.bind (map_of (sy_helpers sys) name) (downcast tag)"

section \<open>Shutdown\<close>

text \<open>The task spawned by \<open>SystemRef::new\<close> after the token is cancelled: the senders are popped from the
  back; \<open>alive\<close> says whose stop channel is still open. The result is the list of actors that were
  stopped, the senders that are left and whether \<open>StopSystem\<close> was sent.\<close>

function shutdown_loop :: "(nat \<Rightarrow> bool) \<Rightarrow> nat list \<Rightarrow> nat list \<times> nat list \<times> bool" where
  "shutdown_loop alive senders =
     (if senders = [] then ([], [], True)
      else let sender = last senders; rest = butlast senders
           in if \<not> alive sender then ([], rest, False)
              else let (stopped, left, sent) = shutdown_loop alive rest in (sender # stopped, left, sent))"
  by pat_completeness auto
termination
  by (relation "measure (\<lambda>(alive, senders). length senders)") auto

declare shutdown_loop.simps [simp del]

definition shutdown_task :: "(nat \<Rightarrow> bool) \<Rightarrow> 'h system_ref \<Rightarrow> (nat list \<times> bool) option \<times> 'h system_ref" where
  "shutdown_task alive sys =
     (if sy_cancelled sys
      then let (stopped, left, sent) = shutdown_loop alive (sy_root_senders sys)
           in (Some (stopped, sent), sys\<lparr>sy_root_senders := left\<rparr>)
      else (None, sys))"

text \<open>\<open>SystemRunner::run\<close> waits for an event while the sender lives (\<open>None\<close>) and returns at the first one.
  When the sender is gone, \<open>recv\<close> gives no event, the only branch of the select is disabled, and the
  select, which has no \<open>else\<close>, panics.\<close>

fun system_runner_run :: "bool \<Rightarrow> SystemEvent list \<Rightarrow> (unit, actor_error) outcome option" where
  "system_runner_run sender_alive [] =
     (if sender_alive then None else Some (Panic ''all branches are disabled and there is no else branch''))"
| "system_runner_run sender_alive (StopSystem # es) = Some (Ok ())"

section \<open>Concurrent creations\<close>

text \<open>The registry and any number of tasks that create actors and then run them. A task is \<open>Running\<close> from
  its insertion until it takes a stop request; the stop branch removes the path, after which the task
  is \<open>Stopping\<close>: it still runs \<open>post_stop\<close>, or was told to restart. At its end it removes the path once
  more (\<open>Gone\<close>). A hook that panics kills the task at any moment and removes nothing (\<open>Dead\<close>).\<close>

datatype create_phase = Checking | Inserting | Running | Stopping | Refused | Gone | Dead

record create_task =
  ct_path :: actor_path
  ct_phase :: create_phase

type_synonym create_state = "(actor_path \<rightharpoonup> nat) \<times> (nat \<Rightarrow> create_task)"

definition set_phase :: "nat \<Rightarrow> create_phase \<Rightarrow> (nat \<Rightarrow> create_task) \<Rightarrow> nat \<Rightarrow> create_task" where
  "set_phase i ph ts = ts(i := (ts i)\<lparr>ct_phase := ph\<rparr>)"

inductive create_step :: "create_state \<Rightarrow> create_state \<Rightarrow> bool" where
  CheckExists: "ct_phase (ts i) = Checking \<Longrightarrow> ct_path (ts i) \<in> dom reg \<Longrightarrow>
     create_step (reg, ts) (reg, set_phase i Refused ts)"
| CheckFree: "ct_phase (ts i) = Checking \<Longrightarrow> ct_path (ts i) \<notin> dom reg \<Longrightarrow>
     create_step (reg, ts) (reg, set_phase i Inserting ts)"
| Insert: "ct_phase (ts i) = Inserting \<Longrightarrow>
     create_step (reg, ts) (reg(ct_path (ts i) \<mapsto> i), set_phase i Running ts)"
| Unregister: "ct_phase (ts i) \<in> {Running, Stopping} \<Longrightarrow>
     create_step (reg, ts) (reg(ct_path (ts i) := None), set_phase i Stopping ts)"
| Terminate: "ct_phase (ts i) \<in> {Running, Stopping} \<Longrightarrow>
     create_step (reg, ts) (reg(ct_path (ts i) := None), set_phase i Gone ts)"
| Panics: "ct_phase (ts i) \<in> {Running, Stopping} \<Longrightarrow>
     create_step (reg, ts) (reg, set_phase i Dead ts)"


definition create_init :: "(nat \<Rightarrow> actor_path) \<Rightarrow> create_state" where
  "create_init paths = (Map.empty, \<lambda>i. \<lparr>ct_path = paths i, ct_phase = Checking\<rparr>)"






section \<open>Lemmas on the registry and the shutdown\<close>

lemma map_of_delete [simp]: "map_of (AList.delete k xs) = (map_of xs)(k := None)"
  by (simp add: delete_conv')

lemma map_of_update [simp]: "map_of (AList.update k v xs) = (map_of xs)(k \<mapsto> v)"
  by (simp add: update_conv')

lemma shutdown_loop_eq:
  "shutdown_loop alive senders =
     (takeWhile alive (rev senders), rev (tl (dropWhile alive (rev senders))), list_all alive senders)"
proof (induction senders rule: rev_induct)
  case Nil
  show ?case by (simp add: shutdown_loop.simps)
next
  case (snoc r senders)
  then show ?case by (subst shutdown_loop.simps) simp
qed

section \<open>Properties\<close>

text \<open>The registrations strictly below a path: those of the children of the actor, and of theirs.\<close>

definition inside :: "actor_path \<Rightarrow> actor_path \<Rightarrow> bool" where
  "inside path p \<longleftrightarrow> length path < length p \<and> take (length path) p = path"

definition registers_inside :: "actor_path \<Rightarrow> 'h actor_init \<Rightarrow> bool" where
  "registers_inside path init \<longleftrightarrow>
     (\<forall>s p. \<not> inside path p \<longrightarrow> map_of (sy_actors (snd (init s))) p = map_of (sy_actors s) p)"

lemma not_inside_self [simp]: "\<not> inside path path"
  by (simp add: inside_def)

text \<open>C28. Creating an actor at a free path, whose \<open>pre_start\<close> may create and remove actors strictly below that
  path, and changes nothing else in the registry. Whatever the outcome, the entries that are neither the path
  nor below it are untouched, and those below it are as \<open>pre_start\<close> left them. When the actor starts, it is
  found under its path with the type it was created with and under no other type, and a second creation at
  the path is refused and changes nothing. When its start fails, the path is free again, but the children
  that \<open>pre_start\<close> registered before it failed stay registered. When the start panics, the path
  stays registered although \<open>create_actor_path\<close> returned an error.\<close>

theorem creation_and_registry:
  assumes "map_of (sy_actors sys) path = None" "registers_inside path init"
    and "started = init (sys\<lparr>sy_actors := AList.update path (tag, aid) (sy_actors sys)\<rparr>)"
    and "create_actor_path path tag aid init sys = (res, sys')"
  shows "(p \<noteq> path \<and> \<not> inside path p \<longrightarrow> map_of (sy_actors sys') p = map_of (sy_actors sys) p) \<and>
    (inside path p \<longrightarrow> map_of (sy_actors sys') p = map_of (sy_actors (snd started)) p) \<and>
    (case fst started of
       InitStarted \<Rightarrow>
         res = Ok (aid, aid) \<and> get_actor tag path sys' = Some aid \<and>
         (tag' \<noteq> tag \<longrightarrow> get_actor tag' path sys' = None) \<and>
         create_actor_path path tag' aid' init' sys' = (Err (ActorErr_Exists path), sys')
     | InitFailed \<Rightarrow> (\<exists>e. res = Err e) \<and> map_of (sy_actors sys') path = None
     | InitDropped \<Rightarrow> (\<exists>e. res = Err e) \<and> get_actor tag path sys' = Some aid)"
proof -
  have frame: "\<not> inside path q \<Longrightarrow>
      map_of (sy_actors (snd started)) q = (if q = path then Some (tag, aid) else map_of (sy_actors sys) q)" for q
    using assms(2,3) by (simp add: registers_inside_def)
  obtain rep sys2 where st: "started = (rep, sys2)" by fastforce
  show ?thesis
    using assms(1,4) frame [of path] frame [of p]
    by (cases rep) (auto simp: create_actor_path_def assms(3) [symmetric] st get_actor_def downcast_def remove_actor_def)
qed

text \<open>An actor that creates the child \<open>c\<close> and then starts, or fails, or panics.\<close>

definition parent_init :: "init_result \<Rightarrow> nat actor_init" where
  "parent_init rep sys =
     (rep, snd (create_actor_path [''user'', ''a'', ''c''] ''C'' 8 (\<lambda>s. (InitStarted, s)) sys))"

lemma parent_init_inside: "registers_inside [''user'', ''a''] (parent_init rep)"
  by (auto simp: registers_inside_def parent_init_def create_actor_path_def inside_def)

theorem creation_and_registry_witness:
  "get_actor ''A'' [''user'', ''a''] (snd (create_actor_path [''user'', ''a''] ''A'' 7 (parent_init InitStarted)
     system_new)) = Some 7 \<and>
   map_of (sy_actors (snd (create_actor_path [''user'', ''a''] ''A'' 7 (parent_init InitFailed) system_new)))
     [''user'', ''a''] = None \<and>
   map_of (sy_actors (snd (create_actor_path [''user'', ''a''] ''A'' 7 (parent_init InitFailed) system_new)))
     [''user'', ''a'', ''c''] = Some (''C'', 8)"
proof -
  have free: "map_of (sy_actors (system_new :: nat system_ref)) [''user'', ''a''] = None" by (simp add: system_new_def)
  show ?thesis
    using creation_and_registry [OF free parent_init_inside [of InitStarted] refl surjective_pairing, where
        tag = "''A''" and aid = 7]
      creation_and_registry [OF free parent_init_inside [of InitFailed] refl surjective_pairing, where
        tag = "''A''" and aid = 7 and p = "[''user'', ''a'', ''c'']"]
    by (auto simp: parent_init_def create_actor_path_def system_new_def inside_def)
qed

text \<open>Once the token is cancelled, shutdown stops the root actors in the reverse of their creation
  order until it meets one that has already stopped. If there is none, all are stopped and
  \<open>StopSystem\<close> is sent, at which \<open>SystemRunner::run\<close> returns; otherwise the root actors created before it
  are left running and \<open>StopSystem\<close> is never sent: the task drops the sender of the channel and
  \<open>SystemRunner::run\<close> panics.\<close>

theorem shutdown_stops_roots:
  assumes "sy_cancelled sys"
  shows "\<exists>sent. shutdown_task alive sys =
      (Some (takeWhile alive (rev (sy_root_senders sys)), sent),
       sys\<lparr>sy_root_senders := rev (tl (dropWhile alive (rev (sy_root_senders sys))))\<rparr>) \<and>
    (sent \<longleftrightarrow> (\<forall>r \<in> set (sy_root_senders sys). alive r)) \<and>
    (if sent then system_runner_run False [StopSystem] = Some (Ok ())
     else \<exists>m. system_runner_run False [] = Some (Panic m))"
  using assms by (simp add: shutdown_task_def shutdown_loop_eq list_all_iff)

theorem shutdown_stops_roots_witness:
  "shutdown_task (\<lambda>r. r < 9) (stop_system (system_new\<lparr>sy_root_senders := [1, 2]\<rparr>) :: nat system_ref) =
     (Some ([2, 1], True), stop_system (system_new\<lparr>sy_root_senders := []\<rparr>)) \<and>
   shutdown_task (\<lambda>r. r \<noteq> 2) (stop_system (system_new\<lparr>sy_root_senders := [1, 2, 3]\<rparr>) :: nat system_ref) =
     (Some ([3], False), stop_system (system_new\<lparr>sy_root_senders := [1]\<rparr>))"
  using shutdown_stops_roots [of "stop_system (system_new\<lparr>sy_root_senders := [1, 2]\<rparr>) :: nat system_ref" "\<lambda>r. r < 9"]
    shutdown_stops_roots [of "stop_system (system_new\<lparr>sy_root_senders := [1, 2, 3]\<rparr>) :: nat system_ref" "\<lambda>r. r \<noteq> 2"]
  by (auto simp: stop_system_def system_new_def)

definition race_paths :: "nat \<Rightarrow> actor_path" where
  "race_paths i = [''user'', ''a'']"

definition race_phases :: "create_phase \<Rightarrow> create_phase \<Rightarrow> nat \<Rightarrow> create_task" where
  "race_phases x y =
     (\<lambda>i. \<lparr>ct_path = [''user'', ''a''], ct_phase = (if i = 0 then x else if i = 1 then y else Checking)\<rparr>)"

lemma set_phase_race:
  "set_phase 0 z (race_phases x y) = race_phases z y"
  "set_phase (Suc 0) z (race_phases x y) = race_phases x z"
  by (auto simp: set_phase_def race_phases_def fun_eq_iff)

lemma race_steps:
  "create_step (Map.empty, race_phases Checking Checking) (Map.empty, race_phases Inserting Checking)"
  "create_step (Map.empty, race_phases Inserting Checking) (Map.empty, race_phases Inserting Inserting)"
  "create_step (Map.empty, race_phases Inserting Inserting)
     ([[''user'', ''a''] \<mapsto> 0], race_phases Running Inserting)"
  "create_step ([[''user'', ''a''] \<mapsto> 0], race_phases Running Inserting)
     ([[''user'', ''a''] \<mapsto> 1], race_phases Running Running)"
  "create_step ([[''user'', ''a''] \<mapsto> 1], race_phases Running Running)
     (Map.empty, race_phases Gone Running)"
  using create_step.CheckFree [of "race_phases Checking Checking" 0 Map.empty]
    create_step.CheckFree [of "race_phases Inserting Checking" 1 Map.empty]
    create_step.Insert [of "race_phases Inserting Inserting" 0 Map.empty]
    create_step.Insert [of "race_phases Running Inserting" 1 "[[''user'', ''a''] \<mapsto> 0]"]
    create_step.Terminate [of "race_phases Running Running" 0 "[[''user'', ''a''] \<mapsto> 1]"]
  by (simp_all add: set_phase_race) (simp_all add: race_phases_def)

lemma race_reachable:
  "create_step\<^sup>*\<^sup>* (create_init race_paths) ([[''user'', ''a''] \<mapsto> 1], race_phases Running Running)"
  "create_step\<^sup>*\<^sup>* (create_init race_paths) (Map.empty, race_phases Gone Running)"
proof -
  have "create_init race_paths = (Map.empty, race_phases Checking Checking)"
    by (auto simp: create_init_def race_paths_def race_phases_def fun_eq_iff)
  then show r: "create_step\<^sup>*\<^sup>* (create_init race_paths) ([[''user'', ''a''] \<mapsto> 1], race_phases Running Running)"
    using steps4 [of create_step, OF race_steps(1-4)] by simp
  show "create_step\<^sup>*\<^sup>* (create_init race_paths) (Map.empty, race_phases Gone Running)"
    by (rule rtranclp.rtrancl_into_rtrancl [of create_step, OF r race_steps(5)])
qed




text \<open>C30. Two concurrent creations at one path can both succeed: the check and the insertion are
  separate critical sections. Both actors then run, one of them unregistered, and when that one
  terminates it removes the registration of the other.\<close>

theorem concurrent_creations_both_succeed:
  "\<exists>paths reg ts. create_step\<^sup>*\<^sup>* (create_init paths) (reg, ts) \<and>
     ct_path (ts 0) = ct_path (ts 1) \<and> ct_phase (ts 0) = Running \<and> ct_phase (ts 1) = Running \<and>
     reg (ct_path (ts 0)) = Some 1 \<and>
     (\<exists>reg' ts'. create_step (reg, ts) (reg', ts') \<and> ct_phase (ts' 1) = Running \<and> reg' (ct_path (ts' 1)) = None)"
proof -
  let ?reg = "[[''user'', ''a''] \<mapsto> 1] :: actor_path \<rightharpoonup> nat" and ?ts = "race_phases Running Running"
  have sel: "ct_path (race_phases x y i) = [''user'', ''a'']" "ct_phase (race_phases x y 0) = x"
    "ct_phase (race_phases x y 1) = y" for x y i
    by (simp_all add: race_phases_def)
  have "\<exists>reg' ts'. create_step (?reg, ?ts) (reg', ts') \<and> ct_phase (ts' 1) = Running \<and>
      reg' (ct_path (ts' 1)) = None"
    using race_steps(5) sel(3) [of Gone Running] by blast
  then show ?thesis
    using race_reachable(1) sel
    by (intro exI [of _ race_paths] exI [of _ ?reg] exI [of _ ?ts]) simp
qed

end
