(* ===== verification/Supervision.thy ===== *)
theory Supervision
  imports Rush_Prelude
begin

text \<open>
  Supervision strategies (\<open>src/actor/src/supervision.rs\<close>). A \<open>Duration\<close> is its number of
  nanoseconds. The trait \<open>RetryStrategy\<close> is the locale \<open>retry_strategy\<close>, interpreted for each
  of its four implementations; \<open>backoffs\<close> is the sequence of delays a caller sees.
\<close>

type_synonym duration = nat

record NoIntervalStrategy =
  nis_max_retries :: nat

record FixedIntervalStrategy =
  fis_max_retries :: nat
  fis_duration :: duration

record CustomIntervalStrategy =
  cis_durations :: "duration list"
  cis_max_retries :: nat

datatype Strategy =
    NoInterval NoIntervalStrategy
  | FixedInterval FixedIntervalStrategy
  | CustomInterval CustomIntervalStrategy

datatype SupervisionStrategy = SupStop | SupRetry Strategy

definition no_interval_new :: "nat \<Rightarrow> NoIntervalStrategy" where
  "no_interval_new n = \<lparr>nis_max_retries = n\<rparr>"

definition no_interval_next_backoff ::
  "NoIntervalStrategy \<Rightarrow> duration option \<times> NoIntervalStrategy" where
  "no_interval_next_backoff s = (None, s)"

definition fixed_interval_new :: "nat \<Rightarrow> duration \<Rightarrow> FixedIntervalStrategy" where
  "fixed_interval_new n d = \<lparr>fis_max_retries = n, fis_duration = d\<rparr>"

definition fixed_interval_next_backoff ::
  "FixedIntervalStrategy \<Rightarrow> duration option \<times> FixedIntervalStrategy" where
  "fixed_interval_next_backoff s = (Some (fis_duration s), s)"

definition custom_interval_new :: "duration list \<Rightarrow> CustomIntervalStrategy" where
  "custom_interval_new ds = \<lparr>cis_durations = ds, cis_max_retries = length ds\<rparr>"

text \<open>\<open>VecDeque::pop_front\<close>.\<close>

definition custom_interval_next_backoff ::
  "CustomIntervalStrategy \<Rightarrow> duration option \<times> CustomIntervalStrategy" where
  "custom_interval_next_backoff s =
     (case cis_durations s of
        [] \<Rightarrow> (None, s)
      | d # ds \<Rightarrow> (Some d, s\<lparr>cis_durations := ds\<rparr>))"

fun strategy_max_retries :: "Strategy \<Rightarrow> nat" where
  "strategy_max_retries (NoInterval s) = nis_max_retries s"
| "strategy_max_retries (FixedInterval s) = fis_max_retries s"
| "strategy_max_retries (CustomInterval s) = cis_max_retries s"

fun strategy_next_backoff :: "Strategy \<Rightarrow> duration option \<times> Strategy" where
  "strategy_next_backoff (NoInterval s) = map_prod id NoInterval (no_interval_next_backoff s)"
| "strategy_next_backoff (FixedInterval s) = map_prod id FixedInterval (fixed_interval_next_backoff s)"
| "strategy_next_backoff (CustomInterval s) = map_prod id CustomInterval (custom_interval_next_backoff s)"

definition strategy_default :: Strategy where
  "strategy_default = NoInterval \<lparr>nis_max_retries = 0\<rparr>"

text \<open>The delays of \<open>n\<close> consecutive calls.\<close>

fun backoffs :: "('s \<Rightarrow> duration option \<times> 's) \<Rightarrow> nat \<Rightarrow> 's \<Rightarrow> duration option list \<times> 's" where
  "backoffs nb 0 s = ([], s)"
| "backoffs nb (Suc n) s =
     (let (d, s') = nb s; (ds, s'') = backoffs nb n s' in (d # ds, s''))"

lemma backoffs_Suc [simp]:
  "fst (backoffs nb (Suc n) s) = fst (nb s) # fst (backoffs nb n (snd (nb s)))"
  "snd (backoffs nb (Suc n) s) = snd (backoffs nb n (snd (nb s)))"
  by (simp_all add: case_prod_beta Let_def)

declare backoffs.simps(2) [simp del]

section \<open>The trait RetryStrategy\<close>

locale retry_strategy =
  fixes max_retries :: "'s \<Rightarrow> nat"
    and next_backoff :: "'s \<Rightarrow> duration option \<times> 's"
  assumes max_retries_kept: "max_retries (snd (next_backoff s)) = max_retries s"
begin

lemma backoffs_max_retries: "max_retries (snd (backoffs next_backoff n s)) = max_retries s"
  by (induction n arbitrary: s) (auto simp: max_retries_kept)

lemma backoffs_length: "length (fst (backoffs next_backoff n s)) = n"
  by (induction n arbitrary: s) auto

end

interpretation no_interval: retry_strategy nis_max_retries no_interval_next_backoff
  by unfold_locales (simp add: no_interval_next_backoff_def)

interpretation fixed_interval: retry_strategy fis_max_retries fixed_interval_next_backoff
  by unfold_locales (simp add: fixed_interval_next_backoff_def)

interpretation custom_interval: retry_strategy cis_max_retries custom_interval_next_backoff
  by unfold_locales (simp add: custom_interval_next_backoff_def split: list.split)

lemma strategy_next_backoff_max:
  "strategy_max_retries (snd (strategy_next_backoff s)) = strategy_max_retries s"
  by (cases s) (auto simp: no_interval.max_retries_kept fixed_interval.max_retries_kept
      custom_interval.max_retries_kept)

interpretation strategy: retry_strategy strategy_max_retries strategy_next_backoff
  by unfold_locales (rule strategy_next_backoff_max)

section \<open>The delays of each strategy\<close>

lemma custom_backoffs:
  "fst (backoffs custom_interval_next_backoff n s) =
     map Some (take n (cis_durations s)) @ replicate (n - length (cis_durations s)) None"
proof (induction n arbitrary: s)
  case (Suc n)
  show ?case
  proof (cases "cis_durations s")
    case Nil
    then show ?thesis
      using Suc [of s] by (simp add: custom_interval_next_backoff_def)
  next
    case (Cons d ds)
    then show ?thesis
      using Suc [of "s\<lparr>cis_durations := ds\<rparr>"]
      by (simp add: custom_interval_next_backoff_def)
  qed
qed simp

lemma strategy_custom_backoffs:
  "fst (backoffs strategy_next_backoff n (CustomInterval s)) =
   fst (backoffs custom_interval_next_backoff n s)"
  by (induction n arbitrary: s) auto

lemma strategy_fixed_backoffs:
  "fst (backoffs strategy_next_backoff n (FixedInterval s)) = replicate n (Some (fis_duration s))"
  by (induction n) (auto simp: fixed_interval_next_backoff_def)

lemma strategy_no_backoffs:
  "fst (backoffs strategy_next_backoff n (NoInterval s)) = replicate n None"
  by (induction n) (auto simp: no_interval_next_backoff_def)

section \<open>The delays handed out\<close>

text \<open>Consecutive calls of \<open>next_backoff\<close>: the custom strategy hands out its durations in order,
  each once, and then none; the fixed one always its duration; the other none. No call changes
  the number of retries.\<close>

lemma strategy_backoff_sequences:
  "fst (backoffs strategy_next_backoff n (CustomInterval c)) =
     map Some (take n (cis_durations c)) @ replicate (n - length (cis_durations c)) None \<and>
   fst (backoffs strategy_next_backoff n (FixedInterval f)) = replicate n (Some (fis_duration f)) \<and>
   fst (backoffs strategy_next_backoff n (NoInterval k)) = replicate n None \<and>
   strategy_max_retries (snd (backoffs strategy_next_backoff n s)) = strategy_max_retries s"
  by (simp add: strategy_custom_backoffs custom_backoffs strategy_fixed_backoffs strategy_no_backoffs
      strategy.backoffs_max_retries)

end
