(* ===== verification/Actor_Runner.thy ===== *)
theory Actor_Runner
  imports Actor_System Supervision
begin

text \<open>
  The context of an actor (\<open>ActorContext\<close> in \<open>src/actor/src/actor.rs\<close>) and the task that runs it
  (\<open>ActorRunner\<close> in \<open>src/actor/src/runner.rs\<close>): lifecycle, supervision, the select loop.

  The hooks of the actor are the record \<open>actor_impl\<close>; each takes the actor with its context and
  returns both. The runner is the record \<open>runner\<close>: its channels are their queues, and \<open>ru_out\<close> is what
  it did towards the outside, in order. The select loop chooses any branch that is ready, so the
  task is the relation \<open>runner_step\<close>; one step is one arm of the lifecycle loop of \<open>init\<close>, one branch
  of the select loop of \<open>run\<close>, the arrival of a message, a stop request or a report of a child, or a
  change that another task makes to the system.
  The answer of the parent to a fault is an argument of the step that waits for it.
\<close>

datatype ActorLifecycle = Created | Started | Restarted | Failed | Stopped | Terminated

datatype ChildAction = ChildStop | ChildRestart | ChildDelegate

datatype ChildError = ChildErr actor_error | ChildFault actor_error nat

datatype 'e InnerAction = InnerEvent 'e | InnerError actor_error | InnerFail actor_error

section \<open>ActorContext\<close>

record ('h, 'e) ActorContext =
  cx_stop :: "nat option list"
  cx_path :: actor_path
  cx_system :: "'h system_ref"
  cx_error :: "actor_error option"
  cx_inner :: "'e InnerAction list"
  cx_child_senders :: "nat list"

definition ctx_new :: "actor_path \<Rightarrow> 'h system_ref \<Rightarrow> ('h, 'e) ActorContext" where
  "ctx_new path system =
     \<lparr>cx_stop = [], cx_path = path, cx_system = system, cx_error = None, cx_inner = [],
      cx_child_senders = []\<rparr>"

definition ctx_reference :: "string \<Rightarrow> ('h, 'e) ActorContext \<Rightarrow> nat option" where
  "ctx_reference tag ctx = get_actor tag (cx_path ctx) (cx_system ctx)"

definition ctx_parent :: "string \<Rightarrow> ('h, 'e) ActorContext \<Rightarrow> nat option" where
  "ctx_parent tag ctx = get_actor tag (path_parent (cx_path ctx)) (cx_system ctx)"

definition ctx_get_child :: "string \<Rightarrow> string \<Rightarrow> ('h, 'e) ActorContext \<Rightarrow> nat option" where
  "ctx_get_child tag name ctx = get_actor tag (path_div (cx_path ctx) name) (cx_system ctx)"

definition ctx_create_child ::
  "string \<Rightarrow> string \<Rightarrow> nat \<Rightarrow> 'h actor_init \<Rightarrow> ('h, 'e) ActorContext \<Rightarrow>
   (nat, actor_error) outcome \<times> ('h, 'e) ActorContext" where
  "ctx_create_child tag name aid init ctx =
     (case create_actor_path (path_div (cx_path ctx) name) tag aid init (cx_system ctx) of
        (Ok (actor_ref, stop_sender), sys) \<Rightarrow>
          (Ok actor_ref,
           ctx\<lparr>cx_system := sys, cx_child_senders := cx_child_senders ctx @ [stop_sender]\<rparr>)
      | (Err e, sys) \<Rightarrow> (Err e, ctx\<lparr>cx_system := sys\<rparr>)
      | (Panic m, sys) \<Rightarrow> (Panic m, ctx\<lparr>cx_system := sys\<rparr>))"

definition ctx_stop :: "nat option \<Rightarrow> ('h, 'e) ActorContext \<Rightarrow> ('h, 'e) ActorContext" where
  "ctx_stop sender ctx = ctx\<lparr>cx_stop := cx_stop ctx @ [sender]\<rparr>"

definition ctx_publish_event ::
  "'e \<Rightarrow> ('h, 'e) ActorContext \<Rightarrow> (unit, actor_error) outcome \<times> ('h, 'e) ActorContext" where
  "ctx_publish_event event ctx = (Ok (), ctx\<lparr>cx_inner := cx_inner ctx @ [InnerEvent event]\<rparr>)"

text \<open>The deprecated name of \<open>publish_event\<close>.\<close>

definition ctx_event :: "'e \<Rightarrow> ('h, 'e) ActorContext \<Rightarrow> (unit, actor_error) outcome \<times> ('h, 'e) ActorContext" where
  "ctx_event event ctx = ctx_publish_event event ctx"

definition ctx_emit_error ::
  "actor_error \<Rightarrow> ('h, 'e) ActorContext \<Rightarrow> (unit, actor_error) outcome \<times> ('h, 'e) ActorContext" where
  "ctx_emit_error e ctx = (Ok (), ctx\<lparr>cx_inner := cx_inner ctx @ [InnerError e]\<rparr>)"

definition ctx_set_error :: "actor_error \<Rightarrow> ('h, 'e) ActorContext \<Rightarrow> ('h, 'e) ActorContext" where
  "ctx_set_error e ctx = ctx\<lparr>cx_error := Some e\<rparr>"

definition ctx_clean_error :: "('h, 'e) ActorContext \<Rightarrow> ('h, 'e) ActorContext" where
  "ctx_clean_error ctx = ctx\<lparr>cx_error := None\<rparr>"

definition ctx_emit_fail ::
  "actor_error \<Rightarrow> ('h, 'e) ActorContext \<Rightarrow> (unit, actor_error) outcome \<times> ('h, 'e) ActorContext" where
  "ctx_emit_fail e ctx =
     (let ctx' = ctx_set_error e ctx
      in (Ok (), ctx'\<lparr>cx_inner := cx_inner ctx' @ [InnerFail e]\<rparr>))"

text \<open>The child senders are popped from the back; a child that is gone is skipped, the others are
  waited for.\<close>

definition ctx_stop_childs :: "('h, 'e) ActorContext \<Rightarrow> nat list \<times> ('h, 'e) ActorContext" where
  "ctx_stop_childs ctx = (rev (cx_child_senders ctx), ctx\<lparr>cx_child_senders := []\<rparr>)"

definition ctx_remove_actor :: "('h, 'e) ActorContext \<Rightarrow> ('h, 'e) ActorContext" where
  "ctx_remove_actor ctx = ctx\<lparr>cx_system := remove_actor (cx_path ctx) (cx_system ctx)\<rparr>"

section \<open>The runner\<close>

type_synonym ('a, 'h, 'e) hook = "'a \<times> ('h, 'e) ActorContext \<Rightarrow>
  (unit, actor_error) outcome \<times> 'a \<times> ('h, 'e) ActorContext"

record ('a, 'm, 'h, 'e) actor_impl =
  supervision_strategy :: SupervisionStrategy
  pre_start :: "('a, 'h, 'e) hook"
  pre_restart :: "actor_error option \<Rightarrow> ('a, 'h, 'e) hook"
  pre_stop :: "('a, 'h, 'e) hook"
  post_stop :: "('a, 'h, 'e) hook"
  handle_msg :: "'m \<Rightarrow> ('a, 'h, 'e) hook"
  on_child_error :: "actor_error \<Rightarrow> 'a \<times> ('h, 'e) ActorContext \<Rightarrow> 'a \<times> ('h, 'e) ActorContext"
  on_child_fault ::
    "actor_error \<Rightarrow> 'a \<times> ('h, 'e) ActorContext \<Rightarrow> ChildAction \<times> 'a \<times> ('h, 'e) ActorContext"

datatype ('m, 'e) runner_output =
    OutHandled 'm
  | OutEvent 'e
  | OutParentError actor_error
  | OutParentFault actor_error
  | OutChildAction nat ChildAction
  | OutStopChild nat
  | OutStopReply nat
  | OutBackoff "duration option"
  | OutPreRestart
  | OutPostStop
  | OutInit bool

datatype run_end = Finished | Panicked

record ('a, 'm, 'h, 'e) runner =
  ru_actor :: 'a
  ru_lifecycle :: ActorLifecycle
  ru_ctx :: "('h, 'e) ActorContext"
  ru_receiver :: "'m list"
  ru_closed :: bool
  ru_handles :: bool
  ru_errors :: "ChildError list"
  ru_parent :: bool
  ru_stop_signal :: bool
  ru_retries :: nat
  ru_running :: bool
  ru_init_sender :: bool
  ru_end :: "run_end option"
  ru_out :: "('m, 'e) runner_output list"

definition runner_create ::
  "actor_path \<Rightarrow> 'a \<Rightarrow> bool \<Rightarrow> bool \<Rightarrow> 'h system_ref \<Rightarrow> ('a, 'm, 'h, 'e) runner" where
  "runner_create path actor parent init_sender system =
     \<lparr>ru_actor = actor, ru_lifecycle = Created, ru_ctx = ctx_new path system, ru_receiver = [],
      ru_closed = False, ru_handles = True, ru_errors = [], ru_parent = parent,
      ru_stop_signal = False, ru_retries = 0, ru_running = False, ru_init_sender = init_sender,
      ru_end = None, ru_out = []\<rparr>"

definition emit :: "('m, 'e) runner_output list \<Rightarrow> ('a, 'm, 'h, 'e) runner \<Rightarrow> ('a, 'm, 'h, 'e) runner" where
  "emit os r = r\<lparr>ru_out := ru_out r @ os\<rparr>"

definition set_lifecycle :: "ActorLifecycle \<Rightarrow> ('a, 'm, 'h, 'e) runner \<Rightarrow> ('a, 'm, 'h, 'e) runner" where
  "set_lifecycle l r = r\<lparr>ru_lifecycle := l\<rparr>"

definition panic_end :: "('a, 'm, 'h, 'e) runner \<Rightarrow> ('a, 'm, 'h, 'e) runner" where
  "panic_end r = r\<lparr>ru_end := Some Panicked, ru_closed := True, ru_receiver := []\<rparr>"

text \<open>A hook runs on the actor and the context; if it panics the task ends.\<close>

definition with_hook ::
  "('a, 'h, 'e) hook \<Rightarrow> ('a, 'm, 'h, 'e) runner \<Rightarrow>
   ((unit, actor_error) outcome \<Rightarrow> ('a, 'm, 'h, 'e) runner \<Rightarrow> ('a, 'm, 'h, 'e) runner) \<Rightarrow>
   ('a, 'm, 'h, 'e) runner" where
  "with_hook hook r k =
     (let (res, a, c) = hook (ru_actor r, ru_ctx r); r' = r\<lparr>ru_actor := a, ru_ctx := c\<rparr>
      in if panics res then panic_end r' else k res r')"

definition report_init :: "bool \<Rightarrow> ('a, 'm, 'h, 'e) runner \<Rightarrow> ('a, 'm, 'h, 'e) runner" where
  "report_init b r = (if ru_init_sender r then emit [OutInit b] (r\<lparr>ru_init_sender := False\<rparr>) else r)"

definition ctx_restart :: "('a, 'm, 'h, 'e) actor_impl \<Rightarrow> actor_error option \<Rightarrow> ('a, 'h, 'e) hook" where
  [simp]: "ctx_restart I error = pre_restart I error"

definition apply_supervision_strategy ::
  "('a, 'm, 'h, 'e) actor_impl \<Rightarrow> SupervisionStrategy \<Rightarrow> ('a, 'm, 'h, 'e) runner \<Rightarrow>
   ('a, 'm, 'h, 'e) runner" where
  "apply_supervision_strategy I strategy r =
     (case strategy of
        SupStop \<Rightarrow> set_lifecycle Stopped r
      | SupRetry retry \<Rightarrow>
          if ru_retries r < strategy_max_retries retry then
            (let (duration, _) = strategy_next_backoff retry;
                 r1 = emit [OutBackoff duration, OutPreRestart] (r\<lparr>ru_retries := Suc (ru_retries r)\<rparr>)
             in with_hook (ctx_restart I (cx_error (ru_ctx r1))) r1 (\<lambda>res r2.
                  case res of
                    Err e \<Rightarrow> r2\<lparr>ru_ctx := ctx_set_error e (ru_ctx r2)\<rparr>
                  | _ \<Rightarrow> set_lifecycle Started (r2\<lparr>ru_retries := 0\<rparr>)))
          else set_lifecycle Stopped r)"

text \<open>One turn of the loop of \<open>init\<close>; \<open>Started\<close> enters \<open>run\<close>.\<close>

definition init_turn ::
  "('a, 'm, 'h, 'e) actor_impl \<Rightarrow> ('a, 'm, 'h, 'e) runner \<Rightarrow> ('a, 'm, 'h, 'e) runner" where
  "init_turn I r =
     (case ru_lifecycle r of
        Created \<Rightarrow>
          with_hook (pre_start I) r (\<lambda>res r'.
            case res of
              Err e \<Rightarrow> set_lifecycle Failed (r'\<lparr>ru_ctx := ctx_set_error e (ru_ctx r')\<rparr>)
            | _ \<Rightarrow> set_lifecycle Started r')
      | Started \<Rightarrow> (report_init True r)\<lparr>ru_running := True\<rparr>
      | Restarted \<Rightarrow> apply_supervision_strategy I (supervision_strategy I) r
      | Stopped \<Rightarrow> with_hook (post_stop I) (emit [OutPostStop] r) (\<lambda>_ r'. set_lifecycle Terminated r')
      | Failed \<Rightarrow> if \<not> ru_parent r then set_lifecycle Restarted r else set_lifecycle Terminated r
      | Terminated \<Rightarrow>
          (report_init False (r\<lparr>ru_ctx := ctx_remove_actor (ru_ctx r)\<rparr>))
            \<lparr>ru_end := Some Finished, ru_closed := True, ru_receiver := []\<rparr>)"

text \<open>What \<open>init\<close> does when \<open>run\<close> returns.\<close>

definition after_run :: "('a, 'm, 'h, 'e) runner \<Rightarrow> ('a, 'm, 'h, 'e) runner" where
  "after_run r =
     (let r' = r\<lparr>ru_running := False\<rparr>
      in if cx_error (ru_ctx r') \<noteq> None then set_lifecycle Failed r' else r')"

section \<open>The branches of the select loop\<close>

text \<open>The stop branch waits for the children between \<open>stop_failed\<close> and \<open>stop_finish\<close>.\<close>

definition stop_failed ::
  "(unit, actor_error) outcome \<Rightarrow> ('a, 'm, 'h, 'e) runner \<Rightarrow> ('a, 'm, 'h, 'e) runner" where
  "stop_failed res r =
     (case res of Err _ \<Rightarrow> r\<lparr>ru_ctx := snd (ctx_emit_fail ActorErr_Stop (ru_ctx r))\<rparr> | _ \<Rightarrow> r)"

definition stop_finish :: "nat option \<Rightarrow> ('a, 'm, 'h, 'e) runner \<Rightarrow> ('a, 'm, 'h, 'e) runner" where
  "stop_finish stop r =
     (let r' = emit (case stop of Some i \<Rightarrow> [OutStopReply i] | None \<Rightarrow> [])
                 (r\<lparr>ru_ctx := ctx_remove_actor (ru_ctx r)\<rparr>)
      in after_run (if ru_lifecycle r' = Started then set_lifecycle Stopped r' else r'))"

definition run_stop ::
  "('a, 'm, 'h, 'e) actor_impl \<Rightarrow> nat option \<Rightarrow> ('a, 'm, 'h, 'e) runner \<Rightarrow> ('a, 'm, 'h, 'e) runner" where
  "run_stop I stop r =
     with_hook (pre_stop I) r (\<lambda>res r1.
       let r2 = stop_failed res r1;
           (children, c) = ctx_stop_childs (ru_ctx r2)
       in stop_finish stop (emit (map OutStopChild children) (r2\<lparr>ru_ctx := c\<rparr>)))"

definition run_child_error ::
  "('a, 'm, 'h, 'e) actor_impl \<Rightarrow> ChildError \<Rightarrow> ('a, 'm, 'h, 'e) runner \<Rightarrow> ('a, 'm, 'h, 'e) runner" where
  "run_child_error I err r =
     (case err of
        ChildErr e \<Rightarrow>
          (let (a, c) = on_child_error I e (ru_actor r, ru_ctx r) in r\<lparr>ru_actor := a, ru_ctx := c\<rparr>)
      | ChildFault e sender \<Rightarrow>
          (let (action, a, c) = on_child_fault I e (ru_actor r, ru_ctx r)
           in emit [OutChildAction sender action] (r\<lparr>ru_actor := a, ru_ctx := c\<rparr>)))"

text \<open>\<open>ctx.stop(None)\<close> and \<open>stop_signal = true\<close>.\<close>

definition request_stop :: "('a, 'm, 'h, 'e) runner \<Rightarrow> ('a, 'm, 'h, 'e) runner" where
  "request_stop r = r\<lparr>ru_ctx := ctx_stop None (ru_ctx r), ru_stop_signal := True\<rparr>"

definition inner_handle ::
  "ChildAction option \<Rightarrow> 'e InnerAction \<Rightarrow> ('a, 'm, 'h, 'e) runner \<Rightarrow> ('a, 'm, 'h, 'e) runner" where
  "inner_handle answer action r =
     (case action of
        InnerEvent event \<Rightarrow> emit [OutEvent event] r
      | InnerError e \<Rightarrow> if ru_parent r then emit [OutParentError e] r else r
      | InnerFail e \<Rightarrow>
          request_stop
            (if ru_parent r then
               (let r1 = emit [OutParentFault e] r
                in case answer of
                     None \<Rightarrow> r1
                   | Some act \<Rightarrow>
                       (let r2 = r1\<lparr>ru_ctx := ctx_clean_error (ru_ctx r1)\<rparr>
                        in case act of
                             ChildStop \<Rightarrow> r2
                           | _ \<Rightarrow> set_lifecycle Restarted r2))
             else r))"

definition run_msg ::
  "('a, 'm, 'h, 'e) actor_impl \<Rightarrow> 'm \<Rightarrow> ('a, 'm, 'h, 'e) runner \<Rightarrow> ('a, 'm, 'h, 'e) runner" where
  "run_msg I msg r = with_hook (handle_msg I msg) (emit [OutHandled msg] r) (\<lambda>_ r'. r')"

inductive runner_step ::
  "('a, 'm, 'h, 'e) actor_impl \<Rightarrow> ('a, 'm, 'h, 'e) runner \<Rightarrow> ('a, 'm, 'h, 'e) runner \<Rightarrow> bool"
  for I :: "('a, 'm, 'h, 'e) actor_impl" where
  Turn: "ru_end r = None \<Longrightarrow> \<not> ru_running r \<Longrightarrow> runner_step I r (init_turn I r)"
| StopBranch: "ru_end r = None \<Longrightarrow> ru_running r \<Longrightarrow> cx_stop (ru_ctx r) = stop # rest \<Longrightarrow>
     runner_step I r (run_stop I stop (r\<lparr>ru_ctx := (ru_ctx r)\<lparr>cx_stop := rest\<rparr>\<rparr>))"
| ErrorBranch: "ru_end r = None \<Longrightarrow> ru_running r \<Longrightarrow> \<not> ru_stop_signal r \<Longrightarrow> ru_errors r = err # rest \<Longrightarrow>
     runner_step I r (run_child_error I err (r\<lparr>ru_errors := rest\<rparr>))"
| InnerBranch: "ru_end r = None \<Longrightarrow> ru_running r \<Longrightarrow> \<not> ru_stop_signal r \<Longrightarrow>
     cx_inner (ru_ctx r) = action # rest \<Longrightarrow>
     runner_step I r (inner_handle answer action (r\<lparr>ru_ctx := (ru_ctx r)\<lparr>cx_inner := rest\<rparr>\<rparr>))"
| MsgBranch: "ru_end r = None \<Longrightarrow> ru_running r \<Longrightarrow> \<not> ru_stop_signal r \<Longrightarrow> ru_receiver r = msg # rest \<Longrightarrow>
     runner_step I r (run_msg I msg (r\<lparr>ru_receiver := rest\<rparr>))"
| MsgNone: "ru_end r = None \<Longrightarrow> ru_running r \<Longrightarrow> \<not> ru_stop_signal r \<Longrightarrow> ru_receiver r = [] \<Longrightarrow>
     \<not> ru_handles r \<Longrightarrow> runner_step I r (request_stop r)"
| MsgArrives: "ru_end r = None \<Longrightarrow> \<not> ru_closed r \<Longrightarrow>
     runner_step I r (r\<lparr>ru_receiver := ru_receiver r @ [msg]\<rparr>)"
| StopArrives: "ru_end r = None \<Longrightarrow> runner_step I r (r\<lparr>ru_ctx := ctx_stop stop (ru_ctx r)\<rparr>)"
| ChildReports: "ru_end r = None \<Longrightarrow> runner_step I r (r\<lparr>ru_errors := ru_errors r @ [err]\<rparr>)"
| HandlesDropped: "ru_end r = None \<Longrightarrow> runner_step I r (r\<lparr>ru_handles := False\<rparr>)"
| SystemChanges: "ru_end r = None \<Longrightarrow>
     runner_step I r (r\<lparr>ru_ctx := (ru_ctx r)\<lparr>cx_system := system\<rparr>\<rparr>)"

inductive_cases runner_stepE: "runner_step I r r'"

section \<open>What the steps keep\<close>

lemmas runner_helpers = emit_def set_lifecycle_def panic_end_def report_init_def after_run_def
  request_stop_def stop_failed_def stop_finish_def Let_def split_beta

definition handled :: "('m, 'e) runner_output list \<Rightarrow> 'm list" where
  "handled os = concat (map (\<lambda>x. case x of OutHandled m \<Rightarrow> [m] | _ \<Rightarrow> []) os)"

lemma handled_simps [simp]:
  "handled [] = []" "handled (os @ ps) = handled os @ handled ps"
  "handled (x # os) = (case x of OutHandled m \<Rightarrow> m # handled os | _ \<Rightarrow> handled os)"
  "handled (map OutStopChild cs) = []"
  by (auto simp: handled_def concat_eq_Nil_conv split: runner_output.split)

lemma with_hook_cases:
  assumes "\<And>a c. P (panic_end (r\<lparr>ru_actor := a, ru_ctx := c\<rparr>))"
    and "\<And>res a c. \<not> panics res \<Longrightarrow> P (k res (r\<lparr>ru_actor := a, ru_ctx := c\<rparr>))"
  shows "P (with_hook hook r k)"
  using assms by (simp add: with_hook_def Let_def split_beta)

lemma supervision_cases:
  fixes r :: "('a, 'm, 'h, 'e) runner"
  defines "retried \<equiv> \<lambda>d. emit [OutBackoff d, OutPreRestart] (r\<lparr>ru_retries := Suc (ru_retries r)\<rparr>)"
  assumes stop: "P (set_lifecycle Stopped r)"
    and panic: "\<And>d a c. P (panic_end ((retried d)\<lparr>ru_actor := a, ru_ctx := c\<rparr>))"
    and err: "\<And>d a c e. P ((retried d)\<lparr>ru_actor := a, ru_ctx := ctx_set_error e c\<rparr>)"
    and ok: "\<And>d a c. P (set_lifecycle Started ((retried d)\<lparr>ru_actor := a, ru_ctx := c, ru_retries := 0\<rparr>))"
  shows "P (apply_supervision_strategy I strategy r)"
proof (cases strategy)
  case SupStop
  with stop show ?thesis by (simp add: apply_supervision_strategy_def)
next
  case (SupRetry retry)
  have "P (with_hook hook (retried d) (\<lambda>res r2. case res of
      Err e \<Rightarrow> r2\<lparr>ru_ctx := ctx_set_error e (ru_ctx r2)\<rparr>
    | _ \<Rightarrow> set_lifecycle Started (r2\<lparr>ru_retries := 0\<rparr>)))" for d hook
    by (rule with_hook_cases) (use panic err ok in \<open>simp_all split: outcome.split\<close>)
  with SupRetry stop show ?thesis
    by (simp add: apply_supervision_strategy_def retried_def Let_def split_beta)
qed

lemma init_turn_keeps:
  "ru_stop_signal (init_turn I r) = ru_stop_signal r \<and> ru_parent (init_turn I r) = ru_parent r \<and>
   handled (ru_out (init_turn I r)) = handled (ru_out r)"
proof (cases "ru_lifecycle r")
  case Created
  show ?thesis unfolding init_turn_def Created ActorLifecycle.case
    by (rule with_hook_cases) (simp_all add: runner_helpers split: outcome.split)
next
  case Restarted
  show ?thesis unfolding init_turn_def Restarted ActorLifecycle.case
    by (rule supervision_cases) (simp_all add: runner_helpers)
next
  case Stopped
  show ?thesis unfolding init_turn_def Stopped ActorLifecycle.case
    by (rule with_hook_cases) (simp_all add: runner_helpers)
qed (simp_all add: init_turn_def runner_helpers)

lemma run_stop_keeps:
  "ru_stop_signal (run_stop I stop r) = ru_stop_signal r \<and> ru_parent (run_stop I stop r) = ru_parent r \<and>
   handled (ru_out (run_stop I stop r)) = handled (ru_out r)"
  unfolding run_stop_def
  by (rule with_hook_cases) (simp_all add: ctx_stop_childs_def runner_helpers split: outcome.split option.split)

lemma other_branches_parent:
  "ru_parent (run_child_error I err r) = ru_parent r"
  "ru_parent (inner_handle answer action r) = ru_parent r"
  "ru_parent (run_msg I msg r) = ru_parent r"
  "ru_parent (request_stop r) = ru_parent r"
  by (auto simp: run_child_error_def inner_handle_def run_msg_def with_hook_def runner_helpers
      split: ChildError.split InnerAction.split option.split ChildAction.split)

lemma stop_signal_step:
  assumes "runner_step I r r'" "ru_stop_signal r"
  shows "ru_stop_signal r' \<and> handled (ru_out r') = handled (ru_out r)"
  using assms by (induction rule: runner_step.induct) (simp_all add: init_turn_keeps run_stop_keeps)

lemma stop_signal_run:
  assumes "(runner_step I)\<^sup>*\<^sup>* r r'" "ru_stop_signal r"
  shows "ru_stop_signal r' \<and> handled (ru_out r') = handled (ru_out r)"
  using assms by (induction rule: rtranclp_induct) (auto dest: stop_signal_step)

section \<open>The lifecycle\<close>

text \<open>The transitions that one step can make.\<close>

fun lifecycle_next :: "ActorLifecycle \<Rightarrow> ActorLifecycle \<Rightarrow> bool" where
  "lifecycle_next Created l \<longleftrightarrow> l \<in> {Created, Started, Failed}"
| "lifecycle_next Started l \<longleftrightarrow> l \<in> {Started, Restarted, Failed, Stopped}"
| "lifecycle_next Restarted l \<longleftrightarrow> l \<in> {Restarted, Started, Stopped, Failed}"
| "lifecycle_next Failed l \<longleftrightarrow> l \<in> {Failed, Restarted, Terminated}"
| "lifecycle_next Stopped l \<longleftrightarrow> l \<in> {Stopped, Terminated}"
| "lifecycle_next Terminated l \<longleftrightarrow> l = Terminated"

text \<open>The lifecycle while the task is inside \<open>run\<close>, the end of the task and what it has reported.\<close>

definition runner_inv :: "('a, 'm, 'h, 'e) runner \<Rightarrow> bool" where
  "runner_inv r \<longleftrightarrow>
     (ru_running r \<longrightarrow> ru_lifecycle r \<in> {Started, Restarted} \<and> \<not> ru_init_sender r) \<and>
     (ru_running r \<and> ru_lifecycle r = Restarted \<longrightarrow> ru_stop_signal r \<and> ru_parent r) \<and>
     (ru_end r \<noteq> None \<longrightarrow> ru_closed r \<and> ru_receiver r = []) \<and>
     (ru_end r = Some Finished \<longrightarrow> ru_lifecycle r = Terminated \<and> \<not> ru_init_sender r \<and>
        map_of (sy_actors (cx_system (ru_ctx r))) (cx_path (ru_ctx r)) = None)"

lemma init_turn_inv:
  assumes "runner_inv r" "ru_end r = None" "\<not> ru_running r"
  shows "runner_inv (init_turn I r)"
proof (cases "ru_lifecycle r")
  case Created
  show ?thesis unfolding init_turn_def Created ActorLifecycle.case
    by (rule with_hook_cases) (use assms in \<open>simp_all add: runner_inv_def runner_helpers split: outcome.split\<close>)
next
  case Restarted
  show ?thesis unfolding init_turn_def Restarted ActorLifecycle.case
    by (rule supervision_cases) (use assms in \<open>simp_all add: runner_inv_def runner_helpers\<close>)
next
  case Stopped
  show ?thesis unfolding init_turn_def Stopped ActorLifecycle.case
    by (rule with_hook_cases) (use assms in \<open>simp_all add: runner_inv_def runner_helpers\<close>)
qed (use assms in \<open>simp_all add: init_turn_def runner_inv_def runner_helpers ctx_remove_actor_def remove_actor_def\<close>)

lemma run_stop_inv:
  assumes "runner_inv r" "ru_end r = None" "ru_running r"
  shows "runner_inv (run_stop I stop r)"
  unfolding run_stop_def
  by (rule with_hook_cases)
    (use assms in \<open>simp_all add: runner_inv_def ctx_stop_childs_def runner_helpers split: outcome.split\<close>)

lemma run_msg_inv:
  assumes "runner_inv r" "ru_end r = None"
  shows "runner_inv (run_msg I msg r)"
  unfolding run_msg_def
  by (rule with_hook_cases) (use assms in \<open>simp_all add: runner_inv_def runner_helpers\<close>)

lemma inner_handle_inv:
  assumes "runner_inv r" "ru_end r = None"
  shows "runner_inv (inner_handle answer action r)"
  using assms
  by (simp add: runner_inv_def inner_handle_def runner_helpers
      split: InnerAction.split option.split ChildAction.split) blast

lemma run_child_error_inv:
  assumes "runner_inv r" "ru_end r = None"
  shows "runner_inv (run_child_error I err r)"
  using assms by (simp add: runner_inv_def run_child_error_def runner_helpers split: ChildError.split)

lemma runner_inv_step: "runner_step I r r' \<Longrightarrow> runner_inv r \<Longrightarrow> runner_inv r'"
proof (induction rule: runner_step.induct)
  case (Turn r)
  then show ?case by (simp add: init_turn_inv)
next
  case (StopBranch r stop rest)
  then show ?case by (intro run_stop_inv) (simp_all add: runner_inv_def)
next
  case (ErrorBranch r err rest)
  then show ?case by (intro run_child_error_inv) (auto simp: runner_inv_def)
next
  case (InnerBranch r action rest answer)
  then show ?case by (intro inner_handle_inv) (auto simp: runner_inv_def)
next
  case (MsgBranch r msg rest)
  then show ?case by (intro run_msg_inv) (auto simp: runner_inv_def)
qed (auto simp: runner_inv_def request_stop_def)

lemma runner_inv_create: "runner_inv (runner_create path actor parent init_sender system)"
  by (simp add: runner_inv_def runner_create_def)

lemma runner_inv_reachable:
  "(runner_step I)\<^sup>*\<^sup>* (runner_create path actor parent init_sender system) r \<Longrightarrow> runner_inv r"
  by (induction rule: rtranclp_induct) (auto intro: runner_inv_create runner_inv_step)

lemma init_turn_lifecycle: "lifecycle_next (ru_lifecycle r) (ru_lifecycle (init_turn I r))"
proof (cases "ru_lifecycle r")
  case Created
  show ?thesis unfolding init_turn_def Created ActorLifecycle.case
    by (rule with_hook_cases) (simp_all add: Created runner_helpers split: outcome.split)
next
  case Restarted
  show ?thesis unfolding init_turn_def Restarted ActorLifecycle.case
    by (rule supervision_cases) (simp_all add: Restarted runner_helpers)
next
  case Stopped
  show ?thesis unfolding init_turn_def Stopped ActorLifecycle.case
    by (rule with_hook_cases) (simp_all add: Stopped runner_helpers)
qed (simp_all add: init_turn_def runner_helpers)

lemma run_stop_lifecycle:
  assumes "ru_lifecycle r \<in> {Started, Restarted}"
  shows "lifecycle_next (ru_lifecycle r) (ru_lifecycle (run_stop I stop r))"
  unfolding run_stop_def
  by (rule with_hook_cases) (use assms in \<open>auto simp: runner_helpers split: outcome.split\<close>)

lemma run_msg_lifecycle: "ru_lifecycle (run_msg I msg r) = ru_lifecycle r"
  unfolding run_msg_def by (rule with_hook_cases) (simp_all add: runner_helpers)

lemma lifecycle_next_refl [simp]: "lifecycle_next l l"
  by (cases l) simp_all

lemma lifecycle_step:
  "runner_step I r r' \<Longrightarrow> runner_inv r \<Longrightarrow> lifecycle_next (ru_lifecycle r) (ru_lifecycle r')"
proof (induction rule: runner_step.induct)
  case (Turn r)
  show ?case by (rule init_turn_lifecycle)
next
  case (StopBranch r stop rest)
  then have "ru_lifecycle r \<in> {Started, Restarted}" by (simp add: runner_inv_def)
  then show ?case using run_stop_lifecycle [of "r\<lparr>ru_ctx := (ru_ctx r)\<lparr>cx_stop := rest\<rparr>\<rparr>" I stop] by simp
next
  case (ErrorBranch r err rest)
  then show ?case by (simp add: run_child_error_def runner_helpers split: ChildError.split)
next
  case (InnerBranch r action rest answer)
  then have "ru_lifecycle r = Started" by (auto simp: runner_inv_def)
  then show ?case
    by (simp add: inner_handle_def runner_helpers split: InnerAction.split option.split ChildAction.split)
qed (simp_all add: run_msg_lifecycle request_stop_def)

section \<open>Failing starts\<close>

lemma with_hook_eq:
  "hook (ru_actor r, ru_ctx r) = (res, a, c) \<Longrightarrow> \<not> panics res \<Longrightarrow>
   with_hook hook r k = k res (r\<lparr>ru_actor := a, ru_ctx := c\<rparr>)"
  by (simp add: with_hook_def)

text \<open>All attempts to restart fail: the retries are used up, with the delay of a fresh strategy before
  each, and the lifecycle goes to \<open>Stopped\<close>.\<close>

lemma retries_exhausted:
  assumes strat: "supervision_strategy I = SupRetry s"
    and fail: "\<And>e x. \<exists>e' a c. pre_restart I e x = (Err e', a, c)"
    and r: "ru_lifecycle r = Restarted" "ru_retries r + k = strategy_max_retries s"
      "ru_end r = None" "ru_init_sender r"
  shows "\<exists>r'. (init_turn I ^^ Suc k) r = r' \<and> ru_lifecycle r' = Stopped \<and> ru_end r' = None \<and>
    ru_init_sender r' \<and>
    ru_out r' = ru_out r @ concat (replicate k [OutBackoff (fst (strategy_next_backoff s)), OutPreRestart])"
  using r
proof (induction k arbitrary: r)
  case 0
  then have "init_turn I r = set_lifecycle Stopped r"
    by (simp add: init_turn_def apply_supervision_strategy_def strat)
  with 0 show ?case by (simp add: set_lifecycle_def)
next
  case (Suc k)
  let ?r1 = "emit [OutBackoff (fst (strategy_next_backoff s)), OutPreRestart] (r\<lparr>ru_retries := Suc (ru_retries r)\<rparr>)"
  obtain e' a c where h: "pre_restart I (cx_error (ru_ctx ?r1)) (ru_actor ?r1, ru_ctx ?r1) = (Err e', a, c)"
    using fail by blast
  have t: "init_turn I r = ?r1\<lparr>ru_actor := a, ru_ctx := ctx_set_error e' c\<rparr>"
    using Suc.prems
    by (simp add: init_turn_def apply_supervision_strategy_def strat Let_def split_beta
        with_hook_eq [where hook = "pre_restart I (cx_error (ru_ctx ?r1))" and r = ?r1, OF h])
  have "\<exists>r'. (init_turn I ^^ Suc k) (init_turn I r) = r' \<and> ru_lifecycle r' = Stopped \<and> ru_end r' = None \<and>
    ru_init_sender r' \<and>
    ru_out r' = ru_out (init_turn I r) @ concat (replicate k [OutBackoff (fst (strategy_next_backoff s)), OutPreRestart])"
    unfolding t by (rule Suc.IH) (use Suc.prems in \<open>simp_all add: emit_def\<close>)
  moreover have "ru_out (init_turn I r) = ru_out r @ [OutBackoff (fst (strategy_next_backoff s)), OutPreRestart]"
    unfolding t by (simp add: emit_def)
  ultimately show ?case by (simp add: funpow_swap1)
qed

lemma funpow_split5: "(f ^^ (n + 5)) x = f (f ((f ^^ Suc n) (f (f x))))"
proof -
  have "(f ^^ (n + 5)) x = (f ^^ (Suc (Suc (Suc n + Suc (Suc 0))))) x" by (simp add: eval_nat_numeral)
  also have "\<dots> = f (f ((f ^^ Suc n) ((f ^^ Suc (Suc 0)) x)))" by (simp only: funpow.simps funpow_add comp_apply)
  finally show ?thesis by simp
qed

lemma init_turn_failed:
  "ru_lifecycle r = Failed \<Longrightarrow> \<not> ru_parent r \<Longrightarrow> init_turn I r = set_lifecycle Restarted r"
  by (simp add: init_turn_def)

lemma init_turn_terminated:
  "ru_lifecycle r = Terminated \<Longrightarrow>
   init_turn I r = (report_init False (r\<lparr>ru_ctx := ctx_remove_actor (ru_ctx r)\<rparr>))
     \<lparr>ru_end := Some Finished, ru_closed := True, ru_receiver := []\<rparr>"
  by (simp add: init_turn_def)

lemma failing_start_turns:
  fixes I :: "('a, 'm, 'h, 'e) actor_impl"
  assumes strat: "supervision_strategy I = SupRetry s"
    and start: "\<And>x. \<exists>e a c. pre_start I x = (Err e, a, c)"
    and fail: "\<And>e x. \<exists>e' a c. pre_restart I e x = (Err e', a, c)"
    and post: "\<And>x. \<not> panics (fst (post_stop I x))"
  shows "\<exists>r. (init_turn I ^^ (strategy_max_retries s + 5)) (runner_create path actor False True system) = r \<and>
    ru_end r = Some Finished \<and>
    ru_out r = concat (replicate (strategy_max_retries s)
        [OutBackoff (fst (strategy_next_backoff s)), OutPreRestart]) @ [OutPostStop, OutInit False]"
proof -
  let ?max = "strategy_max_retries s" and ?r0 = "runner_create path actor False True system :: ('a, 'm, 'h, 'e) runner"
  obtain e a c where h: "pre_start I (ru_actor ?r0, ru_ctx ?r0) = (Err e, a, c)" using start by blast
  define r2 where "r2 = init_turn I (init_turn I ?r0)"
  have t1: "init_turn I ?r0 = set_lifecycle Failed (?r0\<lparr>ru_actor := a, ru_ctx := ctx_set_error e c\<rparr>)"
    using with_hook_eq [where hook = "pre_start I" and r = ?r0, OF h]
    by (simp add: init_turn_def runner_create_def)
  have "r2 = set_lifecycle Restarted (init_turn I ?r0)"
    unfolding r2_def by (rule init_turn_failed) (unfold t1, simp_all add: set_lifecycle_def runner_create_def)
  then have r2: "ru_lifecycle r2 = Restarted" "ru_retries r2 = 0" "ru_end r2 = None" "ru_init_sender r2"
      "ru_out r2 = []"
    unfolding t1 by (simp_all add: set_lifecycle_def runner_create_def)
  obtain r3 where r3: "(init_turn I ^^ Suc ?max) r2 = r3" "ru_lifecycle r3 = Stopped" "ru_end r3 = None"
      "ru_init_sender r3"
      "ru_out r3 = concat (replicate ?max [OutBackoff (fst (strategy_next_backoff s)), OutPreRestart])"
    using retries_exhausted [OF strat fail r2(1) _ r2(3,4), of ?max] r2(2,5) by auto
  let ?r3 = "emit [OutPostStop] r3"
  obtain res b d where p: "post_stop I (ru_actor ?r3, ru_ctx ?r3) = (res, b, d)" by (metis prod_cases3)
  have np: "\<not> panics res" using post [of "(ru_actor ?r3, ru_ctx ?r3)"] p by simp
  have t4: "init_turn I r3 = set_lifecycle Terminated (?r3\<lparr>ru_actor := b, ru_ctx := d\<rparr>)"
    using with_hook_eq [where hook = "post_stop I" and r = ?r3, OF p np] r3(2) by (simp add: init_turn_def)
  have "(init_turn I ^^ (?max + 5)) ?r0 = init_turn I (init_turn I r3)"
    using funpow_split5 [of ?max "init_turn I" ?r0] r3(1) unfolding r2_def by simp
  moreover have "ru_end (init_turn I (init_turn I r3)) = Some Finished"
    "ru_out (init_turn I (init_turn I r3)) = ru_out r3 @ [OutPostStop, OutInit False]"
    using r3(4) unfolding t4
    by (simp_all add: init_turn_terminated set_lifecycle_def emit_def report_init_def)
  ultimately show ?thesis using r3(5) by simp
qed

section \<open>An error that is never cleared\<close>

text \<open>A hook that does not panic and leaves a set error set: \<open>clean_error\<close> is private to the crate, so
  no hook of an actor can reset it.\<close>

definition keeps_error :: "('a, 'h, 'e) hook \<Rightarrow> bool" where
  "keeps_error hook \<longleftrightarrow>
     (\<forall>a c. cx_error c \<noteq> None \<longrightarrow>
        \<not> panics (fst (hook (a, c))) \<and> cx_error (snd (snd (hook (a, c)))) \<noteq> None)"

definition restart_succeeds :: "('a, 'm, 'h, 'e) actor_impl \<Rightarrow> bool" where
  "restart_succeeds I \<longleftrightarrow>
     (\<exists>s. supervision_strategy I = SupRetry s \<and> 0 < strategy_max_retries s) \<and>
     (\<forall>e. keeps_error (pre_restart I e) \<and> (\<forall>x. fst (pre_restart I e x) = Ok ())) \<and>
     keeps_error (pre_stop I) \<and> (\<forall>m. keeps_error (handle_msg I m)) \<and>
     (\<forall>e a c. cx_error c \<noteq> None \<longrightarrow> cx_error (snd (on_child_error I e (a, c))) \<noteq> None) \<and>
     (\<forall>e a c. cx_error c \<noteq> None \<longrightarrow> cx_error (snd (snd (on_child_fault I e (a, c)))) \<noteq> None)"

definition unstoppable :: "('a, 'm, 'h, 'e) runner \<Rightarrow> bool" where
  "unstoppable r \<longleftrightarrow>
     ru_end r = None \<and> \<not> ru_parent r \<and> cx_error (ru_ctx r) \<noteq> None \<and>
     ru_lifecycle r \<in> {Started, Failed, Restarted} \<and> ru_retries r = 0 \<and>
     (ru_running r \<longrightarrow> ru_lifecycle r = Started)"

lemma with_hook_keeps_error:
  assumes "keeps_error hook" "cx_error (ru_ctx r) \<noteq> None"
    and "\<And>res a c. fst (hook (ru_actor r, ru_ctx r)) = res \<Longrightarrow> \<not> panics res \<Longrightarrow> cx_error c \<noteq> None \<Longrightarrow>
      P (k res (r\<lparr>ru_actor := a, ru_ctx := c\<rparr>))"
  shows "P (with_hook hook r k)"
  using assms(1,2) assms(3) unfolding with_hook_def Let_def split_beta keeps_error_def by simp

lemma unstoppable_turn:
  assumes ok: "restart_succeeds I" and u: "unstoppable r" "\<not> ru_running r"
  shows "unstoppable (init_turn I r)"
proof (cases "ru_lifecycle r")
  case Restarted
  obtain s where s: "supervision_strategy I = SupRetry s" "0 < strategy_max_retries s"
    using ok by (auto simp: restart_succeeds_def)
  let ?r1 = "emit [OutBackoff (fst (strategy_next_backoff s)), OutPreRestart] (r\<lparr>ru_retries := Suc (ru_retries r)\<rparr>)"
  let ?hook = "pre_restart I (cx_error (ru_ctx ?r1))"
  have k: "keeps_error ?hook" "\<And>x. fst (?hook x) = Ok ()" using ok by (auto simp: restart_succeeds_def)
  have "unstoppable (with_hook ?hook ?r1 (\<lambda>res r2. case res of
      Err e \<Rightarrow> r2\<lparr>ru_ctx := ctx_set_error e (ru_ctx r2)\<rparr>
    | _ \<Rightarrow> set_lifecycle Started (r2\<lparr>ru_retries := 0\<rparr>)))"
    by (rule with_hook_keeps_error [OF k(1)])
      (use u k(2) in \<open>auto simp: unstoppable_def emit_def set_lifecycle_def\<close>)
  moreover have "ru_retries r < strategy_max_retries s" using u s by (simp add: unstoppable_def)
  ultimately show ?thesis
    by (simp add: init_turn_def Restarted apply_supervision_strategy_def s(1) Let_def split_beta)
qed (use u in \<open>auto simp: unstoppable_def init_turn_def report_init_def emit_def set_lifecycle_def\<close>)

lemma unstoppable_stop:
  assumes ok: "restart_succeeds I" and u: "unstoppable r" "ru_running r"
  shows "unstoppable (run_stop I stop r)"
  unfolding run_stop_def
proof (rule with_hook_keeps_error)
  show "keeps_error (pre_stop I)" using ok by (simp add: restart_succeeds_def)
qed (use u in \<open>auto simp: unstoppable_def runner_helpers ctx_stop_childs_def ctx_remove_actor_def
      ctx_emit_fail_def ctx_set_error_def split: outcome.split\<close>)

lemma unstoppable_step:
  assumes ok: "restart_succeeds I"
  shows "runner_step I r r' \<Longrightarrow> unstoppable r \<Longrightarrow> unstoppable r'"
proof (induction rule: runner_step.induct)
  case (Turn r)
  then show ?case by (simp add: unstoppable_turn [OF ok])
next
  case (StopBranch r stop rest)
  then show ?case by (intro unstoppable_stop [OF ok]) (auto simp: unstoppable_def)
next
  case (ErrorBranch r err rest)
  have "cx_error (snd (on_child_error I e (ru_actor r, ru_ctx r))) \<noteq> None"
    "cx_error (snd (snd (on_child_fault I e (ru_actor r, ru_ctx r)))) \<noteq> None" for e
    using ok ErrorBranch by (simp_all add: restart_succeeds_def unstoppable_def)
  with ErrorBranch show ?case
    by (simp add: unstoppable_def run_child_error_def emit_def Let_def split_beta split: ChildError.split)
next
  case (InnerBranch r action rest answer)
  then show ?case
    by (simp add: unstoppable_def inner_handle_def request_stop_def ctx_stop_def emit_def split: InnerAction.split)
next
  case (MsgBranch r msg rest)
  have k: "keeps_error (handle_msg I msg)" using ok by (simp add: restart_succeeds_def)
  show ?case unfolding run_msg_def
    by (rule with_hook_keeps_error [OF k]) (use MsgBranch in \<open>auto simp: unstoppable_def emit_def\<close>)
qed (auto simp: unstoppable_def request_stop_def ctx_stop_def)

lemma unstoppable_run:
  assumes "restart_succeeds I" "(runner_step I)\<^sup>*\<^sup>* r r'" "unstoppable r"
  shows "unstoppable r'"
  using assms(2,3) by (induction rule: rtranclp_induct) (auto intro: unstoppable_step [OF assms(1)])

lemma failed_start_inv:
  assumes ok: "restart_succeeds I" and fail: "\<And>c. \<exists>e a c'. pre_start I (actor, c) = (Err e, a, c')"
    and step: "runner_step I r r'"
    and r: "ru_lifecycle r = Created" "ru_end r = None" "\<not> ru_parent r" "ru_retries r = 0" "\<not> ru_running r"
      "ru_actor r = actor"
  shows "unstoppable r' \<or> ru_lifecycle r' = Created \<and> ru_end r' = None \<and> \<not> ru_parent r' \<and>
    ru_retries r' = 0 \<and> \<not> ru_running r' \<and> ru_actor r' = actor"
  using step r
proof (induction rule: runner_step.induct)
  case (Turn r)
  obtain e a c where h: "pre_start I (ru_actor r, ru_ctx r) = (Err e, a, c)" using fail [of "ru_ctx r"] Turn by auto
  have "init_turn I r = set_lifecycle Failed (r\<lparr>ru_actor := a, ru_ctx := ctx_set_error e c\<rparr>)"
    using with_hook_eq [where hook = "pre_start I" and r = r, OF h] Turn by (simp add: init_turn_def)
  with Turn show ?case by (simp add: unstoppable_def set_lifecycle_def ctx_set_error_def)
qed simp_all

lemma failed_start_run:
  assumes ok: "restart_succeeds I" and fail: "\<And>c. \<exists>e a c'. pre_start I (actor, c) = (Err e, a, c')"
    and run: "(runner_step I)\<^sup>*\<^sup>* (runner_create path actor False sender system) r"
  shows "unstoppable r \<or> ru_lifecycle r = Created \<and> ru_end r = None \<and> \<not> ru_parent r \<and>
    ru_retries r = 0 \<and> \<not> ru_running r \<and> ru_actor r = actor"
  using run
proof (induction rule: rtranclp_induct)
  case base
  show ?case by (simp add: runner_create_def)
next
  case (step r r')
  then show ?case using unstoppable_step [OF ok step(2)] failed_start_inv [OF ok fail step(2)] by blast
qed

text \<open>A stop request without children in the way: \<open>run\<close> ends, \<open>post_stop\<close> runs, the task finishes.\<close>

lemma orderly_stop_turns:
  assumes r: "ru_lifecycle r = Started" "ru_end r = None" "\<not> ru_init_sender r"
    and pre: "pre_stop I (ru_actor r, ru_ctx r) = (Ok (), a, c)" "cx_error c = None"
    and post: "\<And>x. \<not> panics (fst (post_stop I x))"
  shows "\<exists>r'. init_turn I (init_turn I (run_stop I (Some i) r)) = r' \<and> ru_end r' = Some Finished \<and>
    ru_out r' = ru_out r @ map OutStopChild (rev (cx_child_senders c)) @ [OutStopReply i, OutPostStop]"
proof -
  define r1 where "r1 = run_stop I (Some i) r"
  have r1: "ru_lifecycle r1 = Stopped" "\<not> ru_init_sender r1"
      "ru_out r1 = ru_out r @ map OutStopChild (rev (cx_child_senders c)) @ [OutStopReply i]"
    using with_hook_eq [where hook = "pre_stop I" and r = r, OF pre(1)] r pre(2)
    by (simp_all add: r1_def run_stop_def runner_helpers ctx_stop_childs_def ctx_remove_actor_def)
  let ?r1 = "emit [OutPostStop] r1"
  obtain res b d where p: "post_stop I (ru_actor ?r1, ru_ctx ?r1) = (res, b, d)" by (metis prod_cases3)
  have np: "\<not> panics res" using post [of "(ru_actor ?r1, ru_ctx ?r1)"] p by simp
  have t: "init_turn I r1 = set_lifecycle Terminated (?r1\<lparr>ru_actor := b, ru_ctx := d\<rparr>)"
    using with_hook_eq [where hook = "post_stop I" and r = ?r1, OF p np] r1(1) by (simp add: init_turn_def)
  have "ru_end (init_turn I (init_turn I r1)) = Some Finished"
    "ru_out (init_turn I (init_turn I r1)) = ru_out r1 @ [OutPostStop]"
    using r1(2) unfolding t by (simp_all add: init_turn_terminated set_lifecycle_def emit_def report_init_def)
  then show ?thesis using r1(3) by (simp add: r1_def)
qed

section \<open>The actor of the runner's tests\<close>

text \<open>Its state is whether its next start fails; a restart repairs it.\<close>

definition test_impl :: "bool \<Rightarrow> (bool, unit, unit, unit) actor_impl" where
  "test_impl repair =
     \<lparr>supervision_strategy = SupRetry (FixedInterval (fixed_interval_new 3 1)),
      pre_start = (\<lambda>(failed, c). (if failed then Err (ActorErr_Start ''PreStart failed'') else Ok (), failed, c)),
      pre_restart = (\<lambda>_ (failed, c).
        if repair then (Ok (), False, c) else (Err (ActorErr_Start ''PreRestart failed''), failed, c)),
      pre_stop = (\<lambda>x. (Ok (), x)), post_stop = (\<lambda>x. (Ok (), x)),
      handle_msg = (\<lambda>_ (failed, c). (Ok (), failed, ctx_stop None c)),
      on_child_error = (\<lambda>_ x. x), on_child_fault = (\<lambda>_ x. (ChildStop, x))\<rparr>"

lemma test_impl_restart: "restart_succeeds (test_impl True)"
  by (simp add: restart_succeeds_def keeps_error_def test_impl_def fixed_interval_new_def ctx_stop_def)

definition test_runner :: "bool \<Rightarrow> (bool, unit, unit, unit) runner" where
  "test_runner failed = runner_create [''user'', ''test''] failed False True system_new"

section \<open>Properties\<close>

text \<open>C22. Every step of a reachable runner makes a legal transition of the lifecycle; \<open>Terminated\<close> is
  final and is reached only from \<open>Stopped\<close> or \<open>Failed\<close>.\<close>

theorem lifecycle_transitions_legal:
  assumes "(runner_step I)\<^sup>*\<^sup>* (runner_create path actor parent sender system) r" "runner_step I r r'"
  shows "lifecycle_next (ru_lifecycle r) (ru_lifecycle r')"
  using lifecycle_step [OF assms(2) runner_inv_reachable [OF assms(1)]] .

theorem lifecycle_transitions_legal_witness:
  "lifecycle_next (ru_lifecycle (test_runner False)) (ru_lifecycle (init_turn (test_impl True) (test_runner False)))"
proof -
  have "runner_step (test_impl True) (test_runner False) (init_turn (test_impl True) (test_runner False))"
    by (rule Turn) (simp_all add: test_runner_def runner_create_def)
  then show ?thesis
    using lifecycle_transitions_legal [of "test_impl True" "[''user'', ''test'']" False False True system_new]
    unfolding test_runner_def by blast
qed

text \<open>C23. A runner that has finished is \<open>Terminated\<close>, its path is free in the registry, its creator has
  been told the outcome of the start, and its mailbox is closed and empty.\<close>

theorem finished_runner_is_gone:
  assumes "(runner_step I)\<^sup>*\<^sup>* (runner_create path actor parent sender system) r" "ru_end r = Some Finished"
  shows "ru_lifecycle r = Terminated \<and> \<not> ru_init_sender r \<and> ru_closed r \<and> ru_receiver r = [] \<and>
    map_of (sy_actors (cx_system (ru_ctx r))) (cx_path (ru_ctx r)) = None"
  using runner_inv_reachable [OF assms(1)] assms(2) by (simp add: runner_inv_def)

text \<open>A run of the test actor: it starts, is asked to stop, and ends.\<close>

definition test_state ::
  "ActorLifecycle \<Rightarrow> nat option list \<Rightarrow> bool \<Rightarrow> bool \<Rightarrow> run_end option \<Rightarrow> (unit, unit) runner_output list \<Rightarrow>
   (bool, unit, unit, unit) runner" where
  "test_state l stops running sender ended out =
     \<lparr>ru_actor = False, ru_lifecycle = l,
      ru_ctx = \<lparr>cx_stop = stops, cx_path = [''user'', ''test''],
        cx_system = \<lparr>sy_actors = [], sy_helpers = [], sy_root_senders = [], sy_cancelled = False\<rparr>,
        cx_error = None, cx_inner = [], cx_child_senders = []\<rparr>,
      ru_receiver = [], ru_closed = (ended \<noteq> None), ru_handles = True, ru_errors = [], ru_parent = False,
      ru_stop_signal = False, ru_retries = 0, ru_running = running, ru_init_sender = sender,
      ru_end = ended, ru_out = out\<rparr>"

definition test_run :: "(bool, unit, unit, unit) runner list" where
  "test_run =
     [test_state Created [] False True None [],
      test_state Started [] False True None [],
      test_state Started [] True False None [OutInit True],
      test_state Started [Some 4] True False None [OutInit True],
      test_state Stopped [] False False None [OutInit True, OutStopReply 4],
      test_state Terminated [] False False None [OutInit True, OutStopReply 4, OutPostStop],
      test_state Terminated [] False False (Some Finished) [OutInit True, OutStopReply 4, OutPostStop]]"

lemma test_runner_state: "test_runner False = test_run ! 0"
  by (simp add: test_run_def test_state_def test_runner_def runner_create_def ctx_new_def system_new_def)

lemma test_turn:
  assumes "init_turn (test_impl True) r = r'" "ru_end r = None" "\<not> ru_running r"
  shows "runner_step (test_impl True) r r'"
  using Turn [of r "test_impl True"] assms by simp

lemma test_run_turns:
  "runner_step (test_impl True) (test_run ! 0) (test_run ! 1)"
  "runner_step (test_impl True) (test_run ! 1) (test_run ! 2)"
  "runner_step (test_impl True) (test_run ! 4) (test_run ! 5)"
  "runner_step (test_impl True) (test_run ! 5) (test_run ! 6)"
  by (rule test_turn; simp add: test_run_def test_state_def test_impl_def init_turn_def with_hook_def
      runner_helpers ctx_remove_actor_def remove_actor_def; fail)+

lemma test_run_stop:
  "runner_step (test_impl True) (test_run ! 2) (test_run ! 3)"
  "runner_step (test_impl True) (test_run ! 3) (test_run ! 4)"
  using StopArrives [of "test_run ! 2" "test_impl True" "Some 4"]
    StopBranch [of "test_run ! 3" "Some 4" "[]" "test_impl True"]
  by (simp_all add: test_run_def test_state_def test_impl_def run_stop_def with_hook_def ctx_stop_def
      ctx_stop_childs_def ctx_remove_actor_def remove_actor_def runner_helpers)

lemma test_run_reachable: "(runner_step (test_impl True))\<^sup>*\<^sup>* (test_runner False) (test_run ! 6)"
  unfolding test_runner_state
  by (rule rtranclp_trans [of "runner_step (test_impl True)",
        OF steps4 [of "runner_step (test_impl True)", OF test_run_turns(1,2) test_run_stop]
          steps2 [of "runner_step (test_impl True)", OF test_run_turns(3,4)]])

theorem finished_runner_is_gone_witness:
  "ru_lifecycle (test_run ! 6) = Terminated \<and> ru_closed (test_run ! 6)"
proof -
  have "ru_end (test_run ! 6) = Some Finished" by (simp add: test_run_def test_state_def)
  then show ?thesis
    using finished_runner_is_gone [of "test_impl True" "[''user'', ''test'']" False False True system_new "test_run ! 6"]
      test_run_reachable unfolding test_runner_def by simp
qed

text \<open>C25. A root actor whose start and restarts all fail is restarted exactly as often as its strategy
  allows, then its \<open>post_stop\<close> runs, the creator is told that the start failed and the task
  finishes. The strategy is taken anew for every attempt, so each attempt waits for the first
  delay of the strategy.\<close>

theorem failing_start_uses_all_retries:
  assumes "supervision_strategy I = SupRetry s"
    and "\<And>x. \<exists>e a c. pre_start I x = (Err e, a, c)"
    and "\<And>e x. \<exists>e' a c. pre_restart I e x = (Err e', a, c)"
    and "\<And>x. \<not> panics (fst (post_stop I x))"
  shows "\<exists>r. (init_turn I ^^ (strategy_max_retries s + 5)) (runner_create path actor False True system) = r \<and>
    ru_end r = Some Finished \<and>
    ru_out r = concat (replicate (strategy_max_retries s)
        [OutBackoff (fst (strategy_next_backoff s)), OutPreRestart]) @ [OutPostStop, OutInit False]"
  using assms by (rule failing_start_turns)

theorem failing_start_uses_all_retries_witness:
  "\<exists>r. (init_turn ((test_impl False)\<lparr>pre_start := \<lambda>(a, c). (Err ActorErr_Stop, a, c),
        supervision_strategy := SupRetry (CustomInterval (custom_interval_new [1, 2]))\<rparr>) ^^ 7)
      (test_runner True) = r \<and> ru_end r = Some Finished \<and>
    ru_out r = [OutBackoff (Some 1), OutPreRestart, OutBackoff (Some 1), OutPreRestart, OutPostStop, OutInit False]"
proof -
  let ?I = "(test_impl False)\<lparr>pre_start := \<lambda>(a, c). (Err ActorErr_Stop, a, c),
    supervision_strategy := SupRetry (CustomInterval (custom_interval_new [1, 2]))\<rparr>"
  let ?s = "CustomInterval (custom_interval_new [1, 2])"
  have m: "strategy_max_retries ?s = 2" "fst (strategy_next_backoff ?s) = Some 1"
    by (simp_all add: custom_interval_new_def custom_interval_next_backoff_def)
  have "\<exists>r. (init_turn ?I ^^ (strategy_max_retries ?s + 5)) (runner_create [''user'', ''test''] True False True system_new) = r \<and>
    ru_end r = Some Finished \<and>
    ru_out r = concat (replicate (strategy_max_retries ?s)
        [OutBackoff (fst (strategy_next_backoff ?s)), OutPreRestart]) @ [OutPostStop, OutInit False]"
    by (rule failing_start_uses_all_retries) (simp_all add: test_impl_def split_beta)
  moreover have "concat (replicate 2 xs) = xs @ xs" for xs :: "(unit, unit) runner_output list"
    by (simp add: numeral_2_eq_2)
  moreover have "(2 :: nat) + 5 = 7" by simp
  ultimately show ?thesis unfolding m test_runner_def by simp
qed

text \<open>C26. A root actor whose first start fails and whose restart succeeds can never be stopped: the
  error of the first start is not cleared, so every stop request leads back to a restart, and in
  no interleaving does the task end.\<close>

theorem restarted_root_never_ends:
  assumes "restart_succeeds I" and "\<And>c. \<exists>e a c'. pre_start I (actor, c) = (Err e, a, c')"
    and "(runner_step I)\<^sup>*\<^sup>* (runner_create path actor False sender system) r"
  shows "ru_end r = None \<and> ru_lifecycle r \<noteq> Terminated"
  using failed_start_run [OF assms] by (auto simp: unstoppable_def)

theorem restarted_root_never_ends_witness:
  "ru_end (init_turn (test_impl True) (test_runner True)) = None"
proof -
  have run: "(runner_step (test_impl True))\<^sup>*\<^sup>* (test_runner True) (init_turn (test_impl True) (test_runner True))"
    by (rule r_into_rtranclp, rule Turn) (simp_all add: test_runner_def runner_create_def)
  have fail: "\<exists>e a c'. pre_start (test_impl True) (True, c) = (Err e, a, c')" for c
    by (auto simp: test_impl_def)
  show ?thesis
    using restarted_root_never_ends [OF test_impl_restart fail run [unfolded test_runner_def]]
    unfolding test_runner_def by simp
qed

text \<open>C24. A running actor without an error that takes a stop request stops its children in the reverse
  of their creation order, answers the request, runs \<open>post_stop\<close> and finishes.\<close>

theorem orderly_stop:
  assumes "ru_lifecycle r = Started" "ru_end r = None" "\<not> ru_init_sender r"
    and "pre_stop I (ru_actor r, ru_ctx r) = (Ok (), a, c)" "cx_error c = None"
    and "\<And>x. \<not> panics (fst (post_stop I x))"
  shows "\<exists>r'. init_turn I (init_turn I (run_stop I (Some i) r)) = r' \<and> ru_end r' = Some Finished \<and>
    ru_out r' = ru_out r @ map OutStopChild (rev (cx_child_senders c)) @ [OutStopReply i, OutPostStop]"
  using assms by (rule orderly_stop_turns)

theorem orderly_stop_witness:
  "\<exists>r'. init_turn (test_impl True) (init_turn (test_impl True) (run_stop (test_impl True) (Some 4)
      (test_state Started [] True False None [OutInit True]))) = r' \<and> ru_end r' = Some Finished \<and>
    ru_out r' = [OutInit True, OutStopReply 4, OutPostStop]"
proof -
  let ?r = "test_state Started [] True False None [OutInit True]"
  have "pre_stop (test_impl True) (ru_actor ?r, ru_ctx ?r) = (Ok (), ru_actor ?r, ru_ctx ?r)"
    by (simp add: test_impl_def)
  from orderly_stop [OF _ _ _ this, of 4] show ?thesis by (simp add: test_state_def test_impl_def)
qed

text \<open>C27. A running child that has used no retry yet, whose error is next in its queue and whose
  parent answers its report with a restart (or delegates, which is the same), with no other stop request
  waiting, a strategy that allows a retry, and \<open>pre_stop\<close> and \<open>pre_restart\<close> that succeed and change nothing. Three steps lead through
  the restart: it handles the failure, takes the stop request that it sent to itself, and applies the
  strategy. It has then stopped its children, waited and run \<open>pre_restart\<close>, and is \<open>Started\<close>. The
  restart itself has removed the child from the registry and changed nothing else there, and has left
  its stop signal set, so that in no later state has it handled another message.\<close>

theorem restarted_child_is_unreachable:
  assumes "ru_end r = None" "ru_running r" "ru_lifecycle r = Started" "ru_parent r" "\<not> ru_stop_signal r"
    and "ru_retries r = 0" "cx_inner (ru_ctx r) = InnerFail e # inner" "cx_stop (ru_ctx r) = []"
    and answer: "act = ChildRestart \<or> act = ChildDelegate"
    and sup: "supervision_strategy I = SupRetry s" "0 < strategy_max_retries s"
    and hooks: "\<And>x. pre_stop I x = (Ok (), x)" "\<And>err x. pre_restart I err x = (Ok (), x)"
    and r1: "r1 = inner_handle (Some act) (InnerFail e) (r\<lparr>ru_ctx := (ru_ctx r)\<lparr>cx_inner := inner\<rparr>\<rparr>)"
    and r2: "r2 = run_stop I None (r1\<lparr>ru_ctx := (ru_ctx r1)\<lparr>cx_stop := []\<rparr>\<rparr>)"
    and r3: "r3 = init_turn I r2"
  shows "runner_step I r r1 \<and> runner_step I r1 r2 \<and> runner_step I r2 r3 \<and>
    ru_lifecycle r3 = Started \<and> ru_end r3 = None \<and>
    ru_out r3 = ru_out r @ [OutParentFault e] @ map OutStopChild (rev (cx_child_senders (ru_ctx r))) @
      [OutBackoff (fst (strategy_next_backoff s)), OutPreRestart] \<and>
    cx_system (ru_ctx r3) = remove_actor (cx_path (ru_ctx r)) (cx_system (ru_ctx r)) \<and>
    map_of (sy_actors (cx_system (ru_ctx r3))) (cx_path (ru_ctx r3)) = None \<and> ru_stop_signal r3 \<and>
    (\<forall>r'. (runner_step I)\<^sup>*\<^sup>* r3 r' \<longrightarrow> handled (ru_out r') = handled (ru_out r))"
proof -
  have s1: "runner_step I r r1"
    unfolding r1 by (rule InnerBranch) (use assms in simp_all)
  have f1: "ru_end r1 = None" "ru_running r1" "ru_lifecycle r1 = Restarted" "ru_stop_signal r1"
      "cx_stop (ru_ctx r1) = [None]" "cx_error (ru_ctx r1) = None" "ru_retries r1 = 0"
      "ru_out r1 = ru_out r @ [OutParentFault e]" "cx_system (ru_ctx r1) = cx_system (ru_ctx r)"
      "cx_path (ru_ctx r1) = cx_path (ru_ctx r)" "cx_child_senders (ru_ctx r1) = cx_child_senders (ru_ctx r)"
    using assms(1-8) answer
    by (auto simp: r1 inner_handle_def request_stop_def emit_def set_lifecycle_def ctx_clean_error_def ctx_stop_def)
  have s2: "runner_step I r1 r2"
    unfolding r2 by (rule StopBranch) (use f1 in simp_all)
  have f2: "ru_end r2 = None" "\<not> ru_running r2" "ru_lifecycle r2 = Restarted" "ru_stop_signal r2"
      "ru_retries r2 = 0" "cx_path (ru_ctx r2) = cx_path (ru_ctx r)"
      "cx_system (ru_ctx r2) = remove_actor (cx_path (ru_ctx r)) (cx_system (ru_ctx r))"
      "ru_out r2 = ru_out r @ [OutParentFault e] @ map OutStopChild (rev (cx_child_senders (ru_ctx r)))"
    using f1
    by (simp_all add: r2 run_stop_def with_hook_def hooks runner_helpers ctx_stop_childs_def
        ctx_remove_actor_def remove_actor_def)
  have s3: "runner_step I r2 r3"
    unfolding r3 by (rule Turn) (use f2 in simp_all)
  have f3: "ru_lifecycle r3 = Started" "ru_end r3 = None" "ru_stop_signal r3"
      "cx_path (ru_ctx r3) = cx_path (ru_ctx r)"
      "cx_system (ru_ctx r3) = remove_actor (cx_path (ru_ctx r)) (cx_system (ru_ctx r))"
      "ru_out r3 = ru_out r @ [OutParentFault e] @ map OutStopChild (rev (cx_child_senders (ru_ctx r))) @
        [OutBackoff (fst (strategy_next_backoff s)), OutPreRestart]"
    using f2 sup
    by (simp_all add: r3 init_turn_def apply_supervision_strategy_def with_hook_def hooks emit_def
        set_lifecycle_def Let_def split_beta)
  have "handled (ru_out r') = handled (ru_out r)" if "(runner_step I)\<^sup>*\<^sup>* r3 r'" for r'
    using stop_signal_run [OF that f3(3)] by (simp add: f3(6))
  with s1 s2 s3 f3 show ?thesis by (simp add: remove_actor_def)
qed

definition test_child :: "(bool, unit, unit, unit) runner" where
  "test_child = (test_state Started [] True False None [])\<lparr>ru_parent := True,
     ru_ctx := (ctx_new [''user'', ''test''] (system_new\<lparr>sy_actors := [([''user'', ''test''], ''Test'', 0)]\<rparr>))
       \<lparr>cx_inner := [InnerFail ActorErr_Stop], cx_error := Some ActorErr_Stop\<rparr>\<rparr>"

definition child_impl :: "(bool, unit, unit, unit) actor_impl" where
  "child_impl = (test_impl True)\<lparr>pre_restart := \<lambda>_ x. (Ok (), x)\<rparr>"

theorem restarted_child_is_unreachable_witness:
  "\<exists>r1 r2 r3. runner_step child_impl test_child r1 \<and> runner_step child_impl r1 r2 \<and> runner_step child_impl r2 r3 \<and>
    ru_lifecycle r3 = Started \<and> sy_actors (cx_system (ru_ctx r3)) = [] \<and> ru_stop_signal r3 \<and>
    ru_out r3 = [OutParentFault ActorErr_Stop, OutBackoff (Some 1), OutPreRestart]"
proof -
  let ?s = "FixedInterval (fixed_interval_new 3 1)"
  have r: "ru_end test_child = None" "ru_running test_child" "ru_lifecycle test_child = Started"
    "ru_parent test_child" "\<not> ru_stop_signal test_child" "ru_retries test_child = 0"
    "cx_inner (ru_ctx test_child) = InnerFail ActorErr_Stop # []" "cx_stop (ru_ctx test_child) = []"
    by (simp_all add: test_child_def test_state_def ctx_new_def)
  have sup: "supervision_strategy child_impl = SupRetry ?s" "0 < strategy_max_retries ?s"
    and pre: "\<And>x. pre_stop child_impl x = (Ok (), x)" "\<And>err x. pre_restart child_impl err x = (Ok (), x)"
    by (simp_all add: child_impl_def test_impl_def fixed_interval_new_def)
  note c = restarted_child_is_unreachable [OF r disjI1 [OF refl] sup pre refl refl refl]
  have "sy_actors (remove_actor (cx_path (ru_ctx test_child)) (cx_system (ru_ctx test_child))) = []"
    "ru_out test_child = []" "cx_child_senders (ru_ctx test_child) = []" "fst (strategy_next_backoff ?s) = Some 1"
    by (simp_all add: test_child_def test_state_def ctx_new_def remove_actor_def fixed_interval_new_def
        fixed_interval_next_backoff_def)
  with c show ?thesis by (intro exI conjI) auto
qed

text \<open>C21. A running actor without an error, whose \<open>pre_stop\<close> succeeds and, like its \<open>post_stop\<close>, leaves the
  context alone, takes a stop request whose sender waits for the answer. As soon as it is answered the
  sender creates an actor at the same path, which starts and is registered. Then the first actor, whose
  \<open>post_stop\<close> runs only now, comes to its end, where it removes its path from the registry a second
  time: the new actor, which runs, is no longer registered.\<close>

theorem recreated_actor_is_unregistered:
  assumes "ru_end r = None" "ru_running r" "ru_lifecycle r = Started" "cx_stop (ru_ctx r) = Some i # stops"
    and pre: "\<And>c. \<exists>a. pre_stop I (ru_actor r, c) = (Ok (), a, c)" and err: "cx_error (ru_ctx r) = None"
    and post: "\<And>a c. \<exists>res a'. post_stop I (a, c) = (res, a', c) \<and> \<not> panics res"
    and r1: "r1 = run_stop I (Some i) (r\<lparr>ru_ctx := (ru_ctx r)\<lparr>cx_stop := stops\<rparr>\<rparr>)"
    and start: "\<And>s. fst (init s) = InitStarted \<and> map_of (sy_actors (snd (init s))) (cx_path (ru_ctx r)) =
      map_of (sy_actors s) (cx_path (ru_ctx r))"
    and new: "create_actor_path (cx_path (ru_ctx r)) tag aid init (cx_system (ru_ctx r1)) = (res, sys)"
    and r2: "r2 = init_turn I (init_turn I (r1\<lparr>ru_ctx := (ru_ctx r1)\<lparr>cx_system := sys\<rparr>\<rparr>))"
  shows "runner_step I r r1 \<and> OutStopReply i \<in> set (ru_out r1) \<and>
    res = Ok (aid, aid) \<and> get_actor tag (cx_path (ru_ctx r)) sys = Some aid \<and>
    ru_end r2 = Some Finished \<and> cx_system (ru_ctx r2) = remove_actor (cx_path (ru_ctx r)) sys \<and>
    get_actor tag (cx_path (ru_ctx r)) (cx_system (ru_ctx r2)) = None"
proof -
  have s1: "runner_step I r r1" unfolding r1 by (rule StopBranch) (use assms in simp_all)
  obtain a where "pre_stop I (ru_actor r, (ru_ctx r)\<lparr>cx_stop := stops\<rparr>) = (Ok (), a, (ru_ctx r)\<lparr>cx_stop := stops\<rparr>)"
    using pre by blast
  then have f1: "ru_lifecycle r1 = Stopped" "ru_end r1 = None" "OutStopReply i \<in> set (ru_out r1)"
      "cx_path (ru_ctx r1) = cx_path (ru_ctx r)"
      "map_of (sy_actors (cx_system (ru_ctx r1))) (cx_path (ru_ctx r)) = None"
    using assms(1-4) err
    by (simp_all add: r1 run_stop_def with_hook_def runner_helpers ctx_stop_childs_def ctx_remove_actor_def
        remove_actor_def)
  let ?s = "(cx_system (ru_ctx r1))\<lparr>sy_actors :=
    AList.update (cx_path (ru_ctx r)) (tag, aid) (sy_actors (cx_system (ru_ctx r1)))\<rparr>"
  have i: "init ?s = (InitStarted, snd (init ?s))" using start [of ?s] by (simp add: prod_eq_iff)
  have "(res, sys) = (Ok (aid, aid), snd (init ?s))"
    unfolding new [symmetric] create_actor_path_def by (subst i) (simp add: f1(5))
  then have f2: "res = Ok (aid, aid)" "get_actor tag (cx_path (ru_ctx r)) sys = Some aid"
    using start [of ?s] by (simp_all add: get_actor_def downcast_def)
  define r1' where "r1' = emit [OutPostStop] (r1\<lparr>ru_ctx := (ru_ctx r1)\<lparr>cx_system := sys\<rparr>\<rparr>)"
  obtain pres a' where p: "post_stop I (ru_actor r1', ru_ctx r1') = (pres, a', ru_ctx r1')" "\<not> panics pres"
    using post by blast
  have t: "init_turn I (r1\<lparr>ru_ctx := (ru_ctx r1)\<lparr>cx_system := sys\<rparr>\<rparr>) = set_lifecycle Terminated (r1'\<lparr>ru_actor := a'\<rparr>)"
    using f1(1) with_hook_eq [where hook = "post_stop I" and r = r1', OF p]
    by (simp add: init_turn_def r1'_def)
  have "ru_end r2 = Some Finished" "cx_system (ru_ctx r2) = remove_actor (cx_path (ru_ctx r)) sys"
    unfolding r2 t
    by (simp_all add: init_turn_terminated set_lifecycle_def report_init_def emit_def r1'_def ctx_remove_actor_def f1(4))
  with s1 f1(3) f2 show ?thesis by (simp add: get_actor_def remove_actor_def)
qed

theorem recreated_actor_is_unregistered_witness:
  "\<exists>r2. get_actor ''B'' [''user'', ''test''] (snd (create_actor_path [''user'', ''test''] ''B'' 9
       (\<lambda>s. (InitStarted, s)) (system_new :: unit system_ref))) = Some 9 \<and>
     ru_end r2 = Some Finished \<and> ru_out r2 = [OutInit True, OutStopReply 4, OutPostStop] \<and>
     get_actor ''B'' [''user'', ''test''] (cx_system (ru_ctx (r2 :: (bool, unit, unit, unit) runner))) = None"
proof -
  let ?init = "\<lambda>s. (InitStarted, s :: unit system_ref)"
  let ?r = "test_run ! 3"
  let ?r1 = "run_stop (test_impl True) (Some 4) (?r\<lparr>ru_ctx := (ru_ctx ?r)\<lparr>cx_stop := []\<rparr>\<rparr>)"
  have r1: "cx_system (ru_ctx ?r1) = system_new"
    by (simp add: test_run_def test_state_def test_impl_def run_stop_def with_hook_def ctx_stop_childs_def
        ctx_remove_actor_def remove_actor_def runner_helpers system_new_def)
  have path: "cx_path (ru_ctx ?r) = [''user'', ''test'']" by (simp add: test_run_def test_state_def)
  let ?sys = "snd (create_actor_path [''user'', ''test''] ''B'' 9 ?init system_new)"
  let ?r2 = "init_turn (test_impl True) (init_turn (test_impl True) (?r1\<lparr>ru_ctx := (ru_ctx ?r1)\<lparr>cx_system := ?sys\<rparr>\<rparr>))"
  have r: "ru_end ?r = None" "ru_running ?r" "ru_lifecycle ?r = Started" "cx_stop (ru_ctx ?r) = Some 4 # []"
    and e: "cx_error (ru_ctx ?r) = None"
    by (simp_all add: test_run_def test_state_def)
  have hooks: "\<And>c. \<exists>a. pre_stop (test_impl True) (ru_actor ?r, c) = (Ok (), a, c)"
    "\<And>a c. \<exists>res a'. post_stop (test_impl True) (a, c) = (res, a', c) \<and> \<not> panics res"
    by (simp_all add: test_impl_def)
  have start: "\<And>s. fst (?init s) = InitStarted \<and> map_of (sy_actors (snd (?init s))) (cx_path (ru_ctx ?r)) =
      map_of (sy_actors s) (cx_path (ru_ctx ?r))"
    by simp
  have sys: "create_actor_path (cx_path (ru_ctx ?r)) ''B'' 9 ?init (cx_system (ru_ctx ?r1)) = (Ok (9, 9), ?sys)"
    unfolding r1 path by (simp add: create_actor_path_def system_new_def)
  have "get_actor ''B'' (cx_path (ru_ctx ?r)) ?sys = Some 9 \<and> ru_end ?r2 = Some Finished \<and>
     get_actor ''B'' (cx_path (ru_ctx ?r)) (cx_system (ru_ctx ?r2)) = None"
    using recreated_actor_is_unregistered [OF r hooks(1) e hooks(2) refl start sys refl] by blast
  then have "get_actor ''B'' [''user'', ''test''] ?sys = Some 9 \<and> ru_end ?r2 = Some Finished \<and>
     get_actor ''B'' [''user'', ''test''] (cx_system (ru_ctx ?r2)) = None"
    unfolding path .
  moreover have "ru_out ?r2 = [OutInit True, OutStopReply 4, OutPostStop]"
    by (simp add: test_run_def test_state_def test_impl_def run_stop_def init_turn_def with_hook_def ctx_stop_childs_def
        ctx_remove_actor_def remove_actor_def runner_helpers)
  ultimately show ?thesis by blast
qed

end
