(* ===== verification/Event_Sink.thy ===== *)
theory Event_Sink
  imports Rush_Prelude
begin

text \<open>
  The event bus of an actor and its sinks (\<open>src/actor/src/sink.rs\<close>, \<open>subscribe\<close> of \<open>ActorRef\<close> in
  \<open>src/actor/src/actor.rs\<close>).

  The bus is a broadcast channel: all events sent so far, its capacity and whether the actor, which
  owns the only sender, is gone. A receiver is the number of the event it reads next. A receiver
  that is more than the capacity behind has lost events: \<open>recv\<close> reports how many and goes on with
  the oldest event still held. \<open>sink_turn\<close> is one turn of the loop of \<open>Sink::run\<close>; the actor and the
  sink run concurrently, so their composition is the relation \<open>sink_step\<close>.
\<close>

record 'e event_bus =
  bus_sent :: "'e list"
  bus_capacity :: nat
  bus_closed :: bool

datatype 'e recv = Received 'e | Lagged nat | Closed

definition bus_new :: "nat \<Rightarrow> 'e event_bus" where
  "bus_new capacity = \<lparr>bus_sent = [], bus_capacity = capacity, bus_closed = False\<rparr>"

definition bus_send :: "'e \<Rightarrow> 'e event_bus \<Rightarrow> 'e event_bus" where
  "bus_send e b = b\<lparr>bus_sent := bus_sent b @ [e]\<rparr>"

text \<open>\<open>resubscribe\<close>: the new receiver reads the events sent from now on.\<close>

definition subscribe :: "'e event_bus \<Rightarrow> nat" where
  "subscribe b = length (bus_sent b)"

text \<open>\<open>None\<close> while it waits.\<close>

definition bus_recv :: "'e event_bus \<Rightarrow> nat \<Rightarrow> ('e recv \<times> nat) option" where
  "bus_recv b pos =
     (let n = length (bus_sent b)
      in if pos + bus_capacity b < n then Some (Lagged (n - bus_capacity b - pos), n - bus_capacity b)
         else if pos < n then Some (Received (bus_sent b ! pos), Suc pos)
         else if bus_closed b then Some (Closed, pos)
         else None)"

section \<open>Sink\<close>

text \<open>The subscriber is the list of the events it was notified of; \<open>sk_missed\<close> counts the events the
  receiver reported as lost.\<close>

record 'e Sink =
  sk_pos :: nat
  sk_notified :: "'e list"
  sk_missed :: nat
  sk_ended :: bool

definition Sink_new :: "nat \<Rightarrow> 'e Sink" where
  "Sink_new pos = \<lparr>sk_pos = pos, sk_notified = [], sk_missed = 0, sk_ended = False\<rparr>"

definition sink_turn :: "'e recv \<times> nat \<Rightarrow> 'e Sink \<Rightarrow> 'e Sink" where
  "sink_turn r sk =
     (case r of
        (Received event, pos) \<Rightarrow> sk\<lparr>sk_pos := pos, sk_notified := sk_notified sk @ [event]\<rparr>
      | (Lagged n, pos) \<Rightarrow> sk\<lparr>sk_pos := pos, sk_missed := sk_missed sk + n\<rparr>
      | (Closed, pos) \<Rightarrow> sk\<lparr>sk_ended := True\<rparr>)"

inductive sink_step :: "'e event_bus \<times> 'e Sink \<Rightarrow> 'e event_bus \<times> 'e Sink \<Rightarrow> bool" where
  Publish: "\<not> bus_closed b \<Longrightarrow> sink_step (b, sk) (bus_send e b, sk)"
| ActorGone: "sink_step (b, sk) (b\<lparr>bus_closed := True\<rparr>, sk)"
| Notify: "\<not> sk_ended sk \<Longrightarrow> bus_recv b (sk_pos sk) = Some r \<Longrightarrow> sink_step (b, sk) (b, sink_turn r sk)"

inductive_cases sink_stepE: "sink_step (b, sk) (b', sk')"

section \<open>What the subscriber sees\<close>

text \<open>Since it subscribed at \<open>start\<close>: what was notified is a subsequence of what was sent, ending with
  everything between some event \<open>k\<close> and the current position, and \<open>k\<close> is the start unless the sink once
  lagged behind it.\<close>

definition sink_inv :: "nat \<Rightarrow> 'e event_bus \<times> 'e Sink \<Rightarrow> bool" where
  "sink_inv start = (\<lambda>(b, sk).
     start \<le> sk_pos sk \<and> sk_pos sk \<le> length (bus_sent b) \<and>
     start + length (sk_notified sk) + sk_missed sk = sk_pos sk \<and>
     subseq (sk_notified sk) (drop start (take (sk_pos sk) (bus_sent b))) \<and>
     (sk_ended sk \<longrightarrow> bus_closed b \<and> sk_pos sk = length (bus_sent b)) \<and>
     (\<exists>k xs. sk_notified sk = xs @ drop k (take (sk_pos sk) (bus_sent b)) \<and> k \<le> sk_pos sk \<and>
        (k = start \<and> xs = [] \<or> k + bus_capacity b \<le> length (bus_sent b))))"

lemma drop_take_Suc:
  "k \<le> n \<Longrightarrow> n < length xs \<Longrightarrow> drop k (take (Suc n) xs) = drop k (take n xs) @ [xs ! n]"
  by (simp add: take_Suc_conv_app_nth)

lemma drop_take_split:
  assumes "s \<le> p" "p \<le> q" "p \<le> length xs"
  shows "drop s (take q xs) = drop s (take p xs) @ drop p (take q xs)"
proof -
  have "take q xs = take p xs @ drop p (take q xs)"
    using assms(2) append_take_drop_id [of p "take q xs"] by (simp add: min_def)
  then have "drop s (take q xs) = drop s (take p xs @ drop p (take q xs))" by (rule arg_cong)
  then show ?thesis using assms by simp
qed

lemma sink_invI:
  assumes "start \<le> sk_pos sk" "sk_pos sk \<le> length (bus_sent b)"
    "start + length (sk_notified sk) + sk_missed sk = sk_pos sk"
    "subseq (sk_notified sk) (drop start (take (sk_pos sk) (bus_sent b)))"
    "sk_ended sk \<longrightarrow> bus_closed b \<and> sk_pos sk = length (bus_sent b)"
    "sk_notified sk = xs @ drop k (take (sk_pos sk) (bus_sent b))" "k \<le> sk_pos sk"
    "k = start \<and> xs = [] \<or> k + bus_capacity b \<le> length (bus_sent b)"
  shows "sink_inv start (b, sk)"
  using assms unfolding sink_inv_def by blast

lemma sink_invE:
  assumes "sink_inv start (b, sk)"
  obtains k xs where "start \<le> sk_pos sk" "sk_pos sk \<le> length (bus_sent b)"
    "start + length (sk_notified sk) + sk_missed sk = sk_pos sk"
    "subseq (sk_notified sk) (drop start (take (sk_pos sk) (bus_sent b)))"
    "sk_ended sk \<longrightarrow> bus_closed b \<and> sk_pos sk = length (bus_sent b)"
    "sk_notified sk = xs @ drop k (take (sk_pos sk) (bus_sent b))" "k \<le> sk_pos sk"
    "k = start \<and> xs = [] \<or> k + bus_capacity b \<le> length (bus_sent b)"
  using assms unfolding sink_inv_def by blast

lemma sink_inv_lag:
  assumes "sink_inv start (b, sk)" "\<not> sk_ended sk" "sk_pos sk + bus_capacity b < length (bus_sent b)"
  defines "q \<equiv> length (bus_sent b) - bus_capacity b"
  shows "sink_inv start (b, sk\<lparr>sk_pos := q, sk_missed := sk_missed sk + (q - sk_pos sk)\<rparr>)"
  using assms(1)
proof (rule sink_invE)
  fix k xs
  assume *: "start \<le> sk_pos sk" "sk_pos sk \<le> length (bus_sent b)"
    "start + length (sk_notified sk) + sk_missed sk = sk_pos sk"
    "subseq (sk_notified sk) (drop start (take (sk_pos sk) (bus_sent b)))"
  have "drop start (take q (bus_sent b)) =
      drop start (take (sk_pos sk) (bus_sent b)) @ drop (sk_pos sk) (take q (bus_sent b))"
    using assms(3) * by (intro drop_take_split) (simp_all add: q_def)
  then have "subseq (sk_notified sk) (drop start (take q (bus_sent b)))" using *(4) by auto
  then show ?thesis
    using assms(2,3) * by (intro sink_invI [where k = q and xs = "sk_notified sk"]) (simp_all add: q_def)
qed

lemma sink_inv_event:
  assumes "sink_inv start (b, sk)" "\<not> sk_ended sk" "sk_pos sk < length (bus_sent b)"
  shows "sink_inv start (b, sk\<lparr>sk_pos := Suc (sk_pos sk), sk_notified := sk_notified sk @ [bus_sent b ! sk_pos sk]\<rparr>)"
  using assms(1)
proof (rule sink_invE)
  fix k xs
  assume *: "start \<le> sk_pos sk" "sk_pos sk \<le> length (bus_sent b)"
    "start + length (sk_notified sk) + sk_missed sk = sk_pos sk"
    "subseq (sk_notified sk) (drop start (take (sk_pos sk) (bus_sent b)))"
    "sk_notified sk = xs @ drop k (take (sk_pos sk) (bus_sent b))" "k \<le> sk_pos sk"
    "k = start \<and> xs = [] \<or> k + bus_capacity b \<le> length (bus_sent b)"
  let ?sk = "sk\<lparr>sk_pos := Suc (sk_pos sk), sk_notified := sk_notified sk @ [bus_sent b ! sk_pos sk]\<rparr>"
  show ?thesis
  proof (rule sink_invI [where k = k and xs = xs])
    show "sk_notified ?sk = xs @ drop k (take (sk_pos ?sk) (bus_sent b))"
      using *(5,6) assms(3) by (simp add: drop_take_Suc)
    show "subseq (sk_notified ?sk) (drop start (take (sk_pos ?sk) (bus_sent b)))"
      using *(1,4) assms(3) by (simp add: drop_take_Suc)
  qed (use assms(2,3) *(1-3,6,7) in simp_all)
qed

lemma sink_inv_closed:
  assumes "sink_inv start (b, sk)" "length (bus_sent b) \<le> sk_pos sk" "bus_closed b"
  shows "sink_inv start (b, sk\<lparr>sk_ended := True\<rparr>)"
  using assms(1)
proof (rule sink_invE)
  fix k xs
  assume *: "start \<le> sk_pos sk" "sk_pos sk \<le> length (bus_sent b)"
    "start + length (sk_notified sk) + sk_missed sk = sk_pos sk"
    "subseq (sk_notified sk) (drop start (take (sk_pos sk) (bus_sent b)))"
    "sk_notified sk = xs @ drop k (take (sk_pos sk) (bus_sent b))" "k \<le> sk_pos sk"
    "k = start \<and> xs = [] \<or> k + bus_capacity b \<le> length (bus_sent b)"
  let ?sk = "sk\<lparr>sk_ended := True\<rparr>"
  show ?thesis
  proof (rule sink_invI [where k = k and xs = xs])
    show "sk_notified ?sk = xs @ drop k (take (sk_pos ?sk) (bus_sent b))" using *(5) by simp
  qed (use assms(2,3) *(1-4,6,7) in simp_all)
qed

lemma sink_inv_step:
  assumes "sink_step s s'" "sink_inv start s"
  shows "sink_inv start s'"
  using assms
proof (cases rule: sink_step.cases)
  case (Publish b sk e)
  with assms(2) show ?thesis by (fastforce simp: sink_inv_def bus_send_def)
next
  case (ActorGone b sk)
  with assms(2) show ?thesis by (auto simp: sink_inv_def)
next
  case (Notify sk b r)
  let ?n = "length (bus_sent b)" and ?p = "sk_pos sk"
  have inv: "sink_inv start (b, sk)" using assms(2) Notify by simp
  consider (lag) "?p + bus_capacity b < ?n" "r = (Lagged (?n - bus_capacity b - ?p), ?n - bus_capacity b)"
    | (event) "?p < ?n" "r = (Received (bus_sent b ! ?p), Suc ?p)"
    | (closed) "?p \<ge> ?n" "bus_closed b" "r = (Closed, ?p)"
    using Notify(4) by (auto simp: bus_recv_def Let_def split: if_splits)
  then show ?thesis
  proof cases
    case lag
    with sink_inv_lag [OF inv Notify(3) lag(1)] Notify show ?thesis by (simp add: sink_turn_def)
  next
    case event
    with sink_inv_event [OF inv Notify(3) event(1)] Notify show ?thesis by (simp add: sink_turn_def)
  next
    case closed
    with sink_inv_closed [OF inv closed(1,2)] Notify show ?thesis by (simp add: sink_turn_def)
  qed
qed

lemma sink_inv_reachable:
  assumes "sink_step\<^sup>*\<^sup>* (b0, Sink_new (subscribe b0)) s"
  shows "sink_inv (subscribe b0) s"
  using assms
proof (induction rule: rtranclp_induct)
  case base
  show ?case by (auto simp: sink_inv_def Sink_new_def subscribe_def)
next
  case (step s s')
  then show ?case by (blast intro: sink_inv_step)
qed

section \<open>Properties\<close>

text \<open>C39. A sink subscribed to an actor, in every interleaving of the actor and the sink: the subscriber
  is notified of events sent after the subscription, in the order they were sent and none twice;
  the ones it was not notified of are exactly those the channel reported as lost. When the actor is
  gone and the sink has ended, it has seen at least the last events up to the capacity of the
  channel, and all of them if none was reported as lost.\<close>

theorem sink_delivers_events:
  assumes "sink_step\<^sup>*\<^sup>* (b0, Sink_new (subscribe b0)) (b, sk)"
  shows "subseq (sk_notified sk) (drop (subscribe b0) (bus_sent b)) \<and>
    subscribe b0 + length (sk_notified sk) + sk_missed sk = sk_pos sk \<and>
    (sk_missed sk = 0 \<longrightarrow> sk_notified sk = drop (subscribe b0) (take (sk_pos sk) (bus_sent b))) \<and>
    (sk_ended sk \<longrightarrow> bus_closed b \<and> sk_pos sk = length (bus_sent b) \<and>
      (\<exists>xs. sk_notified sk = xs @ drop (max (subscribe b0) (length (bus_sent b) - bus_capacity b)) (bus_sent b)))"
proof -
  let ?start = "subscribe b0" and ?n = "length (bus_sent b)"
  have inv: "sink_inv ?start (b, sk)" by (rule sink_inv_reachable [OF assms])
  then have pos: "?start \<le> sk_pos sk" "sk_pos sk \<le> ?n" "?start + length (sk_notified sk) + sk_missed sk = sk_pos sk"
    and sub: "subseq (sk_notified sk) (drop ?start (take (sk_pos sk) (bus_sent b)))"
    and ended: "sk_ended sk \<Longrightarrow> bus_closed b \<and> sk_pos sk = ?n"
    by (auto simp: sink_inv_def)
  obtain k xs where k: "sk_notified sk = xs @ drop k (take (sk_pos sk) (bus_sent b))"
      "k = ?start \<or> k + bus_capacity b \<le> ?n"
    using inv by (auto simp: sink_inv_def)
  have "subseq (sk_notified sk) (drop ?start (bus_sent b))"
    using sub prefix_imp_subseq [OF take_is_prefix] by (metis drop_take subseq_order.trans)
  moreover have "sk_notified sk = drop ?start (take (sk_pos sk) (bus_sent b))" if "sk_missed sk = 0"
    using sub pos that by (intro subseq_same_length) (simp_all add: min_absorb2)
  moreover have "\<exists>ys. sk_notified sk = ys @ drop (max ?start (?n - bus_capacity b)) (bus_sent b)" if "sk_ended sk"
  proof -
    let ?m = "max ?start (?n - bus_capacity b)"
    have "drop k (bus_sent b) = take (?m - k) (drop k (bus_sent b)) @ drop ?m (bus_sent b)"
      using k(2) append_take_drop_id [of "?m - k" "drop k (bus_sent b)"] by auto
    with k(1) ended [OF that] show ?thesis by (metis append.assoc take_all order_refl)
  qed
  ultimately show ?thesis using pos ended by blast
qed

theorem sink_delivers_events_witness:
  "\<exists>sk. sink_step\<^sup>*\<^sup>* (bus_new 1, Sink_new (subscribe (bus_new 1)))
      (\<lparr>bus_sent = [7, 8], bus_capacity = 1, bus_closed = True\<rparr>, sk :: nat Sink) \<and>
    sk_ended sk \<and> sk_missed sk = 1 \<and> subseq (sk_notified sk) [7, 8] \<and> (\<exists>xs. sk_notified sk = xs @ [8])"
proof -
  let ?s = "Sink_new 0 :: nat Sink"
  let ?b = "\<lambda>es c. \<lparr>bus_sent = es, bus_capacity = 1, bus_closed = c\<rparr>"
  let ?s1 = "?s\<lparr>sk_pos := 1, sk_missed := 1\<rparr>" and ?s2 = "?s\<lparr>sk_pos := 2, sk_missed := 1, sk_notified := [8]\<rparr>"
  let ?s3 = "?s\<lparr>sk_pos := 2, sk_missed := 1, sk_notified := [8], sk_ended := True\<rparr>"
  have pub: "sink_step (?b [] False, ?s) (?b [7] False, ?s)" "sink_step (?b [7] False, ?s) (?b [7, 8] False, ?s)"
    using Publish [of "?b [] False" ?s 7] Publish [of "?b [7] False" ?s 8] by (simp_all add: bus_send_def)
  have gone: "sink_step (?b [7, 8] False, ?s) (?b [7, 8] True, ?s)"
    using ActorGone [of "?b [7, 8] False" ?s] by simp
  have turns: "sink_step (?b [7, 8] True, ?s) (?b [7, 8] True, ?s1)"
    "sink_step (?b [7, 8] True, ?s1) (?b [7, 8] True, ?s2)" "sink_step (?b [7, 8] True, ?s2) (?b [7, 8] True, ?s3)"
    using Notify [of ?s "?b [7, 8] True" "(Lagged 1, 1)"] Notify [of ?s1 "?b [7, 8] True" "(Received 8, 2)"]
      Notify [of ?s2 "?b [7, 8] True" "(Closed, 2)"]
    by (simp_all add: bus_recv_def sink_turn_def Sink_new_def)
  have run: "sink_step\<^sup>*\<^sup>* (bus_new 1, Sink_new (subscribe (bus_new 1))) (?b [7, 8] True, ?s3)"
    using steps2 [of sink_step, OF pub] steps4 [of sink_step, OF gone turns]
    by (simp add: bus_new_def subscribe_def)
  from sink_delivers_events [OF run] run show ?thesis
    by (intro exI [of _ ?s3]) (auto simp: subscribe_def bus_new_def Sink_new_def)
qed

end
