(* ===== verification/Handler.thy ===== *)
theory Handler
  imports Rush_Errors
begin

text \<open>
  The mailbox of an actor (\<open>src/actor/src/handler.rs\<close>): the unbounded queue of boxed messages,
  \<open>tell\<close>, \<open>ask\<close> and the handling of one message.

  A mailbox is its queue, whether its receiver is gone, and the one-shot reply channels that were
  opened by \<open>ask\<close>, each named by its position. The handler of the actor is an argument
  \<open>sender \<Rightarrow> message \<Rightarrow> actor \<Rightarrow> result \<times> actor\<close>, where \<open>actor\<close> is whatever the handler changes (the
  actor, its context, the world). A handler that panics takes the task of the actor down: the
  receiver and everything queued in it are dropped.

  Senders and the actor run concurrently; \<open>box_step\<close> has one rule for each of their actions, and
  the invariant over all interleavings gives FIFO order, at most one reply to every \<open>ask\<close>, and that
  no \<open>ask\<close> is left waiting on a mailbox that is gone.
\<close>

datatype 'r oneshot = Pending | Replied 'r | Dropped

record 'm ActorMessage =
  am_message :: 'm
  am_sender :: actor_path
  am_rsvp :: "nat option"

record ('m, 'r) mailbox =
  mb_queue :: "'m ActorMessage list"
  mb_closed :: bool
  mb_oneshots :: "('r, actor_error) outcome oneshot list"

type_synonym ('m, 'r, 'a) handler =
  "actor_path \<Rightarrow> 'm \<Rightarrow> 'a \<Rightarrow> ('r, actor_error) outcome \<times> 'a"

definition ActorMessage_new :: "'m \<Rightarrow> actor_path \<Rightarrow> nat option \<Rightarrow> 'm ActorMessage" where
  "ActorMessage_new m sender rsvp = \<lparr>am_message = m, am_sender = sender, am_rsvp = rsvp\<rparr>"

definition mailbox_new :: "('m, 'r) mailbox" where
  "mailbox_new = \<lparr>mb_queue = [], mb_closed = False, mb_oneshots = []\<rparr>"

definition channel_closed :: actor_error where
  "channel_closed = ActorErr_Send ''channel closed''"

section \<open>Sending\<close>

definition helper_tell ::
  "actor_path \<Rightarrow> 'm \<Rightarrow> ('m, 'r) mailbox \<Rightarrow> (unit, actor_error) outcome \<times> ('m, 'r) mailbox" where
  "helper_tell sender m mb =
     (if mb_closed mb then (Err channel_closed, mb)
      else (Ok (), mb\<lparr>mb_queue := mb_queue mb @ [ActorMessage_new m sender None]\<rparr>))"

text \<open>\<open>ask\<close> up to the await: the reply channel is created and the message queued.\<close>

definition ask_send ::
  "actor_path \<Rightarrow> 'm \<Rightarrow> ('m, 'r) mailbox \<Rightarrow> (nat, actor_error) outcome \<times> ('m, 'r) mailbox" where
  "ask_send sender m mb =
     (if mb_closed mb then (Err channel_closed, mb)
      else let i = length (mb_oneshots mb)
           in (Ok i, mb\<lparr>mb_queue := mb_queue mb @ [ActorMessage_new m sender (Some i)],
                       mb_oneshots := mb_oneshots mb @ [Pending]\<rparr>))"

text \<open>The await of \<open>ask\<close>: \<open>None\<close> while it is suspended.\<close>

definition ask_recv :: "nat \<Rightarrow> ('m, 'r) mailbox \<Rightarrow> ('r, actor_error) outcome option" where
  "ask_recv i mb =
     (if i < length (mb_oneshots mb) then
        (case mb_oneshots mb ! i of
           Pending \<Rightarrow> None
         | Replied r \<Rightarrow> Some r
         | Dropped \<Rightarrow> Some (Err channel_closed))
      else None)"

text \<open>\<open>close\<close> returns when the mailbox is closed and waits (\<open>None\<close>) before that.\<close>

definition helper_close :: "('m, 'r) mailbox \<Rightarrow> unit option" where
  "helper_close mb = (if mb_closed mb then Some () else None)"

definition helper_is_closed :: "('m, 'r) mailbox \<Rightarrow> bool" where
  "helper_is_closed mb = mb_closed mb"

section \<open>Receiving\<close>

definition reply ::
  "nat option \<Rightarrow> ('r, actor_error) outcome oneshot \<Rightarrow> ('m, 'r) mailbox \<Rightarrow> ('m, 'r) mailbox" where
  "reply rsvp x mb =
     (case rsvp of None \<Rightarrow> mb | Some i \<Rightarrow> mb\<lparr>mb_oneshots := (mb_oneshots mb)[i := x]\<rparr>)"

text \<open>The receiver is dropped with the messages queued in it, and they with their reply channels.\<close>

definition drop_receiver :: "('m, 'r) mailbox \<Rightarrow> ('m, 'r) mailbox" where
  "drop_receiver mb =
     fold (\<lambda>msg. reply (am_rsvp msg) Dropped) (mb_queue mb) (mb\<lparr>mb_queue := [], mb_closed := True\<rparr>)"

text \<open>\<open>MessageHandler::handle\<close>: the handler runs, and its result goes to the reply channel, if any.
  When the handler panics the reply channel and the receiver are dropped.\<close>

definition message_handle ::
  "('m, 'r, 'a) handler \<Rightarrow> 'm ActorMessage \<Rightarrow> 'a \<times> ('m, 'r) mailbox \<Rightarrow> 'a \<times> ('m, 'r) mailbox" where
  "message_handle h msg = (\<lambda>(a, mb).
     let (result, a') = h (am_sender msg) (am_message msg) a
     in if panics result then (a', drop_receiver (reply (am_rsvp msg) Dropped mb))
        else (a', reply (am_rsvp msg) (Replied result) mb))"

text \<open>One turn of the receiving side: the first message of the queue is taken and handled.\<close>

definition deliver ::
  "('m, 'r, 'a) handler \<Rightarrow> 'a \<times> ('m, 'r) mailbox \<Rightarrow> 'a \<times> ('m, 'r) mailbox" where
  "deliver h = (\<lambda>(a, mb).
     case mb_queue mb of
       [] \<Rightarrow> (a, mb)
     | msg # rest \<Rightarrow> message_handle h msg (a, mb\<lparr>mb_queue := rest\<rparr>))"

lemma reply_sel [simp]:
  "mb_queue (reply r x mb) = mb_queue mb" "mb_closed (reply r x mb) = mb_closed mb"
  "length (mb_oneshots (reply r x mb)) = length (mb_oneshots mb)"
  by (auto simp: reply_def split: option.split)

lemma fold_reply_sel [simp]:
  "mb_queue (fold (\<lambda>msg. reply (am_rsvp msg) x) ms mb) = mb_queue mb"
  "mb_closed (fold (\<lambda>msg. reply (am_rsvp msg) x) ms mb) = mb_closed mb"
  "length (mb_oneshots (fold (\<lambda>msg. reply (am_rsvp msg) x) ms mb)) = length (mb_oneshots mb)"
  by (induction ms arbitrary: mb) simp_all

lemma drop_receiver_sel [simp]:
  "mb_queue (drop_receiver mb) = []" "mb_closed (drop_receiver mb)"
  "length (mb_oneshots (drop_receiver mb)) = length (mb_oneshots mb)"
  by (simp_all add: drop_receiver_def)

text \<open>An \<open>ask\<close> from a client that is the only one sending meanwhile: the receiver serves what was
  queued before, then the message itself.\<close>

function serve ::
  "('m, 'r, 'a) handler \<Rightarrow> nat \<Rightarrow> 'a \<times> ('m, 'r) mailbox \<Rightarrow>
   ('r, actor_error) outcome option \<times> 'a \<times> ('m, 'r) mailbox" where
  "serve h i (a, mb) =
     (case ask_recv i mb of
        Some r \<Rightarrow> (Some r, a, mb)
      | None \<Rightarrow> (if mb_queue mb = [] then (None, a, mb) else serve h i (deliver h (a, mb))))"
  by pat_completeness auto

lemma deliver_queue:
  "length (mb_queue (snd (deliver h (a, mb)))) \<le> length (mb_queue mb) - 1"
  by (auto simp: deliver_def message_handle_def Let_def split_beta split: list.split)

termination serve
proof (relation "measure (\<lambda>(h, i, a, mb). length (mb_queue mb))", goal_cases)
  case (2 h i a mb)
  then show ?case
    using deliver_queue [of h a mb] by (cases "mb_queue mb") (auto simp: split_beta)
qed simp

declare serve.simps [simp del]

definition helper_ask ::
  "('m, 'r, 'a) handler \<Rightarrow> actor_path \<Rightarrow> 'm \<Rightarrow> 'a \<times> ('m, 'r) mailbox \<Rightarrow>
   ('r, actor_error) outcome option \<times> 'a \<times> ('m, 'r) mailbox" where
  "helper_ask h sender m = (\<lambda>(a, mb).
     case ask_send sender m mb of
       (Ok i, mb') \<Rightarrow> serve h i (a, mb')
     | (Err e, mb') \<Rightarrow> (Some (Err e), a, mb')
     | (Panic p, mb') \<Rightarrow> (Some (Panic p), a, mb'))"

section \<open>All interleavings of senders and receiver\<close>

text \<open>The actor with its mailbox, and what happened so far: the messages that were accepted and
  those that were handled, in order.\<close>

record ('m, 'r, 'a) box_state =
  bx_actor :: 'a
  bx_box :: "('m, 'r) mailbox"
  bx_accepted :: "'m ActorMessage list"
  bx_handled :: "'m ActorMessage list"

definition box_init :: "'a \<Rightarrow> ('m, 'r, 'a) box_state" where
  "box_init a = \<lparr>bx_actor = a, bx_box = mailbox_new, bx_accepted = [], bx_handled = []\<rparr>"

inductive box_step ::
  "('m, 'r, 'a) handler \<Rightarrow> ('m, 'r, 'a) box_state \<Rightarrow> ('m, 'r, 'a) box_state \<Rightarrow> bool"
  for h :: "('m, 'r, 'a) handler" where
  Tell: "helper_tell p m (bx_box s) = (Ok (), mb) \<Longrightarrow>
     box_step h s (s\<lparr>bx_box := mb, bx_accepted := bx_accepted s @ [ActorMessage_new m p None]\<rparr>)"
| Ask: "ask_send p m (bx_box s) = (Ok i, mb) \<Longrightarrow>
     box_step h s (s\<lparr>bx_box := mb, bx_accepted := bx_accepted s @ [ActorMessage_new m p (Some i)]\<rparr>)"
| Deliver: "mb_queue (bx_box s) = msg # rest \<Longrightarrow> deliver h (bx_actor s, bx_box s) = (a, mb) \<Longrightarrow>
     box_step h s (s\<lparr>bx_actor := a, bx_handled := bx_handled s @ [msg], bx_box := mb\<rparr>)"
| Stop: "box_step h s (s\<lparr>bx_box := drop_receiver (bx_box s)\<rparr>)"

definition run_handler :: "('m, 'r, 'a) handler \<Rightarrow> 'm ActorMessage list \<Rightarrow> 'a \<Rightarrow> 'a" where
  "run_handler h ms a = fold (\<lambda>msg a. snd (h (am_sender msg) (am_message msg) a)) ms a"

text \<open>What a reply channel holds once its message was handled.\<close>

definition reply_of :: "('r, actor_error) outcome \<Rightarrow> ('r, actor_error) outcome oneshot" where
  "reply_of r = (if panics r then Dropped else Replied r)"

definition asks :: "'m ActorMessage list \<Rightarrow> nat list" where
  "asks ms = List.map_filter am_rsvp ms"

definition box_inv :: "('m, 'r, 'a) handler \<Rightarrow> 'a \<Rightarrow> ('m, 'r, 'a) box_state \<Rightarrow> bool" where
  "box_inv h a0 s \<longleftrightarrow>
     (let mb = bx_box s; os = mb_oneshots mb; done = bx_handled s
      in (\<exists>lost. bx_accepted s = done @ mb_queue mb @ lost \<and>
            (if mb_closed mb then mb_queue mb = [] else lost = []) \<and>
            (\<forall>i \<in> set (asks (mb_queue mb)). os ! i = Pending) \<and>
            (\<forall>i \<in> set (asks lost). os ! i = Dropped)) \<and>
         asks (bx_accepted s) = [0..<length os] \<and>
         bx_actor s = run_handler h done a0 \<and>
         (\<forall>k < length done. \<forall>i. am_rsvp (done ! k) = Some i \<longrightarrow>
            os ! i = reply_of (fst (h (am_sender (done ! k)) (am_message (done ! k))
                                      (run_handler h (take k done) a0)))))"

lemma asks_simps [simp]:
  "asks [] = []" "asks (ms @ ns) = asks ms @ asks ns"
  "asks (msg # ms) = (case am_rsvp msg of None \<Rightarrow> asks ms | Some i \<Rightarrow> i # asks ms)"
  by (simp_all add: asks_def map_filter_simps map_filter_def split: option.split)

lemma asks_mem: "k < length ms \<Longrightarrow> am_rsvp (ms ! k) = Some i \<Longrightarrow> i \<in> set (asks ms)"
  by (metis in_set_conv_decomp nth_mem asks_simps(2,3) option.simps(5) list.set_intros(1) Un_iff set_append)

lemma asks_nth:
  assumes "i \<in> set (asks ms)"
  obtains k where "k < length ms" "am_rsvp (ms ! k) = Some i"
proof -
  from assms have "Some i \<in> am_rsvp ` set ms"
    by (auto simp: asks_def map_filter_def image_iff) (metis option.sel option.distinct(1) option.exhaust)
  then show thesis by (metis imageE in_set_conv_nth that)
qed

lemma run_handler_simps [simp]:
  "run_handler h [] a = a"
  "run_handler h (ms @ [msg]) a = snd (h (am_sender msg) (am_message msg) (run_handler h ms a))"
  by (simp_all add: run_handler_def)

lemma reply_nth [simp]:
  "j < length (mb_oneshots mb) \<Longrightarrow>
   mb_oneshots (reply r x mb) ! j = (if r = Some j then x else mb_oneshots mb ! j)"
  by (auto simp: reply_def split: option.split)

lemma fold_reply_nth:
  "j < length (mb_oneshots mb) \<Longrightarrow>
   mb_oneshots (fold (\<lambda>msg. reply (am_rsvp msg) x) ms mb) ! j =
     (if j \<in> set (asks ms) then x else mb_oneshots mb ! j)"
  by (induction ms arbitrary: mb) (auto split: option.split)

lemma drop_receiver_nth [simp]:
  "j < length (mb_oneshots mb) \<Longrightarrow>
   mb_oneshots (drop_receiver mb) ! j =
     (if j \<in> set (asks (mb_queue mb)) then Dropped else mb_oneshots mb ! j)"
  by (simp add: drop_receiver_def fold_reply_nth)

lemma box_inv_init: "box_inv h a (box_init a)"
  by (simp add: box_inv_def box_init_def mailbox_new_def)

lemma box_inv_ids:
  assumes "box_inv h a0 s"
  shows "distinct (asks (bx_handled s) @ asks (mb_queue (bx_box s)))"
    "i \<in> set (asks (bx_handled s)) \<union> set (asks (mb_queue (bx_box s))) \<Longrightarrow>
     i < length (mb_oneshots (bx_box s))"
proof -
  from assms obtain lost where "bx_accepted s = bx_handled s @ mb_queue (bx_box s) @ lost"
    and ids: "asks (bx_accepted s) = [0..<length (mb_oneshots (bx_box s))]"
    by (auto simp: box_inv_def Let_def)
  then have eq: "asks (bx_handled s) @ asks (mb_queue (bx_box s)) @ asks lost =
      [0..<length (mb_oneshots (bx_box s))]" by simp
  then have "distinct (asks (bx_handled s) @ asks (mb_queue (bx_box s)) @ asks lost)" by simp
  then show "distinct (asks (bx_handled s) @ asks (mb_queue (bx_box s)))" by auto
  from eq have "set (asks (bx_handled s)) \<union> set (asks (mb_queue (bx_box s))) \<union> set (asks lost) =
      {0..<length (mb_oneshots (bx_box s))}"
    by (metis (no_types, lifting) Un_assoc atLeastLessThan_upt set_append)
  then show "i \<in> set (asks (bx_handled s)) \<union> set (asks (mb_queue (bx_box s))) \<Longrightarrow>
     i < length (mb_oneshots (bx_box s))" by auto
qed

lemma box_inv_tell:
  assumes "box_inv h a0 s" "helper_tell p m (bx_box s) = (Ok (), mb)"
  shows "box_inv h a0 (s\<lparr>bx_box := mb, bx_accepted := bx_accepted s @ [ActorMessage_new m p None]\<rparr>)"
  using assms by (auto simp: box_inv_def helper_tell_def ActorMessage_new_def Let_def split: if_splits)

lemma box_inv_ask:
  assumes inv: "box_inv h a0 s" and ask: "ask_send p m (bx_box s) = (Ok i, mb)"
  shows "box_inv h a0 (s\<lparr>bx_box := mb, bx_accepted := bx_accepted s @ [ActorMessage_new m p (Some i)]\<rparr>)"
proof -
  let ?os = "mb_oneshots (bx_box s)"
  from ask have i: "i = length ?os" "\<not> mb_closed (bx_box s)"
    and mb: "mb = (bx_box s)\<lparr>mb_queue := mb_queue (bx_box s) @ [ActorMessage_new m p (Some i)],
      mb_oneshots := ?os @ [Pending]\<rparr>"
    by (auto simp: ask_send_def Let_def split: if_splits)
  have old: "j < length ?os" if "am_rsvp (bx_handled s ! k) = Some j" "k < length (bx_handled s)" for j k
    using box_inv_ids(2) [OF inv] asks_mem [OF that(2,1)] by auto
  have q: "j < length ?os" if "j \<in> set (asks (mb_queue (bx_box s)))" for j
    using box_inv_ids(2) [OF inv] that by auto
  from inv i mb old q show ?thesis
    by (auto simp: box_inv_def ActorMessage_new_def Let_def nth_append)
qed

lemma box_inv_stop:
  assumes inv: "box_inv h a0 s"
  shows "box_inv h a0 (s\<lparr>bx_box := drop_receiver (bx_box s)\<rparr>)"
proof -
  let ?mb = "bx_box s" and ?os = "mb_oneshots (bx_box s)" and ?d = "bx_handled s"
  from inv obtain lost where acc: "bx_accepted s = ?d @ mb_queue ?mb @ lost"
    and lost: "\<forall>i \<in> set (asks lost). ?os ! i = Dropped"
    and ids: "asks (bx_accepted s) = [0..<length ?os]"
    and rest: "bx_actor s = run_handler h ?d a0"
      "\<forall>k < length ?d. \<forall>i. am_rsvp (?d ! k) = Some i \<longrightarrow>
         ?os ! i = reply_of (fst (h (am_sender (?d ! k)) (am_message (?d ! k)) (run_handler h (take k ?d) a0)))"
    by (auto simp: box_inv_def Let_def)
  have set: "set (asks (mb_queue ?mb)) \<union> set (asks lost) \<subseteq> {0..<length ?os}"
  proof -
    have "set (asks ?d) \<union> set (asks (mb_queue ?mb)) \<union> set (asks lost) = {0..<length ?os}"
      using ids acc by (metis (no_types, lifting) Un_assoc atLeastLessThan_upt set_append asks_simps(2))
    then show ?thesis by blast
  qed
  have handled: "mb_oneshots (drop_receiver ?mb) ! i = ?os ! i"
    if "k < length ?d" "am_rsvp (?d ! k) = Some i" for k i
  proof -
    have i: "i \<in> set (asks ?d)" by (rule asks_mem [OF that])
    with box_inv_ids(1) [OF inv] have "i \<notin> set (asks (mb_queue ?mb))" by auto
    with box_inv_ids(2) [OF inv] i show ?thesis by simp
  qed
  have "\<forall>i \<in> set (asks (mb_queue ?mb @ lost)). mb_oneshots (drop_receiver ?mb) ! i = Dropped"
    using lost set by auto
  with acc ids rest handled show ?thesis
    by (auto simp: box_inv_def Let_def intro!: exI [of _ "mb_queue ?mb @ lost"])
qed

text \<open>A message is taken from the queue and its reply channel filled.\<close>

lemma box_inv_take:
  assumes inv: "box_inv h a0 s" and q: "mb_queue (bx_box s) = msg # rest"
    and h: "h (am_sender msg) (am_message msg) (bx_actor s) = (r, a)"
  shows "box_inv h a0 (s\<lparr>bx_actor := a, bx_handled := bx_handled s @ [msg],
     bx_box := reply (am_rsvp msg) (reply_of r) ((bx_box s)\<lparr>mb_queue := rest\<rparr>)\<rparr>)"
proof -
  let ?mb = "bx_box s" and ?os = "mb_oneshots (bx_box s)" and ?d = "bx_handled s"
  let ?mb' = "reply (am_rsvp msg) (reply_of r) (?mb\<lparr>mb_queue := rest\<rparr>)"
  from inv q have acc: "bx_accepted s = ?d @ msg # rest" and opn: "\<not> mb_closed ?mb"
    and pend: "\<forall>i \<in> set (asks (msg # rest)). ?os ! i = Pending"
    and ids: "asks (bx_accepted s) = [0..<length ?os]"
    and act: "bx_actor s = run_handler h ?d a0"
    and repl: "\<forall>k < length ?d. \<forall>i. am_rsvp (?d ! k) = Some i \<longrightarrow>
         ?os ! i = reply_of (fst (h (am_sender (?d ! k)) (am_message (?d ! k)) (run_handler h (take k ?d) a0)))"
    by (auto simp: box_inv_def Let_def split: if_splits)
  have dist: "distinct (asks ?d @ asks (msg # rest))"
    and below: "i \<in> set (asks ?d) \<union> set (asks (msg # rest)) \<Longrightarrow> i < length ?os" for i
    using box_inv_ids [OF inv] q by auto
  have other: "mb_oneshots ?mb' ! i = ?os ! i" if "i \<in> set (asks ?d) \<union> set (asks rest)" for i
    using that dist below [of i] by (cases "am_rsvp msg") auto
  have own: "mb_oneshots ?mb' ! i = reply_of r" if "am_rsvp msg = Some i" for i
    using that below [of i] by simp
  have pend': "\<forall>i \<in> set (asks rest). mb_oneshots ?mb' ! i = Pending"
    using pend other by (auto split: option.splits)
  have repl': "mb_oneshots ?mb' ! i = reply_of (fst (h (am_sender ((?d @ [msg]) ! k))
      (am_message ((?d @ [msg]) ! k)) (run_handler h (take k (?d @ [msg])) a0)))"
    if "k < Suc (length ?d)" "am_rsvp ((?d @ [msg]) ! k) = Some i" for k i
  proof (cases "k = length ?d")
    case True
    with that own act h show ?thesis by (simp add: nth_append)
  next
    case False
    with that have k: "k < length ?d" "am_rsvp (?d ! k) = Some i" by (auto simp: nth_append)
    then have "mb_oneshots ?mb' ! i = ?os ! i" using asks_mem [OF k] by (intro other) simp
    with repl k show ?thesis by (simp add: nth_append)
  qed
  show ?thesis
    unfolding box_inv_def Let_def using acc opn pend' ids act h repl' by simp
qed

lemma box_inv_deliver:
  assumes inv: "box_inv h a0 s" and q: "mb_queue (bx_box s) = msg # rest"
    and d: "deliver h (bx_actor s, bx_box s) = (a, mb)"
  shows "box_inv h a0 (s\<lparr>bx_actor := a, bx_handled := bx_handled s @ [msg], bx_box := mb\<rparr>)"
proof -
  obtain r a' where h: "h (am_sender msg) (am_message msg) (bx_actor s) = (r, a')" by fastforce
  note tk = box_inv_take [OF inv q h]
  show ?thesis
  proof (cases "panics r")
    case True
    with box_inv_stop [OF tk] d q h show ?thesis
      by (simp add: deliver_def message_handle_def reply_of_def)
  next
    case False
    with tk d q h show ?thesis by (simp add: deliver_def message_handle_def reply_of_def)
  qed
qed

lemma box_inv_step: "box_step h s t \<Longrightarrow> box_inv h a0 s \<Longrightarrow> box_inv h a0 t"
  by (induction rule: box_step.induct) (auto intro: box_inv_tell box_inv_ask box_inv_deliver box_inv_stop)

lemma box_inv_reachable: "(box_step h)\<^sup>*\<^sup>* (box_init a) s \<Longrightarrow> box_inv h a s"
  by (induction rule: rtranclp_induct) (auto intro: box_inv_init box_inv_step)

section \<open>What \<open>ask\<close> returns\<close>

text \<open>While no handler panics, an \<open>ask\<close> on an open mailbox answers with what the handler returns in
  the state that the messages queued before it lead to, and leaves the mailbox empty.\<close>

definition no_panic :: "('m, 'r, 'a) handler \<Rightarrow> 'm ActorMessage list \<Rightarrow> 'a \<Rightarrow> bool" where
  "no_panic h ms a \<longleftrightarrow>
     (\<forall>k < length ms. \<not> panics (fst (h (am_sender (ms ! k)) (am_message (ms ! k)) (run_handler h (take k ms) a))))"

lemma no_panic_Nil [simp]: "no_panic h [] a"
  by (simp add: no_panic_def)

lemma no_panic_Cons:
  "no_panic h (msg # ms) a \<longleftrightarrow>
     \<not> panics (fst (h (am_sender msg) (am_message msg) a)) \<and>
     no_panic h ms (snd (h (am_sender msg) (am_message msg) a))"
proof -
  have "run_handler h (msg # ns) b = run_handler h ns (snd (h (am_sender msg) (am_message msg) b))" for ns b
    by (simp add: run_handler_def)
  then show ?thesis
    by (auto simp: no_panic_def All_less_Suc2 run_handler_def)
qed

lemma no_panic_snoc:
  "no_panic h (ms @ [msg]) a \<longleftrightarrow>
     no_panic h ms a \<and> \<not> panics (fst (h (am_sender msg) (am_message msg) (run_handler h ms a)))"
  by (auto simp: no_panic_def nth_append less_Suc_eq)

lemma serve_queue:
  assumes "mb_queue mb = ms @ [msg]" "am_rsvp msg = Some i" "i \<notin> set (asks ms)"
    "i < length (mb_oneshots mb)" "mb_oneshots mb ! i = Pending" "no_panic h (ms @ [msg]) a"
    "h (am_sender msg) (am_message msg) (run_handler h ms a) = (r, a')"
  shows "\<exists>mb'. serve h i (a, mb) = (Some r, a', mb') \<and> mb_queue mb' = [] \<and> mb_closed mb' = mb_closed mb"
  using assms
proof (induction ms arbitrary: a mb)
  case Nil
  let ?mb = "reply (Some i) (Replied r) (mb\<lparr>mb_queue := []\<rparr>)"
  have "deliver h (a, mb) = (a', ?mb)"
    using Nil by (simp add: deliver_def message_handle_def no_panic_Cons)
  then have "serve h i (a, mb) = (Some r, a', ?mb)"
    using Nil by (simp add: serve.simps [of h i a mb] serve.simps [of h i a' ?mb] ask_recv_def)
  then show ?case by simp
next
  case (Cons m ms)
  obtain x b where h: "h (am_sender m) (am_message m) a = (x, b)" by fastforce
  have np: "\<not> panics x" "no_panic h (ms @ [msg]) b" using Cons.prems(6) h by (simp_all add: no_panic_Cons)
  let ?mb = "reply (am_rsvp m) (Replied x) (mb\<lparr>mb_queue := ms @ [msg]\<rparr>)"
  have d: "deliver h (a, mb) = (b, ?mb)"
    using Cons.prems(1) h np by (simp add: deliver_def message_handle_def)
  have "\<exists>mb'. serve h i (b, ?mb) = (Some r, a', mb') \<and> mb_queue mb' = [] \<and> mb_closed mb' = mb_closed ?mb"
    using Cons.prems np h by (intro Cons.IH) (auto simp: run_handler_def split: option.splits)
  moreover have "serve h i (a, mb) = serve h i (b, ?mb)"
    using Cons.prems d by (subst serve.simps) (simp add: ask_recv_def)
  ultimately show ?case by simp
qed

lemma helper_ask_reply:
  assumes "\<not> mb_closed mb" "\<forall>i \<in> set (asks (mb_queue mb)). i < length (mb_oneshots mb)"
    "no_panic h (mb_queue mb @ [ActorMessage_new m p None]) a"
    "h p m (run_handler h (mb_queue mb) a) = (r, a')"
  shows "\<exists>mb'. helper_ask h p m (a, mb) = (Some r, a', mb') \<and> mb_queue mb' = [] \<and> \<not> mb_closed mb'"
proof -
  let ?i = "length (mb_oneshots mb)"
  let ?mb = "mb\<lparr>mb_queue := mb_queue mb @ [ActorMessage_new m p (Some ?i)],
    mb_oneshots := mb_oneshots mb @ [Pending]\<rparr>"
  have "no_panic h (mb_queue mb @ [ActorMessage_new m p (Some ?i)]) a"
    using assms(3) by (simp add: no_panic_snoc ActorMessage_new_def)
  then have "\<exists>mb'. serve h ?i (a, ?mb) = (Some r, a', mb') \<and> mb_queue mb' = [] \<and> mb_closed mb' = mb_closed ?mb"
    using assms by (intro serve_queue) (auto simp: ActorMessage_new_def nth_append)
  with assms(1) show ?thesis by (simp add: helper_ask_def ask_send_def Let_def)
qed

lemma helper_ask_closed:
  "mb_closed mb \<Longrightarrow> helper_ask h p m (a, mb) = (Some (Err channel_closed), a, mb)"
  by (simp add: helper_ask_def ask_send_def)

section \<open>Properties of every interleaving\<close>

lemma box_inv_closed_replied:
  assumes inv: "box_inv h a s" and "mb_closed (bx_box s)" and i: "i < length (mb_oneshots (bx_box s))"
  shows "mb_oneshots (bx_box s) ! i \<noteq> Pending"
proof -
  let ?os = "mb_oneshots (bx_box s)" and ?d = "bx_handled s"
  from inv obtain lost where acc: "bx_accepted s = ?d @ mb_queue (bx_box s) @ lost"
    and q: "if mb_closed (bx_box s) then mb_queue (bx_box s) = [] else lost = []"
    and lost: "\<forall>i \<in> set (asks lost). ?os ! i = Dropped"
    and ids: "asks (bx_accepted s) = [0..<length ?os]"
    and repl: "\<forall>k < length ?d. \<forall>i. am_rsvp (?d ! k) = Some i \<longrightarrow>
         ?os ! i = reply_of (fst (h (am_sender (?d ! k)) (am_message (?d ! k)) (run_handler h (take k ?d) a)))"
    unfolding box_inv_def Let_def by blast
  have "set (asks (bx_accepted s)) = {0..<length ?os}" using ids by simp
  then have "set (asks ?d) \<union> set (asks lost) = {0..<length ?os}" using acc q assms(2) by simp
  with i have "i \<in> set (asks ?d) \<or> i \<in> set (asks lost)" by (metis Un_iff atLeastLessThan_iff zero_le)
  then show ?thesis
  proof
    assume "i \<in> set (asks ?d)"
    then obtain k where "k < length ?d" "am_rsvp (?d ! k) = Some i" by (rule asks_nth)
    with repl have "?os ! i = reply_of (fst (h (am_sender (?d ! k)) (am_message (?d ! k)) (run_handler h (take k ?d) a)))"
      by blast
    then show ?thesis by (simp add: reply_of_def)
  next
    assume "i \<in> set (asks lost)"
    with lost show ?thesis by simp
  qed
qed

text \<open>A short run: an adder is asked twice and stopped after it served the first of the two.\<close>

definition adder :: "(nat, nat, nat) handler" where
  "adder = (\<lambda>p m n. (Ok n, n + m))"

definition adder_end :: "(nat, nat, nat) box_state" where
  "adder_end =
     \<lparr>bx_actor = 15,
      bx_box = \<lparr>mb_queue = [], mb_closed = True, mb_oneshots = [Replied (Ok 10), Dropped]\<rparr>,
      bx_accepted = [ActorMessage_new 5 [''user''] (Some 0), ActorMessage_new 6 [''user''] (Some 1)],
      bx_handled = [ActorMessage_new 5 [''user''] (Some 0)]\<rparr>"

lemma adder_run: "(box_step adder)\<^sup>*\<^sup>* (box_init 10) adder_end"
proof -
  let ?m = "ActorMessage_new 5 [''user''] (Some 0)" and ?n = "ActorMessage_new 6 [''user''] (Some 1)"
  let ?b1 = "\<lparr>mb_queue = [?m], mb_closed = False, mb_oneshots = [Pending]\<rparr>"
  let ?b2 = "\<lparr>mb_queue = [?m, ?n], mb_closed = False, mb_oneshots = [Pending, Pending]\<rparr>"
  let ?b3 = "\<lparr>mb_queue = [?n], mb_closed = False, mb_oneshots = [Replied (Ok 10), Pending]\<rparr>"
  let ?s0 = "box_init 10 :: (nat, nat, nat) box_state"
  let ?s1 = "?s0\<lparr>bx_box := ?b1, bx_accepted := bx_accepted ?s0 @ [?m]\<rparr>"
  let ?s2 = "?s1\<lparr>bx_box := ?b2, bx_accepted := bx_accepted ?s1 @ [?n]\<rparr>"
  let ?s3 = "?s2\<lparr>bx_actor := 15, bx_handled := bx_handled ?s2 @ [?m], bx_box := ?b3\<rparr>"
  have 1: "box_step adder ?s0 ?s1"
    by (rule box_step.Ask) (simp add: ask_send_def box_init_def mailbox_new_def Let_def)
  have 2: "box_step adder ?s1 ?s2"
    by (rule box_step.Ask) (simp add: ask_send_def box_init_def mailbox_new_def Let_def)
  have 3: "box_step adder ?s2 ?s3"
    by (rule box_step.Deliver [where rest = "[?n]"])
      (simp_all add: deliver_def message_handle_def reply_def box_init_def ActorMessage_new_def adder_def)
  have 4: "box_step adder ?s3 (?s3\<lparr>bx_box := drop_receiver (bx_box ?s3)\<rparr>)"
    by (rule box_step.Stop)
  have e: "?s3\<lparr>bx_box := drop_receiver (bx_box ?s3)\<rparr> = adder_end"
    by (simp add: adder_end_def box_init_def drop_receiver_def reply_def ActorMessage_new_def)
  show ?thesis by (rule steps4 [of "box_step adder", OF 1 2 3 4 [unfolded e]])
qed

text \<open>C14. In every interleaving of tells, asks, deliveries and a stop, the messages are handled in
  the order in which they were accepted, none is lost or handled twice while the mailbox is open,
  and the actor is in the state its handler reaches on exactly the handled messages.\<close>

theorem mailbox_fifo:
  assumes "(box_step h)\<^sup>*\<^sup>* (box_init a) s"
  shows "prefix (bx_handled s) (bx_accepted s) \<and>
    (\<not> mb_closed (bx_box s) \<longrightarrow> bx_accepted s = bx_handled s @ mb_queue (bx_box s)) \<and>
    bx_actor s = run_handler h (bx_handled s) a"
  using box_inv_reachable [OF assms] by (auto simp: box_inv_def Let_def prefix_def split: if_splits)

theorem mailbox_fifo_witness:
  "prefix (bx_handled adder_end) (bx_accepted adder_end) \<and>
   bx_actor adder_end = run_handler adder (bx_handled adder_end) 10"
  using mailbox_fifo [OF adder_run] by simp

text \<open>C15. Every \<open>ask\<close> whose message was handled has been answered, once, with what the handler
  returned for that message in the state of the actor at that moment; if the handler panicked its
  channel is dropped instead.\<close>

theorem ask_answered_by_own_handler:
  assumes "(box_step h)\<^sup>*\<^sup>* (box_init a) s" "k < length (bx_handled s)" "bx_handled s ! k = msg"
    and "am_rsvp msg = Some i"
  shows "mb_oneshots (bx_box s) ! i =
    reply_of (fst (h (am_sender msg) (am_message msg) (run_handler h (take k (bx_handled s)) a)))"
  using box_inv_reachable [OF assms(1)] assms(2-4) by (auto simp: box_inv_def Let_def)

theorem ask_answered_by_own_handler_witness:
  "mb_oneshots (bx_box adder_end) ! 0 = reply_of (Ok 10)"
  using ask_answered_by_own_handler [OF adder_run, of 0 "ActorMessage_new 5 [''user''] (Some 0)" 0]
  by (simp add: adder_end_def adder_def ActorMessage_new_def)

text \<open>C16. No \<open>ask\<close> waits for ever on an actor that is gone: once the receiver is dropped, by a stop or
  by a panic of the handler, every \<open>ask\<close> that was accepted returns.\<close>

theorem no_ask_waits_on_closed_mailbox:
  assumes "(box_step h)\<^sup>*\<^sup>* (box_init a) s" "mb_closed (bx_box s)" "i < length (mb_oneshots (bx_box s))"
  shows "\<exists>r. ask_recv i (bx_box s) = Some r"
  using box_inv_closed_replied [OF box_inv_reachable [OF assms(1)] assms(2,3)] assms(3)
  by (cases "mb_oneshots (bx_box s) ! i") (auto simp: ask_recv_def)

theorem no_ask_waits_on_closed_mailbox_witness:
  "\<exists>r. ask_recv 1 (bx_box adder_end) = Some r"
  using no_ask_waits_on_closed_mailbox [OF adder_run, of 1] by (simp add: adder_end_def)

text \<open>C17. An \<open>ask\<close> on an open mailbox returns what the handler answers in the state reached after the
  messages that were queued before it, and leaves the mailbox open and empty; no handler on the way
  may panic.\<close>

theorem ask_returns_handler_result:
  assumes "\<not> mb_closed mb" "\<forall>i \<in> set (asks (mb_queue mb)). i < length (mb_oneshots mb)"
    and "no_panic h (mb_queue mb @ [ActorMessage_new m p None]) a"
    and "h p m (run_handler h (mb_queue mb) a) = (r, a')"
  shows "\<exists>mb'. helper_ask h p m (a, mb) = (Some r, a', mb') \<and> mb_queue mb' = [] \<and> \<not> mb_closed mb'"
  using assms by (rule helper_ask_reply)

theorem ask_returns_handler_result_witness:
  "\<exists>mb'. helper_ask adder [''user''] 4 (10, snd (helper_tell [''user''] 5 mailbox_new)) = (Some (Ok 15), 19, mb') \<and>
     mb_queue mb' = [] \<and> \<not> mb_closed mb'"
  using ask_returns_handler_result [of "snd (helper_tell [''user''] 5 mailbox_new)" adder 4 "[''user'']" 10 "Ok 15" 19]
  by (simp add: helper_tell_def mailbox_new_def adder_def ActorMessage_new_def no_panic_Cons run_handler_def)

end
