(* ===== verification/Actor_Ref.thy ===== *)
theory Actor_Ref
  imports Actor_Runner Event_Sink Handler
begin

text \<open>
  References to a running actor (\<open>ActorRef\<close> in \<open>src/actor/src/actor.rs\<close>) and the default methods of the
  traits \<open>Actor\<close> and \<open>Handler\<close>.

  A reference holds the path, the sending ends of the mailbox and of the stop channel, and a receiver
  of the event bus. Its operations act on the runner at the other end: the lemmas show that each of
  them is a step of \<open>runner_step\<close>, so that what is proved about all runs of a runner covers every client,
  and what a client gets from an actor that has ended. The events a runner emits are what its bus
  sends; a sink sees them as theory \<open>Event_Sink\<close> says.
\<close>

section \<open>Default methods\<close>

text \<open>\<open>pre_restart\<close> calls \<open>pre_start\<close> again; the other hooks do nothing; a fault of a child stops it.\<close>

definition default_impl ::
  "('a, 'h, 'e) hook \<Rightarrow> ('m \<Rightarrow> ('a, 'h, 'e) hook) \<Rightarrow> ('a, 'm, 'h, 'e) actor_impl" where
  "default_impl start handle =
     \<lparr>supervision_strategy = SupStop, pre_start = start, pre_restart = (\<lambda>_. start),
      pre_stop = (\<lambda>x. (Ok (), x)), post_stop = (\<lambda>x. (Ok (), x)), handle_msg = handle,
      on_child_error = (\<lambda>_ x. x), on_child_fault = (\<lambda>_ x. (ChildStop, x))\<rparr>"

definition default_pre_start :: "('a, 'h, 'e) hook" where
  "default_pre_start x = (Ok (), x)"

section \<open>References\<close>

record ActorRef =
  ar_path :: actor_path
  ar_event_pos :: nat

definition emitted :: "('m, 'e) runner_output list \<Rightarrow> 'e list" where
  "emitted os = concat (map (\<lambda>x. case x of OutEvent e \<Rightarrow> [e] | _ \<Rightarrow> []) os)"

definition runner_bus :: "nat \<Rightarrow> ('a, 'm, 'h, 'e) runner \<Rightarrow> 'e event_bus" where
  "runner_bus capacity r =
     \<lparr>bus_sent = emitted (ru_out r), bus_capacity = capacity, bus_closed = (ru_end r \<noteq> None)\<rparr>"

definition ref_new :: "actor_path \<Rightarrow> 'e event_bus \<Rightarrow> ActorRef" where
  "ref_new path bus = \<lparr>ar_path = path, ar_event_pos = subscribe bus\<rparr>"

definition ref_path :: "ActorRef \<Rightarrow> actor_path" where
  "ref_path ref = ar_path ref"

definition ref_clone :: "'e event_bus \<Rightarrow> ActorRef \<Rightarrow> ActorRef" where
  "ref_clone bus ref = \<lparr>ar_path = ar_path ref, ar_event_pos = subscribe bus\<rparr>"

definition ref_subscribe :: "'e event_bus \<Rightarrow> ActorRef \<Rightarrow> nat" where
  "ref_subscribe bus ref = subscribe bus"

definition ref_is_closed :: "('a, 'm, 'h, 'e) runner \<Rightarrow> bool" where
  "ref_is_closed r = ru_closed r"

definition ref_tell ::
  "'m \<Rightarrow> ('a, 'm, 'h, 'e) runner \<Rightarrow> (unit, actor_error) outcome \<times> ('a, 'm, 'h, 'e) runner" where
  "ref_tell m r =
     (if ru_closed r then (Err channel_closed, r)
      else (Ok (), r\<lparr>ru_receiver := ru_receiver r @ [m]\<rparr>))"

definition ref_tell_stop :: "('a, 'm, 'h, 'e) runner \<Rightarrow> ('a, 'm, 'h, 'e) runner" where
  "ref_tell_stop r = (if ru_end r \<noteq> None then r else r\<lparr>ru_ctx := ctx_stop None (ru_ctx r)\<rparr>)"

text \<open>\<open>ask_stop\<close> up to its await (\<open>i\<close> names the reply channel) and the await itself, \<open>None\<close> while it waits: the
  reply, or an error when the task ends without one.\<close>

definition ref_ask_stop ::
  "nat \<Rightarrow> ('a, 'm, 'h, 'e) runner \<Rightarrow> (unit, actor_error) outcome option \<times> ('a, 'm, 'h, 'e) runner" where
  "ref_ask_stop i r =
     (if ru_end r \<noteq> None then (Some (Ok ()), r)
      else (None, r\<lparr>ru_ctx := ctx_stop (Some i) (ru_ctx r)\<rparr>))"

definition ask_stop_recv :: "nat \<Rightarrow> ('a, 'm, 'h, 'e) runner \<Rightarrow> (unit, actor_error) outcome option" where
  "ask_stop_recv i r =
     (if OutStopReply i \<in> set (ru_out r) then Some (Ok ())
      else if ru_end r \<noteq> None then Some (Err channel_closed)
      else None)"

section \<open>Clients are steps of the runner\<close>

lemma ref_tell_step:
  assumes "ru_end r = None" "ref_tell m r = (Ok (), r')"
  shows "runner_step I r r'"
proof -
  have "\<not> ru_closed r" "r' = r\<lparr>ru_receiver := ru_receiver r @ [m]\<rparr>"
    using assms(2) by (auto simp: ref_tell_def split: if_splits)
  then show ?thesis using MsgArrives [OF assms(1), of I m] by simp
qed

lemma ref_stop_steps:
  assumes "ru_end r = None"
  shows "runner_step I r (ref_tell_stop r)" "runner_step I r (snd (ref_ask_stop i r))"
  using StopArrives [OF assms, of I] assms by (simp_all add: ref_tell_stop_def ref_ask_stop_def)

lemma ref_ended:
  assumes "ru_end r \<noteq> None"
  shows "ref_tell_stop r = r" "ref_ask_stop i r = (Some (Ok ()), r)" "ask_stop_recv i r \<noteq> None"
  using assms by (simp_all add: ref_tell_stop_def ref_ask_stop_def ask_stop_recv_def)

text \<open>A message sent to a runner waits behind those sent before and goes first when they are handled.\<close>

lemma ref_tell_fifo: "ref_tell m r = (Ok (), r') \<Longrightarrow> ru_receiver r' = ru_receiver r @ [m]"
  by (auto simp: ref_tell_def split: if_splits)

section \<open>Events\<close>

lemma emitted_simps [simp]:
  "emitted [] = []" "emitted (os @ ps) = emitted os @ emitted ps"
  "emitted (x # os) = (case x of OutEvent e \<Rightarrow> e # emitted os | _ \<Rightarrow> emitted os)"
  by (auto simp: emitted_def split: runner_output.split)

text \<open>\<open>publish_event\<close> queues the event for the runner; handling it sends it on the bus.\<close>

lemma published_event_is_sent:
  assumes "ctx_publish_event e (ru_ctx r) = (Ok (), c)"
  shows "cx_inner c = cx_inner (ru_ctx r) @ [InnerEvent e]"
    "runner_bus n (inner_handle answer (InnerEvent e) r) = bus_send e (runner_bus n r)"
  using assms
  by (auto simp: ctx_publish_event_def inner_handle_def emit_def runner_bus_def bus_send_def)

lemma default_fault_stops_child:
  "run_child_error (default_impl start handle) (ChildFault e s) r = emit [OutChildAction s ChildStop] r"
  by (simp add: run_child_error_def default_impl_def)

end
