(* ===== verification/Retries.thy ===== *)
theory Retries
  imports Actor_Ref
begin

text \<open>
  The retry actor (\<open>src/actor/src/retries.rs\<close>), which sends a message to its child \<open>target\<close> again and
  again until it is told to end.

  The handler returns its effects in order: the message told to the target, the timer that will send
  \<open>Retry\<close> again after a delay, the error emitted to the parent, the request to stop. Whether the child
  \<open>target\<close> is registered and whether the actor itself is are arguments. \<open>retry_chain\<close> is what one \<open>Retry\<close>
  leads to when every timer fires and nobody sends \<open>End\<close>.
\<close>

record 'm RetryActor =
  ra_message :: 'm
  ra_strategy :: Strategy
  ra_retries :: nat
  ra_is_end :: bool

datatype RetryMessage = Retry | End

datatype 'm retry_effect =
    ToTarget 'm
  | RetryTimer duration
  | EmitError actor_error
  | StopSelf

definition RetryActor_new :: "'m \<Rightarrow> Strategy \<Rightarrow> 'm RetryActor" where
  "RetryActor_new m strategy =
     \<lparr>ra_message = m, ra_strategy = strategy, ra_retries = 0, ra_is_end = False\<rparr>"

text \<open>\<open>pre_start\<close> creates the child.\<close>

definition retry_pre_start ::
  "string \<Rightarrow> nat \<Rightarrow> 'h actor_init \<Rightarrow> ('h, 'e) ActorContext \<Rightarrow>
   (unit, actor_error) outcome \<times> ('h, 'e) ActorContext" where
  "retry_pre_start tag aid init ctx =
     then_in (ctx_create_child tag ''target'' aid init ctx) (\<lambda>_ ctx'. (Ok (), ctx'))"

definition retry_handle ::
  "bool \<Rightarrow> bool \<Rightarrow> RetryMessage \<Rightarrow> 'm RetryActor \<Rightarrow> 'm retry_effect list \<times> 'm RetryActor" where
  "retry_handle has_child registered msg ra =
     (case msg of
        Retry \<Rightarrow>
          if ra_is_end ra then ([], ra)
          else let ra1 = ra\<lparr>ra_retries := Suc (ra_retries ra)\<rparr>
               in if ra_retries ra1 \<le> strategy_max_retries (ra_strategy ra1) then
                    (let told = (if has_child then [ToTarget (ra_message ra1)] else [])
                     in if registered then
                          (case strategy_next_backoff (ra_strategy ra1) of
                             (Some duration, s) \<Rightarrow> (told @ [RetryTimer duration], ra1\<lparr>ra_strategy := s\<rparr>)
                           | (None, s) \<Rightarrow> (told, ra1\<lparr>ra_strategy := s\<rparr>))
                        else (told @ [EmitError (ActorErr_Send ''Cannot get retry actor in'')], ra1))
                  else ([EmitError ActorErr_ReTry], ra1)
      | End \<Rightarrow> ([StopSelf], ra\<lparr>ra_is_end := True\<rparr>))"

fun is_timer :: "'m retry_effect \<Rightarrow> bool" where
  "is_timer (RetryTimer d) = True"
| "is_timer _ = False"

function retry_chain :: "'m RetryActor \<Rightarrow> 'm retry_effect list \<times> 'm RetryActor" where
  "retry_chain ra =
     (let (es, ra') = retry_handle True True Retry ra
      in if list_ex is_timer es
         then let (fs, ra'') = retry_chain ra' in (es @ fs, ra'')
         else (es, ra'))"
  by pat_completeness auto

lemma retry_timer_bound:
  assumes "retry_handle c r Retry ra = (es, ra')" "list_ex is_timer es"
  shows "ra_retries ra' = Suc (ra_retries ra)" "ra_retries ra' \<le> strategy_max_retries (ra_strategy ra')"
    "strategy_max_retries (ra_strategy ra') = strategy_max_retries (ra_strategy ra)"
  using assms strategy.max_retries_kept [of "ra_strategy ra"]
  by (auto simp: retry_handle_def Let_def split: if_splits prod.splits option.splits)

termination retry_chain
proof (relation "measure (\<lambda>ra. Suc (strategy_max_retries (ra_strategy ra)) - ra_retries ra)", goal_cases)
  case (2 ra x es ra')
  then have "retry_handle True True Retry ra = (es, ra')" by simp
  from retry_timer_bound [OF this 2(3)] show ?case by simp
qed simp

declare retry_chain.simps [simp del]

section \<open>The retry actor under its runner\<close>

definition apply_retry_effect :: "'m retry_effect \<Rightarrow> ('h, 'e) ActorContext \<Rightarrow> ('h, 'e) ActorContext" where
  "apply_retry_effect eff ctx =
     (case eff of
        EmitError e \<Rightarrow> snd (ctx_emit_error e ctx)
      | StopSelf \<Rightarrow> ctx_stop None ctx
      | _ \<Rightarrow> ctx)"

text \<open>\<open>handle_message\<close> on the context; the tags are the types of the target and of the retry actor itself.\<close>

definition retry_message ::
  "string \<Rightarrow> string \<Rightarrow> RetryMessage \<Rightarrow> ('m RetryActor, 'h, 'e) hook" where
  "retry_message target_tag self_tag msg = (\<lambda>(ra, ctx).
     let (es, ra') = retry_handle (ctx_get_child target_tag ''target'' ctx \<noteq> None)
                       (ctx_reference self_tag ctx \<noteq> None) msg ra
     in (Ok (), ra', fold apply_retry_effect es ctx))"

definition retry_impl ::
  "string \<Rightarrow> string \<Rightarrow> nat \<Rightarrow> 'h actor_init \<Rightarrow> ('m RetryActor, RetryMessage, 'h, 'e) actor_impl" where
  "retry_impl target_tag self_tag aid init =
     default_impl (\<lambda>(ra, ctx). let (res, ctx') = retry_pre_start target_tag aid init ctx in (res, ra, ctx'))
       (retry_message target_tag self_tag)"

text \<open>\<open>End\<close> marks the actor and asks its runner to stop; a \<open>Retry\<close> that a timer still sends afterwards
  changes nothing.\<close>

lemma retry_end_asks_to_stop:
  assumes "run_msg (retry_impl t s aid init) End r = r'"
  shows "ra_is_end (ru_actor r')" "cx_stop (ru_ctx r') = cx_stop (ru_ctx r) @ [None]"
  using assms
  by (auto simp: run_msg_def with_hook_def retry_impl_def default_impl_def retry_message_def retry_handle_def
      apply_retry_effect_def ctx_stop_def emit_def split_beta Let_def)

lemma retry_after_end:
  assumes "ra_is_end (ru_actor r)"
  shows "run_msg (retry_impl t s aid init) Retry r = emit [OutHandled Retry] r"
  using assms
  by (auto simp: run_msg_def with_hook_def retry_impl_def default_impl_def retry_message_def retry_handle_def
      emit_def split_beta Let_def)

section \<open>Chains of retries\<close>

lemma retry_step:
  assumes "\<not> ra_is_end ra"
  shows "ra_retries ra < strategy_max_retries (ra_strategy ra) \<Longrightarrow>
      strategy_next_backoff (ra_strategy ra) = (Some d, s) \<Longrightarrow>
      fst (retry_chain ra) = ToTarget (ra_message ra) # RetryTimer d #
        fst (retry_chain (ra\<lparr>ra_retries := Suc (ra_retries ra), ra_strategy := s\<rparr>))"
    and "ra_retries ra < strategy_max_retries (ra_strategy ra) \<Longrightarrow>
      strategy_next_backoff (ra_strategy ra) = (None, s) \<Longrightarrow> fst (retry_chain ra) = [ToTarget (ra_message ra)]"
    and "strategy_max_retries (ra_strategy ra) \<le> ra_retries ra \<Longrightarrow>
      fst (retry_chain ra) = [EmitError ActorErr_ReTry]"
  using assms by (simp_all add: retry_chain.simps [of ra] retry_handle_def split_beta Let_def)

text \<open>The messages and timers of one retry per duration.\<close>

definition retry_rounds :: "'m \<Rightarrow> duration list \<Rightarrow> 'm retry_effect list" where
  "retry_rounds m ds = concat (map (\<lambda>d. [ToTarget m, RetryTimer d]) ds)"

lemma retry_chain_fixed:
  assumes "\<not> ra_is_end ra" "ra_strategy ra = FixedInterval f" "ra_retries ra + k = fis_max_retries f"
  shows "fst (retry_chain ra) =
    retry_rounds (ra_message ra) (replicate k (fis_duration f)) @ [EmitError ActorErr_ReTry]"
  using assms
proof (induction k arbitrary: ra)
  case 0
  then show ?case by (simp add: retry_step(3) retry_rounds_def)
next
  case (Suc k)
  let ?ra = "ra\<lparr>ra_retries := Suc (ra_retries ra), ra_strategy := FixedInterval f\<rparr>"
  have "fst (retry_chain ?ra) =
      retry_rounds (ra_message ?ra) (replicate k (fis_duration f)) @ [EmitError ActorErr_ReTry]"
    by (rule Suc.IH) (use Suc.prems in simp_all)
  moreover have "fst (retry_chain ra) = ToTarget (ra_message ra) # RetryTimer (fis_duration f) # fst (retry_chain ?ra)"
    by (rule retry_step(1)) (use Suc.prems in \<open>simp_all add: fixed_interval_next_backoff_def\<close>)
  ultimately show ?case by (simp add: retry_rounds_def)
qed

lemma retry_chain_custom:
  assumes "\<not> ra_is_end ra" "ra_strategy ra = CustomInterval c"
    "ra_retries ra + length (cis_durations c) = cis_max_retries c"
  shows "fst (retry_chain ra) = retry_rounds (ra_message ra) (cis_durations c) @ [EmitError ActorErr_ReTry]"
  using assms
proof (induction "cis_durations c" arbitrary: ra c)
  case Nil
  then show ?case by (simp add: retry_step(3) retry_rounds_def)
next
  case (Cons d ds)
  let ?c = "c\<lparr>cis_durations := ds\<rparr>"
  let ?ra = "ra\<lparr>ra_retries := Suc (ra_retries ra), ra_strategy := CustomInterval ?c\<rparr>"
  note ds = Cons.hyps(2) [symmetric]
  have "fst (retry_chain ?ra) = retry_rounds (ra_message ?ra) (cis_durations ?c) @ [EmitError ActorErr_ReTry]"
    by (rule Cons.hyps(1)) (use Cons.prems ds in simp_all)
  moreover have "fst (retry_chain ra) = ToTarget (ra_message ra) # RetryTimer d # fst (retry_chain ?ra)"
    by (rule retry_step(1)) (use Cons.prems ds in \<open>simp_all add: custom_interval_next_backoff_def\<close>)
  ultimately show ?case by (simp add: retry_rounds_def ds)
qed

section \<open>Properties\<close>

text \<open>C40. One \<open>Retry\<close> sent to a new retry actor, with no \<open>End\<close>: under the fixed strategy the target gets
  the message as often as the strategy allows, each time followed by the delay, and then the
  parent gets the error \<open>ReTry\<close>; under the custom strategy likewise with its durations in order.
  Under the strategy without interval the message is sent once and never again, whatever the
  number of retries.\<close>

theorem retry_actor_sends:
  "fst (retry_chain (RetryActor_new m (FixedInterval (fixed_interval_new n d)))) =
     retry_rounds m (replicate n d) @ [EmitError ActorErr_ReTry] \<and>
   fst (retry_chain (RetryActor_new m (CustomInterval (custom_interval_new ds)))) =
     retry_rounds m ds @ [EmitError ActorErr_ReTry] \<and>
   fst (retry_chain (RetryActor_new m (NoInterval (no_interval_new n)))) =
     (if n = 0 then [EmitError ActorErr_ReTry] else [ToTarget m])"
proof (intro conjI)
  show "fst (retry_chain (RetryActor_new m (FixedInterval (fixed_interval_new n d)))) =
     retry_rounds m (replicate n d) @ [EmitError ActorErr_ReTry]"
    using retry_chain_fixed [of "RetryActor_new m (FixedInterval (fixed_interval_new n d))" _ n]
    by (simp add: RetryActor_new_def fixed_interval_new_def)
  show "fst (retry_chain (RetryActor_new m (CustomInterval (custom_interval_new ds)))) =
     retry_rounds m ds @ [EmitError ActorErr_ReTry]"
    using retry_chain_custom [of "RetryActor_new m (CustomInterval (custom_interval_new ds))"]
    by (simp add: RetryActor_new_def custom_interval_new_def)
  show "fst (retry_chain (RetryActor_new m (NoInterval (no_interval_new n)))) =
     (if n = 0 then [EmitError ActorErr_ReTry] else [ToTarget m])"
    by (simp add: RetryActor_new_def no_interval_new_def no_interval_next_backoff_def retry_step(2,3))
qed

end
