(* ===== verification/Parent_Child.thy ===== *)
theory Parent_Child
  imports Actor_Runner
begin

text \<open>
  A parent and its child in the select loops of \<open>src/actor/src/runner.rs\<close>, where one waits for the
  other. The child that fails reports to its parent and waits for the action to take (\<open>inner_handle\<close>);
  the parent that stops sends a stop request to the child and waits for the reply (\<open>stop_childs\<close>).
  In \<open>runner_step\<close> both waits are over in one step; here they are phases, and the two tasks
  interleave.

  \<open>pt_faults\<close> counts the reports in the error channel of the parent, \<open>ch_inner\<close> is the queue of inner
  actions of the child (\<open>True\<close>: a failure), \<open>ch_stops\<close> that of its stop requests (\<open>True\<close>: the one whose
  reply the parent waits for). The parent has no parent and this one child, which has no children.
\<close>

datatype parent_phase = PtRunning | PtAwaitReply | PtEnded

datatype child_phase = ChRunning | ChAwaitAction | ChEnded

record pair =
  pt_phase :: parent_phase
  pt_stops :: nat
  pt_faults :: nat
  ch_phase :: child_phase
  ch_inner :: "bool list"
  ch_stops :: "bool list"
  ch_signal :: bool
  ch_restart :: bool

definition pair_init :: pair where
  "pair_init =
     \<lparr>pt_phase = PtRunning, pt_stops = 0, pt_faults = 0, ch_phase = ChRunning, ch_inner = [], ch_stops = [],
      ch_signal = False, ch_restart = False\<rparr>"

section \<open>Operations\<close>

text \<open>The end of the \<open>Fail\<close> branch of \<open>inner_handle\<close>: the action is taken, then \<open>ctx.stop(None)\<close> and the
  stop signal; with no answer (the parent is gone) there is no restart.\<close>

definition child_resume :: "ChildAction option \<Rightarrow> pair \<Rightarrow> pair" where
  "child_resume answer s =
     s\<lparr>ch_phase := ChRunning, ch_stops := ch_stops s @ [False], ch_signal := True,
       ch_restart := (case answer of Some ChildRestart \<Rightarrow> True | Some ChildDelegate \<Rightarrow> True | _ \<Rightarrow> ch_restart s)\<rparr>"

text \<open>The \<open>Fail\<close> branch up to its await: the report fails, and with it the wait, when the parent has ended.\<close>

definition child_fail :: "pair \<Rightarrow> pair" where
  "child_fail s =
     (if pt_phase s = PtEnded then child_resume None s
      else s\<lparr>pt_faults := Suc (pt_faults s), ch_phase := ChAwaitAction\<rparr>)"

text \<open>The error branch of the parent: \<open>on_child_fault\<close> gives the action, which is sent to the child.\<close>

definition parent_answer :: "ChildAction \<Rightarrow> pair \<Rightarrow> pair" where
  "parent_answer action s = child_resume (Some action) (s\<lparr>pt_faults := pt_faults s - 1\<rparr>)"

text \<open>The stop branch of the parent up to the await in \<open>stop_childs\<close>: a child that has ended is skipped.\<close>

definition parent_stop :: "pair \<Rightarrow> pair" where
  "parent_stop s =
     (let s' = s\<lparr>pt_stops := pt_stops s - 1\<rparr>
      in if ch_phase s = ChEnded then s'\<lparr>pt_phase := PtEnded\<rparr>
         else s'\<lparr>pt_phase := PtAwaitReply, ch_stops := ch_stops s' @ [True]\<rparr>)"

text \<open>The stop branch of the child and what \<open>init\<close> does after it: the request is answered; then the child
  ends, unless it was told to restart and its strategy allows it (\<open>again\<close>). A child that ends drops
  the requests left in its channel, which ends the wait of the parent too.\<close>

definition child_stop :: "bool \<Rightarrow> pair \<Rightarrow> pair" where
  "child_stop again s =
     (let running = (ch_restart s \<and> again);
          reply = (pt_phase s = PtAwaitReply \<and> (hd (ch_stops s) \<or> \<not> running \<and> True \<in> set (ch_stops s)))
      in s\<lparr>pt_phase := (if reply then PtEnded else pt_phase s),
           ch_phase := (if running then ChRunning else ChEnded),
           ch_stops := (if running then tl (ch_stops s) else []), ch_restart := False\<rparr>)"

inductive pair_step :: "pair \<Rightarrow> pair \<Rightarrow> bool" where
  StopParent: "pt_phase s \<noteq> PtEnded \<Longrightarrow> pair_step s (s\<lparr>pt_stops := Suc (pt_stops s)\<rparr>)"
| StopChild: "ch_phase s \<noteq> ChEnded \<Longrightarrow> pair_step s (s\<lparr>ch_stops := ch_stops s @ [False]\<rparr>)"
| ChildEmits: "ch_phase s = ChRunning \<Longrightarrow> \<not> ch_signal s \<Longrightarrow> pair_step s (s\<lparr>ch_inner := ch_inner s @ [failure]\<rparr>)"
| ChildReports: "ch_phase s = ChRunning \<Longrightarrow> \<not> ch_signal s \<Longrightarrow> ch_inner s = False # rest \<Longrightarrow>
     pair_step s (s\<lparr>ch_inner := rest\<rparr>)"
| ChildFails: "ch_phase s = ChRunning \<Longrightarrow> \<not> ch_signal s \<Longrightarrow> ch_inner s = True # rest \<Longrightarrow>
     pair_step s (child_fail (s\<lparr>ch_inner := rest\<rparr>))"
| ParentAnswers: "pt_phase s = PtRunning \<Longrightarrow> 0 < pt_faults s \<Longrightarrow> ch_phase s = ChAwaitAction \<Longrightarrow>
     pair_step s (parent_answer action s)"
| ParentStops: "pt_phase s = PtRunning \<Longrightarrow> 0 < pt_stops s \<Longrightarrow> pair_step s (parent_stop s)"
| ChildStops: "ch_phase s = ChRunning \<Longrightarrow> ch_stops s \<noteq> [] \<Longrightarrow> pair_step s (child_stop again s)"

inductive_cases pair_stepE: "pair_step s s'"

lemmas pair_ops = child_resume_def child_fail_def parent_answer_def parent_stop_def child_stop_def Let_def

section \<open>Waiting\<close>

text \<open>While the parent waits, the child has not ended and holds the request of the parent; while the
  child waits, its report is with the parent, which has not ended.\<close>

definition pair_inv :: "pair \<Rightarrow> bool" where
  "pair_inv s \<longleftrightarrow>
     (pt_phase s = PtAwaitReply \<longrightarrow> ch_phase s \<noteq> ChEnded \<and> True \<in> set (ch_stops s)) \<and>
     (ch_phase s = ChAwaitAction \<longrightarrow> 0 < pt_faults s \<and> pt_phase s \<noteq> PtEnded)"

lemma pair_inv_step:
  assumes "pair_step s s'" "pair_inv s"
  shows "pair_inv s'"
  using assms(1)
proof (cases rule: pair_step.cases)
  case (ChildStops again)
  then show ?thesis
    using assms(2) by (cases "ch_stops s") (auto simp: pair_inv_def pair_ops)
qed (use assms(2) in \<open>auto simp: pair_inv_def pair_ops\<close>)

lemma pair_inv_reachable: "pair_step\<^sup>*\<^sup>* pair_init s \<Longrightarrow> pair_inv s"
proof (induction rule: rtranclp_induct)
  case base
  show ?case by (simp add: pair_init_def pair_inv_def)
next
  case (step s s')
  then show ?case by (blast intro: pair_inv_step)
qed

definition deadlocked :: "pair \<Rightarrow> bool" where
  "deadlocked s \<longleftrightarrow> pt_phase s = PtAwaitReply \<and> ch_phase s = ChAwaitAction"

lemma deadlock_stays: "pair_step\<^sup>*\<^sup>* s s' \<Longrightarrow> deadlocked s \<Longrightarrow> deadlocked s'"
proof (induction rule: rtranclp_induct)
  case (step s' s'')
  then show ?case by (auto simp: deadlocked_def elim!: pair_stepE)
qed

text \<open>A child that does not wait can take its stop requests one after the other until it answers the
  parent.\<close>

lemma child_answers:
  assumes "pt_phase s = PtAwaitReply" "ch_phase s = ChRunning" "True \<in> set (ch_stops s)"
  shows "\<exists>s'. pair_step s s' \<and> pt_phase s' = PtEnded"
proof (intro exI conjI)
  show "pair_step s (child_stop False s)" using assms by (intro ChildStops) auto
  show "pt_phase (child_stop False s) = PtEnded" using assms by (simp add: child_stop_def Let_def)
qed

text \<open>The run in which the child fails and the parent is told to stop before it answers.\<close>

definition deadlock_state :: pair where
  "deadlock_state =
     pair_init\<lparr>pt_phase := PtAwaitReply, pt_faults := 1, ch_phase := ChAwaitAction, ch_stops := [True]\<rparr>"

lemma deadlock_reached: "pair_step\<^sup>*\<^sup>* pair_init deadlock_state"
proof -
  let ?s1 = "pair_init\<lparr>ch_inner := [True]\<rparr>"
  let ?s2 = "pair_init\<lparr>pt_faults := 1, ch_phase := ChAwaitAction\<rparr>"
  have "pair_step pair_init ?s1" using ChildEmits [of pair_init True] by (simp add: pair_init_def)
  moreover have "pair_step ?s1 ?s2"
    using ChildFails [of ?s1 "[]"] by (simp add: pair_init_def child_fail_def)
  moreover have "pair_step ?s2 (?s2\<lparr>pt_stops := 1\<rparr>)" using StopParent [of ?s2] by (simp add: pair_init_def)
  moreover have "pair_step (?s2\<lparr>pt_stops := 1\<rparr>) deadlock_state"
    using ParentStops [of "?s2\<lparr>pt_stops := 1\<rparr>"]
    by (simp add: pair_init_def parent_stop_def deadlock_state_def Let_def)
  ultimately show ?thesis by (rule steps4)
qed

section \<open>Properties\<close>

text \<open>A parent that stops and waits for its child can still end exactly when the child does not wait
  for the action of the parent. If the child failed just before, each waits for the other: that
  state is reached, and neither of the two tasks ever leaves it.\<close>

theorem parent_stop_completes_iff:
  assumes "pair_step\<^sup>*\<^sup>* pair_init s" "pt_phase s = PtAwaitReply"
  shows "((\<exists>s'. pair_step\<^sup>*\<^sup>* s s' \<and> pt_phase s' = PtEnded) \<longleftrightarrow> ch_phase s \<noteq> ChAwaitAction) \<and>
    (\<exists>d. pair_step\<^sup>*\<^sup>* pair_init d \<and>
       (\<forall>s'. pair_step\<^sup>*\<^sup>* d s' \<longrightarrow> pt_phase s' = PtAwaitReply \<and> ch_phase s' = ChAwaitAction))"
proof
  have inv: "pair_inv s" by (rule pair_inv_reachable [OF assms(1)])
  show "(\<exists>s'. pair_step\<^sup>*\<^sup>* s s' \<and> pt_phase s' = PtEnded) \<longleftrightarrow> ch_phase s \<noteq> ChAwaitAction"
  proof
    assume "\<exists>s'. pair_step\<^sup>*\<^sup>* s s' \<and> pt_phase s' = PtEnded"
    then show "ch_phase s \<noteq> ChAwaitAction"
      using deadlock_stays [of s] assms(2) by (auto simp: deadlocked_def)
  next
    assume "ch_phase s \<noteq> ChAwaitAction"
    with inv assms(2) have "ch_phase s = ChRunning" "True \<in> set (ch_stops s)"
      by (cases "ch_phase s"; simp add: pair_inv_def)+
    from child_answers [OF assms(2) this] show "\<exists>s'. pair_step\<^sup>*\<^sup>* s s' \<and> pt_phase s' = PtEnded" by blast
  qed
  have "deadlocked deadlock_state" by (simp add: deadlocked_def deadlock_state_def)
  then show "\<exists>d. pair_step\<^sup>*\<^sup>* pair_init d \<and>
      (\<forall>s'. pair_step\<^sup>*\<^sup>* d s' \<longrightarrow> pt_phase s' = PtAwaitReply \<and> ch_phase s' = ChAwaitAction)"
    using deadlock_reached deadlock_stays by (auto simp: deadlocked_def)
qed

theorem parent_stop_completes_iff_witness:
  "\<not> (\<exists>s'. pair_step\<^sup>*\<^sup>* deadlock_state s' \<and> pt_phase s' = PtEnded)"
  using parent_stop_completes_iff [OF deadlock_reached] by (simp add: deadlock_state_def)

end
