(* ===== verification/Actor_Network.thy ===== *)
theory Actor_Network
  imports Actor_Runner
begin

text \<open>
  The runners of \<open>src/actor/src/runner.rs\<close> composed: any number of actors in one system, each with its
  parent, that interleave at every await. A step of \<open>runner_step\<close> completes a branch of the select
  loop; here the two branches in which an actor waits for another one are cut at their awaits:
  the stop branch at the replies of the children (\<open>stop_childs\<close> in \<open>src/actor/src/actor.rs\<close>) and the
  \<open>Fail\<close> branch of \<open>inner_handle\<close> at the action of the parent. The operations are those of
  \<open>Actor_Runner\<close>; what an actor sends (reports, stop requests, replies, actions) goes to the channels
  of its receiver, and all share one registry.

  An actor is a number; a number that is not in use is a node whose task has ended. A reply channel
  is a number too (\<open>nw_token\<close> is the next one): the wait on it is over when its sender is gone, used or
  dropped, which is when no task holds it any more (\<open>token_held\<close>).
\<close>

datatype wait =
    NoWait
  | StoppingChilds "nat option"
  | AwaitStopped "nat option" nat nat
  | AwaitAction actor_error "ChildAction option"

record ('a, 'm, 'h, 'e) node =
  nd_runner :: "('a, 'm, 'h, 'e) runner"
  nd_parent :: "nat option"
  nd_wait :: wait

record ('a, 'm, 'h, 'e) network =
  nw_nodes :: "nat \<Rightarrow> ('a, 'm, 'h, 'e) node"
  nw_system :: "'h system_ref"
  nw_token :: nat

section \<open>Access\<close>

definition with_system :: "'h system_ref \<Rightarrow> ('a, 'm, 'h, 'e) runner \<Rightarrow> ('a, 'm, 'h, 'e) runner" where
  "with_system system r = r\<lparr>ru_ctx := (ru_ctx r)\<lparr>cx_system := system\<rparr>\<rparr>"

text \<open>The runner of an actor as it finds the shared system.\<close>

definition runner_at :: "('a, 'm, 'h, 'e) network \<Rightarrow> nat \<Rightarrow> ('a, 'm, 'h, 'e) runner" where
  "runner_at nw i = with_system (nw_system nw) (nd_runner (nw_nodes nw i))"

definition wait_of :: "('a, 'm, 'h, 'e) network \<Rightarrow> nat \<Rightarrow> wait" where
  "wait_of nw i = nd_wait (nw_nodes nw i)"

definition parent_of :: "('a, 'm, 'h, 'e) network \<Rightarrow> nat \<Rightarrow> nat option" where
  "parent_of nw i = nd_parent (nw_nodes nw i)"

definition ended :: "('a, 'm, 'h, 'e) network \<Rightarrow> nat \<Rightarrow> bool" where
  "ended nw i \<longleftrightarrow> ru_end (nd_runner (nw_nodes nw i)) \<noteq> None"

definition put_runner ::
  "nat \<Rightarrow> ('a, 'm, 'h, 'e) runner \<Rightarrow> wait \<Rightarrow> ('a, 'm, 'h, 'e) network \<Rightarrow> ('a, 'm, 'h, 'e) network" where
  "put_runner i r w nw =
     nw\<lparr>nw_nodes := (nw_nodes nw)(i := (nw_nodes nw i)\<lparr>nd_runner := r, nd_wait := w\<rparr>),
        nw_system := cx_system (ru_ctx r)\<rparr>"

definition put_wait :: "nat \<Rightarrow> wait \<Rightarrow> ('a, 'm, 'h, 'e) network \<Rightarrow> ('a, 'm, 'h, 'e) network" where
  "put_wait i w nw = nw\<lparr>nw_nodes := (nw_nodes nw)(i := (nw_nodes nw i)\<lparr>nd_wait := w\<rparr>)\<rparr>"

definition push ::
  "nat \<Rightarrow> (('a, 'm, 'h, 'e) runner \<Rightarrow> ('a, 'm, 'h, 'e) runner) \<Rightarrow> ('a, 'm, 'h, 'e) network \<Rightarrow>
   ('a, 'm, 'h, 'e) network" where
  "push i f nw = nw\<lparr>nw_nodes := (nw_nodes nw)(i := (nw_nodes nw i)\<lparr>nd_runner := f (nd_runner (nw_nodes nw i))\<rparr>)\<rparr>"

section \<open>Messages between actors\<close>

definition add_report :: "ChildError \<Rightarrow> ('a, 'm, 'h, 'e) runner \<Rightarrow> ('a, 'm, 'h, 'e) runner" where
  "add_report err r = r\<lparr>ru_errors := ru_errors r @ [err]\<rparr>"

definition add_stop :: "nat option \<Rightarrow> ('a, 'm, 'h, 'e) runner \<Rightarrow> ('a, 'm, 'h, 'e) runner" where
  "add_stop stop r = r\<lparr>ru_ctx := ctx_stop stop (ru_ctx r)\<rparr>"

text \<open>A report to the parent; the channel of a parent that has ended is closed.\<close>

definition report_parent ::
  "nat \<Rightarrow> ChildError \<Rightarrow> ('a, 'm, 'h, 'e) network \<Rightarrow> ('a, 'm, 'h, 'e) network" where
  "report_parent i err nw =
     (case parent_of nw i of
        Some p \<Rightarrow> if ended nw p then nw else push p (add_report err) nw
      | None \<Rightarrow> nw)"

definition parent_listens :: "('a, 'm, 'h, 'e) network \<Rightarrow> nat \<Rightarrow> bool" where
  "parent_listens nw i = (case parent_of nw i of Some p \<Rightarrow> \<not> ended nw p | None \<Rightarrow> False)"

definition deliver_action ::
  "nat \<Rightarrow> ChildAction \<Rightarrow> ('a, 'm, 'h, 'e) network \<Rightarrow> ('a, 'm, 'h, 'e) network" where
  "deliver_action j action nw =
     (case wait_of nw j of AwaitAction e None \<Rightarrow> put_wait j (AwaitAction e (Some action)) nw | _ \<Rightarrow> nw)"

text \<open>The sender of a reply channel is with the stop request in the queue of the actor, or with the
  stop branch that took it; both are dropped with the task.\<close>

fun stop_of :: "wait \<Rightarrow> nat option" where
  "stop_of (StoppingChilds stop) = stop"
| "stop_of (AwaitStopped stop _ _) = stop"
| "stop_of _ = None"

definition token_held :: "nat \<Rightarrow> nat \<Rightarrow> ('a, 'm, 'h, 'e) network \<Rightarrow> bool" where
  "token_held tok j nw \<longleftrightarrow>
     \<not> ended nw j \<and>
     (Some tok \<in> set (cx_stop (ru_ctx (runner_at nw j))) \<or> stop_of (wait_of nw j) = Some tok)"

section \<open>Steps of an actor in the network\<close>

definition node_turn ::
  "(nat \<Rightarrow> ('a, 'm, 'h, 'e) actor_impl) \<Rightarrow> nat \<Rightarrow> ('a, 'm, 'h, 'e) network \<Rightarrow> ('a, 'm, 'h, 'e) network" where
  "node_turn I i nw = put_runner i (init_turn (I i) (runner_at nw i)) NoWait nw"

text \<open>The stop branch up to the first await of \<open>stop_childs\<close>.\<close>

definition stop_begin ::
  "('a, 'm, 'h, 'e) actor_impl \<Rightarrow> ('a, 'm, 'h, 'e) runner \<Rightarrow> ('a, 'm, 'h, 'e) runner" where
  "stop_begin I r = with_hook (pre_stop I) r stop_failed"

definition take_stop :: "nat option list \<Rightarrow> ('a, 'm, 'h, 'e) runner \<Rightarrow> ('a, 'm, 'h, 'e) runner" where
  "take_stop rest r = r\<lparr>ru_ctx := (ru_ctx r)\<lparr>cx_stop := rest\<rparr>\<rparr>"

definition node_stop ::
  "(nat \<Rightarrow> ('a, 'm, 'h, 'e) actor_impl) \<Rightarrow> nat \<Rightarrow> nat option \<Rightarrow> nat option list \<Rightarrow>
   ('a, 'm, 'h, 'e) network \<Rightarrow> ('a, 'm, 'h, 'e) network" where
  "node_stop I i stop rest nw =
     (let r = stop_begin (I i) (take_stop rest (runner_at nw i))
      in put_runner i r (if ru_end r = None then StoppingChilds stop else NoWait) nw)"

text \<open>One turn of the loop of \<open>stop_childs\<close>: the last child sender is popped; if the child has ended the
  send fails and the loop goes on, otherwise the actor waits for the reply.\<close>

definition pop_child :: "nat \<Rightarrow> ('a, 'm, 'h, 'e) runner \<Rightarrow> ('a, 'm, 'h, 'e) runner" where
  "pop_child j r =
     emit [OutStopChild j] (r\<lparr>ru_ctx := (ru_ctx r)\<lparr>cx_child_senders := butlast (cx_child_senders (ru_ctx r))\<rparr>\<rparr>)"

definition node_stop_child ::
  "nat \<Rightarrow> nat option \<Rightarrow> ('a, 'm, 'h, 'e) network \<Rightarrow> ('a, 'm, 'h, 'e) network" where
  "node_stop_child i stop nw =
     (let r = runner_at nw i; j = last (cx_child_senders (ru_ctx r)); tok = nw_token nw
      in if ended nw j then put_runner i (pop_child j r) (StoppingChilds stop) nw
         else (push j (add_stop (Some tok)) (put_runner i (pop_child j r) (AwaitStopped stop j tok) nw))
           \<lparr>nw_token := Suc tok\<rparr>)"

definition node_stop_done ::
  "nat \<Rightarrow> nat option \<Rightarrow> ('a, 'm, 'h, 'e) network \<Rightarrow> ('a, 'm, 'h, 'e) network" where
  "node_stop_done i stop nw = put_runner i (stop_finish stop (runner_at nw i)) NoWait nw"

text \<open>The branch for reports of children; the action for a failed child is sent to it.\<close>

definition node_error ::
  "(nat \<Rightarrow> ('a, 'm, 'h, 'e) actor_impl) \<Rightarrow> nat \<Rightarrow> ChildError \<Rightarrow> ChildError list \<Rightarrow>
   ('a, 'm, 'h, 'e) network \<Rightarrow> ('a, 'm, 'h, 'e) network" where
  "node_error I i err rest nw =
     (let r = (runner_at nw i)\<lparr>ru_errors := rest\<rparr>;
          nw' = put_runner i (run_child_error (I i) err r) NoWait nw
      in case err of
           ChildErr _ \<Rightarrow> nw'
         | ChildFault e j \<Rightarrow> deliver_action j (fst (on_child_fault (I i) e (ru_actor r, ru_ctx r))) nw')"

definition take_inner :: "'e InnerAction list \<Rightarrow> ('a, 'm, 'h, 'e) runner \<Rightarrow> ('a, 'm, 'h, 'e) runner" where
  "take_inner rest r = r\<lparr>ru_ctx := (ru_ctx r)\<lparr>cx_inner := rest\<rparr>\<rparr>"

text \<open>The branch for inner actions; a failure is reported to a parent that listens, and then awaits its
  action.\<close>

definition node_inner ::
  "nat \<Rightarrow> 'e InnerAction \<Rightarrow> 'e InnerAction list \<Rightarrow> ('a, 'm, 'h, 'e) network \<Rightarrow> ('a, 'm, 'h, 'e) network" where
  "node_inner i action rest nw =
     (let r = take_inner rest (runner_at nw i); nw' = put_runner i (inner_handle None action r) NoWait nw
      in case action of
           InnerEvent _ \<Rightarrow> nw'
         | InnerError e \<Rightarrow> report_parent i (ChildErr e) nw'
         | InnerFail e \<Rightarrow>
             if parent_listens nw i
             then report_parent i (ChildFault e i) (put_runner i r (AwaitAction e None) nw)
             else nw')"

definition node_resume ::
  "nat \<Rightarrow> actor_error \<Rightarrow> ChildAction option \<Rightarrow> ('a, 'm, 'h, 'e) network \<Rightarrow> ('a, 'm, 'h, 'e) network" where
  "node_resume i e answer nw = put_runner i (inner_handle answer (InnerFail e) (runner_at nw i)) NoWait nw"

definition node_msg ::
  "(nat \<Rightarrow> ('a, 'm, 'h, 'e) actor_impl) \<Rightarrow> nat \<Rightarrow> 'm \<Rightarrow> 'm list \<Rightarrow> ('a, 'm, 'h, 'e) network \<Rightarrow>
   ('a, 'm, 'h, 'e) network" where
  "node_msg I i msg rest nw = put_runner i (run_msg (I i) msg ((runner_at nw i)\<lparr>ru_receiver := rest\<rparr>)) NoWait nw"

definition node_msg_none :: "nat \<Rightarrow> ('a, 'm, 'h, 'e) network \<Rightarrow> ('a, 'm, 'h, 'e) network" where
  "node_msg_none i nw = put_runner i (request_stop (runner_at nw i)) NoWait nw"

text \<open>An actor that has not ended and does not wait; inside the select loop, and with all branches open.\<close>

definition active :: "('a, 'm, 'h, 'e) network \<Rightarrow> nat \<Rightarrow> bool" where
  "active nw i \<longleftrightarrow> \<not> ended nw i \<and> wait_of nw i = NoWait"

definition selecting :: "('a, 'm, 'h, 'e) network \<Rightarrow> nat \<Rightarrow> bool" where
  "selecting nw i \<longleftrightarrow> active nw i \<and> ru_running (runner_at nw i)"

definition serving :: "('a, 'm, 'h, 'e) network \<Rightarrow> nat \<Rightarrow> bool" where
  "serving nw i \<longleftrightarrow> selecting nw i \<and> \<not> ru_stop_signal (runner_at nw i)"

inductive net_step ::
  "(nat \<Rightarrow> ('a, 'm, 'h, 'e) actor_impl) \<Rightarrow> ('a, 'm, 'h, 'e) network \<Rightarrow> ('a, 'm, 'h, 'e) network \<Rightarrow> bool"
  for I :: "nat \<Rightarrow> ('a, 'm, 'h, 'e) actor_impl" where
  NetTurn: "active nw i \<Longrightarrow> \<not> ru_running (runner_at nw i) \<Longrightarrow> net_step I nw (node_turn I i nw)"
| NetStop: "selecting nw i \<Longrightarrow> cx_stop (ru_ctx (runner_at nw i)) = stop # rest \<Longrightarrow>
     net_step I nw (node_stop I i stop rest nw)"
| NetStopChild: "\<not> ended nw i \<Longrightarrow> wait_of nw i = StoppingChilds stop \<Longrightarrow>
     cx_child_senders (ru_ctx (runner_at nw i)) \<noteq> [] \<Longrightarrow> net_step I nw (node_stop_child i stop nw)"
| NetStopReply: "\<not> ended nw i \<Longrightarrow> wait_of nw i = AwaitStopped stop j tok \<Longrightarrow> \<not> token_held tok j nw \<Longrightarrow>
     net_step I nw (put_wait i (StoppingChilds stop) nw)"
| NetStopDone: "\<not> ended nw i \<Longrightarrow> wait_of nw i = StoppingChilds stop \<Longrightarrow>
     cx_child_senders (ru_ctx (runner_at nw i)) = [] \<Longrightarrow> net_step I nw (node_stop_done i stop nw)"
| NetError: "serving nw i \<Longrightarrow> ru_errors (runner_at nw i) = err # rest \<Longrightarrow>
     net_step I nw (node_error I i err rest nw)"
| NetInner: "serving nw i \<Longrightarrow> cx_inner (ru_ctx (runner_at nw i)) = action # rest \<Longrightarrow>
     net_step I nw (node_inner i action rest nw)"
| NetResume: "\<not> ended nw i \<Longrightarrow> wait_of nw i = AwaitAction e (Some action) \<Longrightarrow>
     net_step I nw (node_resume i e (Some action) nw)"
| NetDropped: "\<not> ended nw i \<Longrightarrow> wait_of nw i = AwaitAction e None \<Longrightarrow> \<not> parent_listens nw i \<Longrightarrow>
     net_step I nw (node_resume i e None nw)"
| NetMsg: "serving nw i \<Longrightarrow> ru_receiver (runner_at nw i) = msg # rest \<Longrightarrow>
     net_step I nw (node_msg I i msg rest nw)"
| NetMsgNone: "serving nw i \<Longrightarrow> ru_receiver (runner_at nw i) = [] \<Longrightarrow> \<not> ru_handles (runner_at nw i) \<Longrightarrow>
     net_step I nw (node_msg_none i nw)"

text \<open>What comes from outside: messages, stop requests with and without a reply, references dropped.\<close>

definition ext_stop :: "nat \<Rightarrow> bool \<Rightarrow> ('a, 'm, 'h, 'e) network \<Rightarrow> ('a, 'm, 'h, 'e) network" where
  "ext_stop i reply nw =
     (if reply then (push i (add_stop (Some (nw_token nw))) nw)\<lparr>nw_token := Suc (nw_token nw)\<rparr>
      else push i (add_stop None) nw)"

inductive net_arrival :: "('a, 'm, 'h, 'e) network \<Rightarrow> ('a, 'm, 'h, 'e) network \<Rightarrow> bool" where
  ExtMsg: "\<not> ended nw i \<Longrightarrow> \<not> ru_closed (runner_at nw i) \<Longrightarrow>
     net_arrival nw (push i (\<lambda>r. r\<lparr>ru_receiver := ru_receiver r @ [msg]\<rparr>) nw)"
| ExtStop: "\<not> ended nw i \<Longrightarrow> net_arrival nw (ext_stop i reply nw)"
| ExtDrop: "\<not> ended nw i \<Longrightarrow> net_arrival nw (push i (\<lambda>r. r\<lparr>ru_handles := False\<rparr>) nw)"

definition net_any ::
  "(nat \<Rightarrow> ('a, 'm, 'h, 'e) actor_impl) \<Rightarrow> ('a, 'm, 'h, 'e) network \<Rightarrow> ('a, 'm, 'h, 'e) network \<Rightarrow> bool" where
  "net_any I nw nw' \<longleftrightarrow> net_step I nw nw' \<or> net_arrival nw nw'"

inductive_cases net_stepE: "net_step I nw nw'"
inductive_cases net_arrivalE: "net_arrival nw nw'"

section \<open>Reading a network after an update\<close>

lemma with_system_simps [simp]:
  "with_system s (with_system t r) = with_system s r"
  "with_system (cx_system (ru_ctx r)) r = r"
  "cx_system (ru_ctx (with_system s r)) = s"
  "ru_end (with_system s r) = ru_end r" "ru_running (with_system s r) = ru_running r"
  "ru_lifecycle (with_system s r) = ru_lifecycle r" "ru_stop_signal (with_system s r) = ru_stop_signal r"
  "ru_parent (with_system s r) = ru_parent r" "ru_receiver (with_system s r) = ru_receiver r"
  "ru_errors (with_system s r) = ru_errors r" "ru_closed (with_system s r) = ru_closed r"
  "ru_handles (with_system s r) = ru_handles r" "ru_out (with_system s r) = ru_out r"
  "ru_actor (with_system s r) = ru_actor r" "ru_init_sender (with_system s r) = ru_init_sender r"
  "cx_stop (ru_ctx (with_system s r)) = cx_stop (ru_ctx r)"
  "cx_inner (ru_ctx (with_system s r)) = cx_inner (ru_ctx r)"
  "cx_error (ru_ctx (with_system s r)) = cx_error (ru_ctx r)"
  "cx_path (ru_ctx (with_system s r)) = cx_path (ru_ctx r)"
  "cx_child_senders (ru_ctx (with_system s r)) = cx_child_senders (ru_ctx r)"
  by (simp_all add: with_system_def)

abbreviation runner_of :: "('a, 'm, 'h, 'e) network \<Rightarrow> nat \<Rightarrow> ('a, 'm, 'h, 'e) runner" where
  "runner_of nw i \<equiv> nd_runner (nw_nodes nw i)"

lemma put_runner_simps [simp]:
  "wait_of (put_runner i r w nw) j = (if j = i then w else wait_of nw j)"
  "parent_of (put_runner i r w nw) j = parent_of nw j"
  "ended (put_runner i r w nw) j = (if j = i then ru_end r \<noteq> None else ended nw j)"
  "runner_of (put_runner i r w nw) j = (if j = i then r else runner_of nw j)"
  "nw_system (put_runner i r w nw) = cx_system (ru_ctx r)"
  "nw_token (put_runner i r w nw) = nw_token nw"
  by (simp_all add: put_runner_def wait_of_def parent_of_def ended_def)

lemma put_wait_simps [simp]:
  "wait_of (put_wait i w nw) j = (if j = i then w else wait_of nw j)"
  "parent_of (put_wait i w nw) j = parent_of nw j"
  "ended (put_wait i w nw) j = ended nw j"
  "runner_of (put_wait i w nw) j = runner_of nw j"
  "nw_system (put_wait i w nw) = nw_system nw"
  "nw_token (put_wait i w nw) = nw_token nw"
  by (simp_all add: put_wait_def wait_of_def parent_of_def ended_def)

lemma push_simps [simp]:
  "wait_of (push i f nw) j = wait_of nw j"
  "parent_of (push i f nw) j = parent_of nw j"
  "ended (push i f nw) j = (if j = i then ru_end (f (runner_of nw i)) \<noteq> None else ended nw j)"
  "runner_of (push i f nw) j = (if j = i then f (runner_of nw i) else runner_of nw j)"
  "nw_system (push i f nw) = nw_system nw"
  "nw_token (push i f nw) = nw_token nw"
  by (simp_all add: push_def wait_of_def parent_of_def ended_def)

lemma token_simps [simp]:
  "wait_of (nw\<lparr>nw_token := t\<rparr>) j = wait_of nw j" "parent_of (nw\<lparr>nw_token := t\<rparr>) j = parent_of nw j"
  "ended (nw\<lparr>nw_token := t\<rparr>) j = ended nw j"
  by (simp_all add: wait_of_def parent_of_def ended_def)

lemma add_simps [simp]:
  "ru_end (add_stop stop r) = ru_end r" "ru_end (add_report err r) = ru_end r"
  "ru_end (take_stop rest r) = ru_end r" "ru_end (take_inner xs r) = ru_end r"
  "ru_end (pop_child j r) = ru_end r" "ru_end (stop_finish stop r) = ru_end r"
  "ru_end (stop_failed res r) = ru_end r" "ru_end (request_stop r) = ru_end r"
  "ru_end (inner_handle answer action r) = ru_end r" "ru_end (run_child_error I err r) = ru_end r"
  by (auto simp: add_stop_def add_report_def take_stop_def take_inner_def pop_child_def inner_handle_def
      run_child_error_def runner_helpers split: outcome.split InnerAction.split option.split ChildAction.split
      ChildError.split)

section \<open>Every actor of a network behaves as a runner\<close>

text \<open>The rest of the stop branch, and an actor of the network as a state of \<open>runner_step\<close>: one that
  waits for its children has done its stop branch, one that waits for the action of its parent has
  still to take the failure from its queue.\<close>

definition stop_rest :: "nat option \<Rightarrow> ('a, 'm, 'h, 'e) runner \<Rightarrow> ('a, 'm, 'h, 'e) runner" where
  "stop_rest stop r =
     (let (children, c) = ctx_stop_childs (ru_ctx r)
      in stop_finish stop (emit (map OutStopChild children) (r\<lparr>ru_ctx := c\<rparr>)))"

definition put_back :: "actor_error \<Rightarrow> ('a, 'm, 'h, 'e) runner \<Rightarrow> ('a, 'm, 'h, 'e) runner" where
  "put_back e r = r\<lparr>ru_ctx := (ru_ctx r)\<lparr>cx_inner := InnerFail e # cx_inner (ru_ctx r)\<rparr>\<rparr>"

fun after_wait :: "wait \<Rightarrow> ('a, 'm, 'h, 'e) runner \<Rightarrow> ('a, 'm, 'h, 'e) runner" where
  "after_wait NoWait r = r"
| "after_wait (StoppingChilds stop) r = stop_rest stop r"
| "after_wait (AwaitStopped stop _ _) r = stop_rest stop r"
| "after_wait (AwaitAction e _) r = put_back e r"

definition as_runner :: "('a, 'm, 'h, 'e) network \<Rightarrow> nat \<Rightarrow> ('a, 'm, 'h, 'e) runner" where
  "as_runner nw i =
     (if ended nw i then runner_of nw i
      else with_system (nw_system nw) (after_wait (wait_of nw i) (runner_of nw i)))"

lemma run_stop_split:
  "ru_end r = None \<Longrightarrow>
   run_stop I stop r = (let r' = stop_begin I r in if ru_end r' = None then stop_rest stop r' else r')"
  by (simp add: run_stop_def stop_begin_def stop_rest_def with_hook_def Let_def split_beta panic_end_def)

lemma stop_rest_end [simp]: "ru_end (stop_rest stop r) = ru_end r"
  by (simp add: stop_rest_def split_beta emit_def)

lemma after_wait_end [simp]: "ru_end (after_wait w r) = ru_end r"
  by (cases w) (simp_all add: put_back_def)

lemma as_runner_end: "ru_end (as_runner nw i) = ru_end (runner_of nw i)"
  by (simp add: as_runner_def)

lemma as_runner_active: "active nw i \<Longrightarrow> as_runner nw i = runner_at nw i"
  by (simp add: active_def as_runner_def runner_at_def)

lemma stop_rest_eq:
  "stop_rest stop r =
     r\<lparr>ru_lifecycle := (if cx_error (ru_ctx r) \<noteq> None then Failed
                        else if ru_lifecycle r = Started then Stopped else ru_lifecycle r),
       ru_running := False,
       ru_out := ru_out r @ map OutStopChild (rev (cx_child_senders (ru_ctx r))) @
                   (case stop of Some i \<Rightarrow> [OutStopReply i] | None \<Rightarrow> []),
       ru_ctx := (ru_ctx r)\<lparr>cx_child_senders := [],
                   cx_system := remove_actor (cx_path (ru_ctx r)) (cx_system (ru_ctx r))\<rparr>\<rparr>"
  by (simp add: stop_rest_def ctx_stop_childs_def ctx_remove_actor_def runner_helpers split: option.split)

lemma with_system_stop_rest: "with_system s (stop_rest stop (with_system t r)) = with_system s (stop_rest stop r)"
  by (simp add: stop_rest_eq with_system_def)

lemma with_system_put_back: "with_system s (put_back e (with_system t r)) = with_system s (put_back e r)"
  by (simp add: put_back_def with_system_def)

lemma with_system_after: "with_system s (after_wait w (with_system t r)) = with_system s (after_wait w r)"
  by (cases w) (simp_all add: with_system_stop_rest with_system_put_back)

text \<open>A push to a queue commutes with the reading of the actor.\<close>

definition queue_op :: "(('a, 'm, 'h, 'e) runner \<Rightarrow> ('a, 'm, 'h, 'e) runner) \<Rightarrow> bool" where
  "queue_op f \<longleftrightarrow> (\<forall>r. ru_end (f r) = ru_end r) \<and> (\<forall>s r. with_system s (f r) = f (with_system s r)) \<and>
     (\<forall>w r. after_wait w (f r) = f (after_wait w r))"

lemma queue_opI:
  assumes "\<And>r. ru_end (f r) = ru_end r" "\<And>s r. with_system s (f r) = f (with_system s r)"
    and "\<And>stop r. stop_rest stop (f r) = f (stop_rest stop r)" "\<And>e r. put_back e (f r) = f (put_back e r)"
  shows "queue_op f"
proof -
  have "after_wait w (f r) = f (after_wait w r)" for w r by (cases w) (simp_all add: assms)
  with assms(1,2) show ?thesis by (simp add: queue_op_def)
qed

lemma queue_ops:
  "queue_op (add_stop stop)" "queue_op (add_report err)"
  "queue_op (\<lambda>r. r\<lparr>ru_receiver := ru_receiver r @ [msg]\<rparr>)" "queue_op (\<lambda>r. r\<lparr>ru_handles := False\<rparr>)"
  by (rule queue_opI; simp add: add_stop_def add_report_def with_system_def put_back_def stop_rest_eq
      ctx_stop_def)+

lemma as_runner_push: "queue_op f \<Longrightarrow> as_runner (push i f nw) j = (if j = i then f (as_runner nw j) else as_runner nw j)"
  by (simp add: as_runner_def queue_op_def ended_def)

lemma as_runner_token [simp]: "as_runner (nw\<lparr>nw_token := t\<rparr>) j = as_runner nw j"
  by (simp add: as_runner_def)

lemma as_runner_put:
  "as_runner (put_runner i r w nw) j =
     (if j = i then (if ru_end r \<noteq> None then r else with_system (cx_system (ru_ctx r)) (after_wait w r))
      else if ended nw j then as_runner nw j
      else with_system (cx_system (ru_ctx r)) (as_runner nw j))"
  by (simp add: as_runner_def)

lemma as_runner_put_NoWait [simp]: "as_runner (put_runner i r NoWait nw) i = r"
  by (simp add: as_runner_put)

lemma step_system: "(runner_step I)\<^sup>*\<^sup>* r (with_system s r)" if "ru_end r = None"
  using SystemChanges [OF that, of I s] by (simp add: with_system_def r_into_rtranclp)

lemma step_put_other:
  assumes "j \<noteq> i"
  shows "(runner_step I)\<^sup>*\<^sup>* (as_runner nw j) (as_runner (put_runner i r w nw) j)"
  using assms step_system [of "as_runner nw j" I] by (simp add: as_runner_put as_runner_end ended_def)

text \<open>An update of one actor followed by a push to another one.\<close>

lemma step_push:
  assumes "(runner_step I)\<^sup>*\<^sup>* r (as_runner nw j)" "queue_op f"
    and "\<And>r. ru_end r = None \<Longrightarrow> runner_step I r (f r)" "\<not> ended nw i"
  shows "(runner_step I)\<^sup>*\<^sup>* r (as_runner (push i f nw) j)"
proof (cases "j = i")
  case True
  then have "runner_step I (as_runner nw j) (f (as_runner nw j))"
    using assms(3,4) by (simp add: as_runner_end ended_def)
  with assms(1,2) True show ?thesis by (simp add: as_runner_push)
qed (use assms in \<open>simp add: as_runner_push\<close>)

lemma step_report: "ru_end r = None \<Longrightarrow> runner_step I r (add_report err r)"
  by (simp add: add_report_def ChildReports)

lemma step_add_stop: "ru_end r = None \<Longrightarrow> runner_step I r (add_stop stop r)"
  by (simp add: add_stop_def StopArrives)

lemma step_report_parent:
  assumes "(runner_step I)\<^sup>*\<^sup>* r (as_runner nw j)"
  shows "(runner_step I)\<^sup>*\<^sup>* r (as_runner (report_parent i err nw) j)"
  using step_push [OF assms queue_ops(2) step_report] assms by (auto simp: report_parent_def split: option.split)

lemma as_runner_deliver [simp]: "as_runner (deliver_action i action nw) j = as_runner nw j"
  by (auto simp: as_runner_def deliver_action_def split: wait.split option.split)

text \<open>Parents are known to the runner and to the network alike; an actor that awaits an action is inside
  the select loop with its stop signal clear.\<close>

fun awaits_action :: "wait \<Rightarrow> bool" where
  "awaits_action (AwaitAction _ _) = True"
| "awaits_action _ = False"

definition net_wf :: "('a, 'm, 'h, 'e) network \<Rightarrow> bool" where
  "net_wf nw \<longleftrightarrow> (\<forall>i. (ru_parent (runner_of nw i) \<longleftrightarrow> parent_of nw i \<noteq> None) \<and>
     (awaits_action (wait_of nw i) \<longrightarrow>
        ru_running (runner_of nw i) \<and> \<not> ru_stop_signal (runner_of nw i) \<and> parent_of nw i \<noteq> None))"

lemma stop_parts_parent [simp]:
  "ru_parent (stop_begin I r) = ru_parent r" "ru_parent (stop_finish stop r) = ru_parent r"
  "ru_parent (take_stop rest r) = ru_parent r" "ru_parent (pop_child j r) = ru_parent r"
  "ru_parent (take_inner xs r) = ru_parent r" "ru_parent (init_turn I r) = ru_parent r"
  by (auto simp: stop_begin_def with_hook_def take_stop_def pop_child_def take_inner_def init_turn_keeps
      runner_helpers split: outcome.split)

lemma net_wf_put:
  assumes "net_wf nw" "ru_parent r = ru_parent (runner_of nw i)"
    and "awaits_action w \<Longrightarrow> ru_running r \<and> \<not> ru_stop_signal r \<and> parent_of nw i \<noteq> None"
  shows "net_wf (put_runner i r w nw)"
  using assms by (auto simp: net_wf_def)

lemma net_wf_push:
  assumes "net_wf nw" "\<And>r. ru_parent (f r) = ru_parent r" "\<And>r. ru_running (f r) = ru_running r"
    "\<And>r. ru_stop_signal (f r) = ru_stop_signal r"
  shows "net_wf (push i f nw)"
  using assms by (auto simp: net_wf_def)

lemma net_wf_token [simp]: "net_wf (nw\<lparr>nw_token := t\<rparr>) = net_wf nw"
  by (simp add: net_wf_def)

lemma net_wf_messages:
  "net_wf nw \<Longrightarrow> net_wf (push i (add_stop stop) nw)"
  "net_wf nw \<Longrightarrow> net_wf (report_parent i err nw)"
  "net_wf nw \<Longrightarrow> net_wf (deliver_action i action nw)"
proof -
  assume wf: "net_wf nw"
  show "net_wf (push i (add_stop stop) nw)"
    by (rule net_wf_push [OF wf]) (simp_all add: add_stop_def)
  show "net_wf (report_parent i err nw)"
    using wf by (auto simp: report_parent_def add_report_def intro!: net_wf_push split: option.split)
  show "net_wf (deliver_action i action nw)"
    using wf by (auto simp: net_wf_def deliver_action_def split: wait.splits option.split)
qed

lemmas node_ops = node_turn_def node_stop_def node_stop_child_def node_stop_done_def node_error_def
  node_inner_def node_resume_def node_msg_def node_msg_none_def

lemma net_wf_step: "net_step I nw nw' \<Longrightarrow> net_wf nw \<Longrightarrow> net_wf nw'"
proof (induction rule: net_step.induct)
  case (NetError nw i err rest)
  then show ?case
    by (auto simp: node_error_def Let_def runner_at_def other_branches_parent
        intro!: net_wf_put net_wf_messages split: ChildError.split)
next
  case (NetInner nw i action rest)
  then show ?case
    by (auto simp: node_inner_def Let_def runner_at_def other_branches_parent serving_def selecting_def
        take_inner_def parent_listens_def intro!: net_wf_put net_wf_messages split: InnerAction.split option.split)
next
  case (NetStopReply nw i stop j tok)
  then show ?case by (auto simp: net_wf_def)
qed (auto simp: node_ops Let_def runner_at_def other_branches_parent intro!: net_wf_put net_wf_messages)

lemma net_wf_arrival: "net_arrival nw nw' \<Longrightarrow> net_wf nw \<Longrightarrow> net_wf nw'"
  by (induction rule: net_arrival.induct) (auto simp: ext_stop_def intro: net_wf_push net_wf_messages)

text \<open>A step of the network is, for each of its actors, a few steps of its runner or none.\<close>

lemma stop_rest_pop:
  assumes "cx_child_senders (ru_ctx r) \<noteq> []"
  shows "stop_rest stop (pop_child (last (cx_child_senders (ru_ctx r))) r) = stop_rest stop r"
proof -
  obtain xs x where "cx_child_senders (ru_ctx r) = xs @ [x]" using assms by (metis rev_exhaust)
  then show ?thesis
    by (simp add: stop_rest_eq pop_child_def emit_def)
qed

lemma no_child_senders:
  "cx_child_senders (ru_ctx r) = [] \<Longrightarrow> r\<lparr>ru_ctx := (ru_ctx r)\<lparr>cx_child_senders := []\<rparr>\<rparr> = r"
  by (intro runner.equality ActorContext.equality) simp_all

lemma stop_rest_none: "cx_child_senders (ru_ctx r) = [] \<Longrightarrow> stop_rest stop r = stop_finish stop r"
  by (simp add: stop_rest_def ctx_stop_childs_def emit_def no_child_senders)

lemma runner_at_simps [simp]:
  "cx_system (ru_ctx (runner_at nw i)) = nw_system nw"
  "ru_end (runner_at nw i) = ru_end (runner_of nw i)" "ru_running (runner_at nw i) = ru_running (runner_of nw i)"
  "ru_lifecycle (runner_at nw i) = ru_lifecycle (runner_of nw i)"
  "ru_stop_signal (runner_at nw i) = ru_stop_signal (runner_of nw i)"
  "ru_parent (runner_at nw i) = ru_parent (runner_of nw i)"
  "ru_receiver (runner_at nw i) = ru_receiver (runner_of nw i)" "ru_errors (runner_at nw i) = ru_errors (runner_of nw i)"
  "ru_closed (runner_at nw i) = ru_closed (runner_of nw i)" "ru_handles (runner_at nw i) = ru_handles (runner_of nw i)"
  "cx_stop (ru_ctx (runner_at nw i)) = cx_stop (ru_ctx (runner_of nw i))"
  "cx_inner (ru_ctx (runner_at nw i)) = cx_inner (ru_ctx (runner_of nw i))"
  "cx_error (ru_ctx (runner_at nw i)) = cx_error (ru_ctx (runner_of nw i))"
  "cx_path (ru_ctx (runner_at nw i)) = cx_path (ru_ctx (runner_of nw i))"
  "cx_child_senders (ru_ctx (runner_at nw i)) = cx_child_senders (ru_ctx (runner_of nw i))"
  by (simp_all add: runner_at_def)

lemma node_step:
  assumes "active nw i" "runner_step I (runner_at nw i) r"
  shows "(runner_step I)\<^sup>*\<^sup>* (as_runner nw i) (as_runner (put_runner i r NoWait nw) i)"
  using assms by (simp add: as_runner_active r_into_rtranclp)

lemma put_step:
  assumes "(runner_step (I i))\<^sup>*\<^sup>* (as_runner nw i) (as_runner (put_runner i r w nw) i)"
  shows "(runner_step (I j))\<^sup>*\<^sup>* (as_runner nw j) (as_runner (put_runner i r w nw) j)"
  using assms step_put_other [of j i] by (cases "j = i") auto

lemma resume_step:
  assumes wf: "net_wf nw" and "\<not> ended nw i" "wait_of nw i = AwaitAction e a"
  shows "(runner_step I)\<^sup>*\<^sup>* (as_runner nw i)
    (as_runner (put_runner i (inner_handle answer (InnerFail e) (runner_at nw i)) NoWait nw) i)"
proof -
  let ?r = "as_runner nw i"
  have r: "?r = with_system (nw_system nw) (put_back e (runner_of nw i))" using assms by (simp add: as_runner_def)
  have s: "ru_running (runner_of nw i) \<and> \<not> ru_stop_signal (runner_of nw i)"
    using wf [unfolded net_wf_def, rule_format, of i] assms(3) by simp
  have "runner_step I ?r (inner_handle answer (InnerFail e)
      (?r\<lparr>ru_ctx := (ru_ctx ?r)\<lparr>cx_inner := cx_inner (ru_ctx (runner_of nw i))\<rparr>\<rparr>))"
    by (rule InnerBranch) (use assms(2) r s in \<open>auto simp: put_back_def ended_def\<close>)
  moreover have "?r\<lparr>ru_ctx := (ru_ctx ?r)\<lparr>cx_inner := cx_inner (ru_ctx (runner_of nw i))\<rparr>\<rparr> = runner_at nw i"
    by (simp add: r put_back_def runner_at_def with_system_def)
  ultimately show ?thesis by (simp add: r_into_rtranclp)
qed

lemma stop_step:
  assumes sel: "selecting nw i" and q: "cx_stop (ru_ctx (runner_at nw i)) = stop # rest"
  shows "(runner_step (I i))\<^sup>*\<^sup>* (as_runner nw i) (as_runner (node_stop I i stop rest nw) i)"
proof -
  let ?r = "runner_at nw i" and ?b = "stop_begin (I i) (take_stop rest (runner_at nw i))"
  have r: "as_runner nw i = ?r" "ru_end ?r = None" "ru_running ?r"
    using sel by (simp_all add: selecting_def active_def as_runner_active ended_def)
  have step: "runner_step (I i) ?r (run_stop (I i) stop (take_stop rest ?r))"
    using StopBranch [OF r(2,3) q, of "I i"] by (simp add: take_stop_def)
  have split: "run_stop (I i) stop (take_stop rest ?r) = (if ru_end ?b = None then stop_rest stop ?b else ?b)"
    using run_stop_split [of "take_stop rest ?r" "I i" stop] r(2) by (simp add: Let_def)
  show ?thesis
  proof (cases "ru_end ?b = None")
    case True
    then have "(runner_step (I i))\<^sup>*\<^sup>* (stop_rest stop ?b) (as_runner (node_stop I i stop rest nw) i)"
      by (simp add: node_stop_def Let_def as_runner_put step_system)
    with step split True r(1) show ?thesis by (simp add: converse_rtranclp_into_rtranclp)
  next
    case False
    have "runner_step (I i) ?r ?b" using step unfolding split if_not_P [OF False] .
    moreover have "as_runner (node_stop I i stop rest nw) i = ?b" using False by (auto simp: node_stop_def Let_def)
    ultimately show ?thesis using r(1) by (simp add: r_into_rtranclp)
  qed
qed

lemma stop_done_step:
  assumes "\<not> ended nw i" "wait_of nw i = StoppingChilds stop" "cx_child_senders (ru_ctx (runner_at nw i)) = []"
  shows "(runner_step I)\<^sup>*\<^sup>* (as_runner nw i) (as_runner (node_stop_done i stop nw) i)"
proof -
  let ?r = "stop_finish stop (runner_at nw i)"
  have a: "as_runner nw i = with_system (nw_system nw) (stop_rest stop (runner_at nw i))"
    using assms(1,2) by (simp add: as_runner_def runner_at_def with_system_stop_rest)
  then have "with_system (cx_system (ru_ctx ?r)) (as_runner nw i) = ?r"
    using assms(3) by (simp add: stop_rest_none)
  moreover have "ru_end (as_runner nw i) = None" using assms(1) by (simp add: as_runner_end ended_def)
  ultimately have "(runner_step I)\<^sup>*\<^sup>* (as_runner nw i) ?r" using step_system [of "as_runner nw i" I] by metis
  then show ?thesis by (simp add: node_stop_done_def)
qed

lemma stop_child_step:
  assumes "\<not> ended nw i" "wait_of nw i = StoppingChilds stop" "cx_child_senders (ru_ctx (runner_at nw i)) \<noteq> []"
  shows "(runner_step (I j))\<^sup>*\<^sup>* (as_runner nw j) (as_runner (node_stop_child i stop nw) j)"
proof -
  let ?r = "runner_at nw i" and ?c = "last (cx_child_senders (ru_ctx (runner_at nw i)))"
  have pop: "after_wait w (pop_child ?c ?r) = stop_rest stop ?r"
    if "w = StoppingChilds stop \<or> (\<exists>k t. w = AwaitStopped stop k t)" for w
    using that stop_rest_pop [OF assms(3), of stop] by auto
  have sys: "cx_system (ru_ctx (pop_child ?c ?r)) = nw_system nw" "ru_end ?r = None"
    using assms(1) by (simp_all add: pop_child_def emit_def runner_at_def ended_def)
  have same: "as_runner (put_runner i (pop_child ?c ?r) w nw) i = as_runner nw i"
    if "w = StoppingChilds stop \<or> (\<exists>k t. w = AwaitStopped stop k t)" for w
  proof -
    have "as_runner (put_runner i (pop_child ?c ?r) w nw) i = with_system (nw_system nw) (stop_rest stop ?r)"
      using pop [OF that] sys by (simp add: as_runner_put)
    also have "\<dots> = as_runner nw i"
      using assms(1,2) by (simp add: as_runner_def runner_at_def with_system_stop_rest)
    finally show ?thesis .
  qed
  have put: "(runner_step (I j))\<^sup>*\<^sup>* (as_runner nw j) (as_runner (put_runner i (pop_child ?c ?r) w nw) j)"
    if "w = StoppingChilds stop \<or> (\<exists>k t. w = AwaitStopped stop k t)" for w
    by (rule put_step [where I = I]) (simp only: same [OF that] rtranclp.rtrancl_refl)
  show ?thesis
  proof (cases "ended nw ?c")
    case True
    with put [of "StoppingChilds stop"] show ?thesis by (simp add: node_stop_child_def Let_def)
  next
    case False
    let ?nw = "put_runner i (pop_child ?c ?r) (AwaitStopped stop ?c (nw_token nw)) nw"
    have "\<not> ended ?nw ?c" using False sys(2) by simp
    then have "(runner_step (I j))\<^sup>*\<^sup>* (as_runner nw j) (as_runner (push ?c (add_stop (Some (nw_token nw))) ?nw) j)"
      by (intro step_push put queue_ops step_add_stop) simp_all
    with False show ?thesis by (simp add: node_stop_child_def Let_def)
  qed
qed

lemma net_step_runner_step:
  assumes "net_step I nw nw'" "net_wf nw"
  shows "(runner_step (I j))\<^sup>*\<^sup>* (as_runner nw j) (as_runner nw' j)"
  using assms
proof (induction rule: net_step.induct)
  case (NetTurn nw i)
  then have "runner_step (I i) (runner_at nw i) (init_turn (I i) (runner_at nw i))"
    by (intro Turn) (simp_all add: active_def ended_def)
  from put_step [where I = I, OF node_step [OF NetTurn(1) this]] show ?case by (simp add: node_turn_def)
next
  case (NetStop nw i stop rest)
  from put_step [where I = I, OF stop_step [OF NetStop(1,2), of I, unfolded node_stop_def Let_def]]
  show ?case by (simp add: node_stop_def Let_def)
next
  case (NetStopChild nw i stop)
  then show ?case by (intro stop_child_step)
next
  case (NetStopReply nw i stop k tok)
  then have "as_runner (put_wait i (StoppingChilds stop) nw) j = as_runner nw j" by (auto simp: as_runner_def)
  then show ?case by simp
next
  case (NetStopDone nw i stop)
  from put_step [where I = I, OF stop_done_step [OF NetStopDone(1,2,3), of "I i", unfolded node_stop_done_def]]
  show ?case by (simp add: node_stop_done_def)
next
  case (NetError nw i err rest)
  then have "runner_step (I i) (runner_at nw i) (run_child_error (I i) err ((runner_at nw i)\<lparr>ru_errors := rest\<rparr>))"
    by (intro ErrorBranch) (simp_all add: serving_def selecting_def active_def ended_def)
  with NetError have "(runner_step (I j))\<^sup>*\<^sup>* (as_runner nw j)
      (as_runner (put_runner i (run_child_error (I i) err ((runner_at nw i)\<lparr>ru_errors := rest\<rparr>)) NoWait nw) j)"
    by (intro put_step [where I = I, OF node_step]) (simp_all add: serving_def selecting_def)
  then show ?case by (cases err) (simp_all add: node_error_def Let_def)
next
  case (NetInner nw i action rest)
  then have act: "active nw i" by (simp add: serving_def selecting_def)
  have "runner_step (I i) (runner_at nw i) (inner_handle None action (take_inner rest (runner_at nw i)))"
    unfolding take_inner_def using NetInner
    by (intro InnerBranch) (simp_all add: serving_def selecting_def active_def ended_def)
  then have put: "(runner_step (I j))\<^sup>*\<^sup>* (as_runner nw j)
      (as_runner (put_runner i (inner_handle None action (take_inner rest (runner_at nw i))) NoWait nw) j)"
    by (rule put_step [where I = I, OF node_step, OF act])
  show ?case
  proof (cases action)
    case (InnerFail e)
    have "put_back e (take_inner rest (runner_at nw i)) = runner_at nw i"
      using NetInner(2) InnerFail
      by (intro runner.equality ActorContext.equality) (simp_all add: put_back_def take_inner_def)
    then have same: "as_runner (put_runner i (take_inner rest (runner_at nw i)) (AwaitAction e None) nw) i = as_runner nw i"
      using act by (simp add: as_runner_put as_runner_active active_def take_inner_def runner_at_def ended_def)
    have "(runner_step (I j))\<^sup>*\<^sup>* (as_runner nw j)
        (as_runner (put_runner i (take_inner rest (runner_at nw i)) (AwaitAction e None) nw) j)"
      by (rule put_step [where I = I]) (simp only: same rtranclp.rtrancl_refl)
    from step_report_parent [OF this] put InnerFail show ?thesis by (simp add: node_inner_def Let_def)
  qed (use put step_report_parent [OF put] in \<open>simp_all add: node_inner_def Let_def\<close>)
next
  case (NetResume nw i e action)
  then show ?case unfolding node_resume_def by (intro put_step [where I = I, OF resume_step])
next
  case (NetDropped nw i e)
  then show ?case unfolding node_resume_def by (intro put_step [where I = I, OF resume_step])
next
  case (NetMsg nw i msg rest)
  then show ?case unfolding node_msg_def
    by (intro put_step [where I = I, OF node_step] MsgBranch) (simp_all add: serving_def selecting_def active_def ended_def)
next
  case (NetMsgNone nw i)
  then show ?case unfolding node_msg_none_def
    by (intro put_step [where I = I, OF node_step] MsgNone) (simp_all add: serving_def selecting_def active_def ended_def)
qed

lemma net_arrival_runner_step:
  assumes "net_arrival nw nw'"
  shows "(runner_step (I j))\<^sup>*\<^sup>* (as_runner nw j) (as_runner nw' j)"
  using assms
proof (induction rule: net_arrival.induct)
  case (ExtMsg nw i msg)
  show ?case
  proof (cases "j = i")
    case True
    have "ru_closed (after_wait w r) = ru_closed r" for w r
      by (cases w) (simp_all add: put_back_def stop_rest_eq)
    then have "runner_step (I j) (as_runner nw j) ((as_runner nw j)\<lparr>ru_receiver := ru_receiver (as_runner nw j) @ [msg]\<rparr>)"
      using ExtMsg True by (intro MsgArrives) (auto simp: as_runner_def ended_def runner_at_def)
    with True show ?thesis by (simp add: as_runner_push queue_ops r_into_rtranclp)
  qed (simp add: as_runner_push queue_ops)
next
  case (ExtStop nw i reply)
  have "(runner_step (I j))\<^sup>*\<^sup>* (as_runner nw j) (as_runner (push i (add_stop stop) nw) j)" for stop
    by (rule step_push [OF _ queue_ops(1) step_add_stop ExtStop]) simp
  then show ?case by (simp add: ext_stop_def)
next
  case (ExtDrop nw i)
  show ?case by (rule step_push [OF _ queue_ops(4) HandlesDropped ExtDrop]) simp
qed

lemma net_any_runner_step:
  "net_any I nw nw' \<Longrightarrow> net_wf nw \<Longrightarrow> (runner_step (I j))\<^sup>*\<^sup>* (as_runner nw j) (as_runner nw' j)"
  unfolding net_any_def by (blast intro: net_step_runner_step net_arrival_runner_step)

lemma net_wf_any: "net_any I nw nw' \<Longrightarrow> net_wf nw \<Longrightarrow> net_wf nw'"
  unfolding net_any_def by (blast intro: net_wf_step net_wf_arrival)

lemma net_run_runner_run:
  assumes "(net_any I)\<^sup>*\<^sup>* nw nw'" "net_wf nw"
  shows "(runner_step (I j))\<^sup>*\<^sup>* (as_runner nw j) (as_runner nw' j) \<and> net_wf nw'"
  using assms(1)
proof (induction rule: rtranclp_induct)
  case (step nw1 nw2)
  then show ?case by (meson net_any_runner_step net_wf_any rtranclp_trans)
qed (use assms(2) in simp)

end
