(* ===== verification/Network_Shutdown.thy ===== *)
theory Network_Shutdown
  imports Actor_Network
begin

text \<open>
  The shutdown of a whole network of actors (\<open>runner.rs\<close>, \<open>stop_childs\<close> of \<open>actor.rs\<close>): root actors have
  a stop request, every other actor is a child of one with a smaller number. The hooks may change
  the actor and publish events and errors, but do not fail. Then the stop goes down the tree and
  the ends come up: an actor leaves its select loop only after all its children, no schedule goes on
  for ever, and when no step is left every task has finished and no actor is registered.
\<close>

section \<open>Hooks that do not fail\<close>

fun is_fail :: "'e InnerAction \<Rightarrow> bool" where
  "is_fail (InnerFail e) = True"
| "is_fail _ = False"

fun is_fault :: "ChildError \<Rightarrow> bool" where
  "is_fault (ChildFault e j) = True"
| "is_fault _ = False"

text \<open>A hook that does not panic and does with its context no more than to publish events and errors and
  to ask for the stop of its own actor.\<close>

definition publishes :: "('a, 'h, 'e) hook \<Rightarrow> bool" where
  "publishes hook \<longleftrightarrow> (\<forall>a c. \<exists>res a' xs k. \<not> panics res \<and> list_all (\<lambda>x. \<not> is_fail x) xs \<and>
     hook (a, c) = (res, a', c\<lparr>cx_stop := cx_stop c @ replicate k None, cx_inner := cx_inner c @ xs\<rparr>))"

definition calm :: "('a, 'm, 'h, 'e) actor_impl \<Rightarrow> bool" where
  "calm I \<longleftrightarrow> publishes (pre_stop I) \<and> (\<forall>x. fst (pre_stop I x) = Ok ()) \<and> publishes (post_stop I) \<and>
     (\<forall>m. publishes (handle_msg I m)) \<and> (\<forall>e a c. snd (on_child_error I e (a, c)) = c)"

lemma publishes_hook:
  assumes "publishes hook"
  shows "\<exists>res a xs k. list_all (\<lambda>x. \<not> is_fail x) xs \<and> fst (hook (ru_actor r, ru_ctx r)) = res \<and>
    (\<forall>f. with_hook hook r f = f res (r\<lparr>ru_actor := a, ru_ctx := (ru_ctx r)
       \<lparr>cx_stop := cx_stop (ru_ctx r) @ replicate k None, cx_inner := cx_inner (ru_ctx r) @ xs\<rparr>\<rparr>))"
proof -
  from assms obtain res a xs k where "\<not> panics res" "list_all (\<lambda>x. \<not> is_fail x) xs"
    "hook (ru_actor r, ru_ctx r) =
      (res, a, (ru_ctx r)\<lparr>cx_stop := cx_stop (ru_ctx r) @ replicate k None, cx_inner := cx_inner (ru_ctx r) @ xs\<rparr>)"
    unfolding publishes_def by metis
  then show ?thesis by (intro exI [of _ res] exI [of _ a] exI [of _ xs] exI [of _ k]) (simp add: with_hook_def)
qed

section \<open>An actor during the shutdown\<close>

abbreviation senders :: "('a, 'm, 'h, 'e) runner \<Rightarrow> nat list" where
  "senders r \<equiv> cx_child_senders (ru_ctx r)"

fun wait_above :: "nat \<Rightarrow> nat \<Rightarrow> wait \<Rightarrow> bool" where
  "wait_above n i (AwaitStopped _ j _) \<longleftrightarrow> i < j \<and> j < n"
| "wait_above n i _ \<longleftrightarrow> True"

definition calm_runner :: "nat \<Rightarrow> nat \<Rightarrow> ('a, 'm, 'h, 'e) runner \<Rightarrow> wait \<Rightarrow> bool" where
  "calm_runner n i r w \<longleftrightarrow>
     list_all (\<lambda>j. i < j \<and> j < n) (senders r) \<and> wait_above n i w \<and>
     (if ru_end r \<noteq> None then ru_end r = Some Finished \<and> w = NoWait \<and> senders r = []
      else cx_error (ru_ctx r) = None \<and> list_all (\<lambda>x. \<not> is_fail x) (cx_inner (ru_ctx r)) \<and>
        list_all (\<lambda>x. \<not> is_fault x) (ru_errors r) \<and> \<not> awaits_action w \<and>
        (if ru_running r then ru_lifecycle r = Started
         else w = NoWait \<and> ru_lifecycle r \<in> {Started, Stopped, Terminated} \<and>
           (ru_lifecycle r \<noteq> Started \<longrightarrow> senders r = [])))"

lemma calm_waiting:
  "calm_runner n i r w \<Longrightarrow> ru_end r = None \<Longrightarrow> w \<noteq> NoWait \<Longrightarrow> ru_running r \<and> ru_lifecycle r = Started"
  by (cases "ru_running r") (simp_all add: calm_runner_def)

text \<open>The ranks that the steps of an actor lower: how far it is from its end, and its queues.\<close>

definition stage :: "('a, 'm, 'h, 'e) runner \<Rightarrow> wait \<Rightarrow> nat" where
  "stage r w =
     (if ru_end r \<noteq> None then 0
      else 2 * length (senders r) + (if ru_stop_signal r then 0 else 1) +
        (if ru_running r then (case w of NoWait \<Rightarrow> 6 | AwaitStopped _ _ _ \<Rightarrow> 4 | _ \<Rightarrow> 3)
         else (case ru_lifecycle r of Started \<Rightarrow> 7 | Stopped \<Rightarrow> 2 | _ \<Rightarrow> 1)))"

lemma stage_queues [simp]:
  "stage (add_stop stop r) w = stage r w" "stage (add_report err r) w = stage r w"
  "stage (with_system s r) w = stage r w" "stage (runner_at nw i) w = stage (runner_of nw i) w"
  by (simp_all add: stage_def add_stop_def add_report_def ctx_stop_def)

text \<open>Out of the select loop for good.\<close>

definition has_left :: "('a, 'm, 'h, 'e) runner \<Rightarrow> bool" where
  "has_left r \<longleftrightarrow> ru_end r \<noteq> None \<or> \<not> ru_running r \<and> ru_lifecycle r \<in> {Stopped, Terminated}"

lemma output_simps [simp]:
  "ru_end (emit os r) = ru_end r" "ru_end (report_init b r) = ru_end r" "ru_end (set_lifecycle l r) = ru_end r"
  "ru_ctx (emit os r) = ru_ctx r" "ru_ctx (report_init b r) = ru_ctx r" "ru_ctx (set_lifecycle l r) = ru_ctx r"
  "ru_running (emit os r) = ru_running r" "ru_running (report_init b r) = ru_running r"
  "ru_running (set_lifecycle l r) = ru_running r"
  "ru_lifecycle (emit os r) = ru_lifecycle r" "ru_lifecycle (report_init b r) = ru_lifecycle r"
  "ru_lifecycle (set_lifecycle l r) = l"
  "ru_stop_signal (emit os r) = ru_stop_signal r" "ru_stop_signal (report_init b r) = ru_stop_signal r"
  "ru_stop_signal (set_lifecycle l r) = ru_stop_signal r"
  "ru_errors (emit os r) = ru_errors r" "ru_errors (report_init b r) = ru_errors r"
  "ru_errors (set_lifecycle l r) = ru_errors r"
  "ru_receiver (emit os r) = ru_receiver r" "ru_receiver (report_init b r) = ru_receiver r"
  "ru_receiver (set_lifecycle l r) = ru_receiver r"
  by (simp_all add: emit_def report_init_def set_lifecycle_def)

text \<open>What a turn or the end of a stop leaves as it is: it can only take the own path out of the registry.\<close>

definition keeps_links :: "('a, 'm, 'h, 'e) runner \<Rightarrow> ('a, 'm, 'h, 'e) runner \<Rightarrow> bool" where
  "keeps_links r r' \<longleftrightarrow>
     senders r' = senders r \<and> set (cx_stop (ru_ctx r)) \<subseteq> set (cx_stop (ru_ctx r')) \<and>
     cx_path (ru_ctx r') = cx_path (ru_ctx r) \<and>
     (cx_system (ru_ctx r') = remove_actor (cx_path (ru_ctx r)) (cx_system (ru_ctx r)) \<or>
      ru_end r' = None \<and> cx_system (ru_ctx r') = cx_system (ru_ctx r))"

lemma calm_turn_cases:
  assumes "calm I" "calm_runner n i r NoWait" "ru_end r = None" "\<not> ru_running r"
  obtains "ru_lifecycle r = Started" "init_turn I r = (report_init True r)\<lparr>ru_running := True\<rparr>"
  | a xs k where "ru_lifecycle r = Stopped" "list_all (\<lambda>x. \<not> is_fail x) xs" "senders r = []"
      "init_turn I r = set_lifecycle Terminated ((emit [OutPostStop] r)\<lparr>ru_actor := a, ru_ctx := (ru_ctx r)
        \<lparr>cx_stop := cx_stop (ru_ctx r) @ replicate k None, cx_inner := cx_inner (ru_ctx r) @ xs\<rparr>\<rparr>)"
  | "ru_lifecycle r = Terminated" "senders r = []"
      "init_turn I r = (report_init False (r\<lparr>ru_ctx := ctx_remove_actor (ru_ctx r)\<rparr>))
        \<lparr>ru_end := Some Finished, ru_closed := True, ru_receiver := []\<rparr>"
proof -
  have p: "publishes (post_stop I)" using assms(1) by (simp add: calm_def)
  obtain res a xs k where "list_all (\<lambda>x. \<not> is_fail x) xs"
    "\<And>f. with_hook (post_stop I) (emit [OutPostStop] r) f =
      f res ((emit [OutPostStop] r)\<lparr>ru_actor := a, ru_ctx := (ru_ctx r)
        \<lparr>cx_stop := cx_stop (ru_ctx r) @ replicate k None, cx_inner := cx_inner (ru_ctx r) @ xs\<rparr>\<rparr>)"
    using publishes_hook [OF p, of "emit [OutPostStop] r"] by auto
  with that assms(2-4) show ?thesis by (cases "ru_lifecycle r") (auto simp: calm_runner_def init_turn_def)
qed

lemma calm_turn:
  assumes "calm I" "calm_runner n i r NoWait" "ru_end r = None" "\<not> ru_running r"
  shows "calm_runner n i (init_turn I r) NoWait" "stage (init_turn I r) NoWait < stage r NoWait"
    "has_left r \<Longrightarrow> has_left (init_turn I r)" "keeps_links r (init_turn I r)"
  using assms(2-4)
  by (cases rule: calm_turn_cases [OF assms];
      simp add: calm_runner_def stage_def has_left_def keeps_links_def ctx_remove_actor_def)+

lemma calm_stop_begin:
  assumes "calm I" "calm_runner n i r NoWait" "ru_end r = None" "ru_running r"
  obtains a xs k where "list_all (\<lambda>x. \<not> is_fail x) xs"
    "stop_begin I r = r\<lparr>ru_actor := a, ru_ctx := (ru_ctx r)
      \<lparr>cx_stop := cx_stop (ru_ctx r) @ replicate k None, cx_inner := cx_inner (ru_ctx r) @ xs\<rparr>\<rparr>"
proof -
  have p: "publishes (pre_stop I)" "fst (pre_stop I (ru_actor r, ru_ctx r)) = Ok ()"
    using assms(1) by (simp_all add: calm_def)
  from publishes_hook [OF p(1), of r] p(2) that show ?thesis
    by (auto simp: stop_begin_def stop_failed_def)
qed

lemma calm_stop_finish:
  assumes "calm_runner n i r (StoppingChilds stop)" "ru_end r = None" "senders r = []"
  shows "calm_runner n i (stop_finish stop r) NoWait"
    "stage (stop_finish stop r) NoWait < stage r (StoppingChilds stop)"
    "has_left (stop_finish stop r)" "keeps_links r (stop_finish stop r)"
  using assms
  by (cases "ru_running r"; simp add: calm_runner_def stage_def has_left_def keeps_links_def stop_finish_def
      after_run_def ctx_remove_actor_def Let_def)+

section \<open>The tree of actors\<close>

definition left :: "('a, 'm, 'h, 'e) network \<Rightarrow> nat \<Rightarrow> bool" where
  "left nw i \<longleftrightarrow> has_left (runner_of nw i)"

definition pending :: "('a, 'm, 'h, 'e) network \<Rightarrow> nat \<Rightarrow> bool" where
  "pending nw i \<longleftrightarrow> cx_stop (ru_ctx (runner_of nw i)) \<noteq> [] \<or> wait_of nw i \<noteq> NoWait \<or> left nw i"

text \<open>The parent has still to stop the child, or waits for its answer, or the child has left.\<close>

definition child_ok :: "('a, 'm, 'h, 'e) network \<Rightarrow> nat \<Rightarrow> nat \<Rightarrow> bool" where
  "child_ok nw p j \<longleftrightarrow> j \<in> set (senders (runner_of nw p)) \<or>
     (\<exists>s t. wait_of nw p = AwaitStopped s j t \<and> token_held t j nw) \<or> left nw j"

text \<open>Of the roots, those in \<open>R\<close> need not have been asked to stop.\<close>

definition calm_net :: "nat set \<Rightarrow> nat \<Rightarrow> ('a, 'm, 'h, 'e) network \<Rightarrow> bool" where
  "calm_net R n nw \<longleftrightarrow>
     (\<forall>i. n \<le> i \<longrightarrow> ended nw i) \<and>
     (\<forall>i<n. calm_runner n i (runner_of nw i) (wait_of nw i)) \<and>
     (\<forall>i<n. ended nw i \<longrightarrow> map_of (sy_actors (nw_system nw)) (cx_path (ru_ctx (runner_of nw i))) = None) \<and>
     (\<forall>i<n. parent_of nw i = None \<longrightarrow> i \<in> R \<or> pending nw i) \<and>
     (\<forall>i<n. \<forall>p. parent_of nw i = Some p \<longrightarrow> p < i \<and> child_ok nw p i)"

text \<open>What a step of one actor has to respect, and that the tree is then in order.\<close>

definition acts :: "nat \<Rightarrow> ('a, 'm, 'h, 'e) network \<Rightarrow> nat \<Rightarrow> ('a, 'm, 'h, 'e) runner \<Rightarrow> wait \<Rightarrow> bool" where
  "acts n nw i r w \<longleftrightarrow>
     calm_runner n i r w \<and> (left nw i \<longrightarrow> has_left r) \<and>
     cx_path (ru_ctx r) = cx_path (ru_ctx (runner_of nw i)) \<and>
     (cx_system (ru_ctx r) = remove_actor (cx_path (ru_ctx r)) (nw_system nw) \<or>
      ru_end r = None \<and> cx_system (ru_ctx r) = nw_system nw) \<and>
     (\<forall>t. Some t \<in> insert (stop_of (wait_of nw i)) (set (cx_stop (ru_ctx (runner_of nw i)))) \<longrightarrow>
        has_left r \<or> Some t \<in> insert (stop_of w) (set (cx_stop (ru_ctx r)))) \<and>
     (cx_stop (ru_ctx (runner_of nw i)) \<noteq> [] \<or> wait_of nw i \<noteq> NoWait \<longrightarrow>
        has_left r \<or> cx_stop (ru_ctx r) \<noteq> [] \<or> w \<noteq> NoWait)"

lemma remove_actor_none:
  "map_of (sy_actors (remove_actor p s)) q = None" if "map_of (sy_actors s) q = None \<or> q = p"
  using that by (induction "sy_actors s") (auto simp: remove_actor_def)

lemma ended_left: "ended nw i \<Longrightarrow> left nw i"
  by (simp add: ended_def left_def has_left_def)

lemma token_held_iff:
  "token_held t j nw \<longleftrightarrow> \<not> ended nw j \<and> Some t \<in> insert (stop_of (wait_of nw j)) (set (cx_stop (ru_ctx (runner_of nw j))))"
  by (auto simp: token_held_def runner_at_def)

lemma acts_token:
  assumes "acts n nw i r w" "token_held t j nw"
  shows "token_held t j (put_runner i r w nw) \<or> left (put_runner i r w nw) j"
proof (cases "j = i")
  case True
  with assms show ?thesis
    unfolding token_held_iff acts_def left_def by (auto simp: has_left_def)
qed (use assms in \<open>simp add: token_held_iff\<close>)

lemma acts_left: "acts n nw i r w \<Longrightarrow> left nw j \<Longrightarrow> left (put_runner i r w nw) j"
  by (auto simp: left_def acts_def)

lemma acts_child:
  assumes a: "acts n nw i r w" and c: "child_ok nw p j"
    and s: "p = i \<Longrightarrow> j \<in> set (senders (runner_of nw i)) \<Longrightarrow> j \<in> set (senders r) \<or> left nw j \<or>
      (\<exists>s t. w = AwaitStopped s j t \<and> j \<noteq> i \<and> token_held t j nw)"
    and t: "\<And>s t. p = i \<Longrightarrow> wait_of nw i = AwaitStopped s j t \<Longrightarrow> token_held t j nw \<Longrightarrow> w = AwaitStopped s j t"
  shows "child_ok (put_runner i r w nw) p j"
proof -
  consider "j \<in> set (senders (runner_of nw p))" | s t where "wait_of nw p = AwaitStopped s j t" "token_held t j nw"
    | "left nw j" using c by (auto simp: child_ok_def)
  then show ?thesis
  proof cases
    case 1
    have "token_held t j (put_runner i r w nw)" if "j \<noteq> i" "token_held t j nw" for t
      using that by (simp add: token_held_iff)
    with 1 s acts_left [OF a, of j] show ?thesis by (cases "p = i") (auto simp: child_ok_def)
  next
    case (2 s' t')
    with t [of s' t'] have "wait_of (put_runner i r w nw) p = AwaitStopped s' j t'" by (cases "p = i") auto
    with acts_token [OF a 2(2)] show ?thesis unfolding child_ok_def by blast
  next
    case 3
    with acts_left [OF a] show ?thesis by (simp add: child_ok_def)
  qed
qed

lemma acts_pending: "acts n nw i r w \<Longrightarrow> pending nw j \<Longrightarrow> pending (put_runner i r w nw) j"
  by (auto simp: pending_def acts_def left_def)

lemma acts_calm_net:
  assumes a: "acts n nw i r w" and c: "calm_net R n nw" and i: "i < n"
    and s: "\<And>j. j \<in> set (senders (runner_of nw i)) \<Longrightarrow> j \<in> set (senders r) \<or> left nw j \<or>
      (\<exists>s t. w = AwaitStopped s j t \<and> j \<noteq> i \<and> token_held t j nw)"
    and t: "\<And>s j t. wait_of nw i = AwaitStopped s j t \<Longrightarrow> token_held t j nw \<Longrightarrow> w = AwaitStopped s j t"
  shows "calm_net R n (put_runner i r w nw)"
proof -
  have "map_of (sy_actors (cx_system (ru_ctx r))) (cx_path (ru_ctx (runner_of (put_runner i r w nw) k))) = None"
    if "k < n" "ended (put_runner i r w nw) k" for k
    using that a c by (auto simp: acts_def calm_net_def remove_actor_none split: if_splits)
  moreover have "child_ok (put_runner i r w nw) p j" if "child_ok nw p j" for p j
    using acts_child [OF a that] s t by blast
  ultimately show ?thesis
    using a c i acts_pending [OF a] unfolding calm_net_def
    by (auto simp: acts_def split: option.splits)
qed

section \<open>Every step keeps the tree in order\<close>

lemma calm_net_push:
  assumes c: "calm_net R n nw" and k: "\<And>r. has_left (f r) = has_left r" "\<And>r. ru_end (f r) = ru_end r"
      "\<And>r. senders (f r) = senders r" "\<And>r. cx_path (ru_ctx (f r)) = cx_path (ru_ctx r)"
      "\<And>r. set (cx_stop (ru_ctx r)) \<subseteq> set (cx_stop (ru_ctx (f r)))"
      "\<And>r w. calm_runner n i r w \<Longrightarrow> calm_runner n i (f r) w"
  shows "calm_net R n (push i f nw)"
proof -
  have left: "left (push i f nw) j = left nw j" "ended (push i f nw) j = ended nw j" for j
    by (auto simp: left_def k ended_def)
  have tok: "token_held t j (push i f nw)" if "token_held t j nw" for t j
    using that k(5) [of "runner_of nw i"] left by (auto simp: token_held_iff split: if_splits)
  have "pending (push i f nw) j" if "pending nw j" for j
    using that k(5) [of "runner_of nw i"] left by (auto simp: pending_def)
  moreover have "child_ok (push i f nw) p j" if "child_ok nw p j" for p j
    using that tok left by (auto simp: child_ok_def k)
  ultimately show ?thesis
    using c k(4,6) unfolding calm_net_def left by (auto split: option.splits)
qed

lemma calm_net_token [simp]: "calm_net R n (nw\<lparr>nw_token := t\<rparr>) = calm_net R n nw"
proof -
  have "pending (nw\<lparr>nw_token := t\<rparr>) = pending nw" "child_ok (nw\<lparr>nw_token := t\<rparr>) = child_ok nw"
    by (simp_all add: fun_eq_iff pending_def left_def child_ok_def token_held_iff)
  then show ?thesis by (simp add: calm_net_def)
qed

lemma calm_net_add_stop: "calm_net R n nw \<Longrightarrow> calm_net R n (push i (add_stop stop) nw)"
  by (rule calm_net_push) (auto simp: add_stop_def ctx_stop_def has_left_def calm_runner_def)

lemma calm_net_report:
  assumes "calm_net R n nw" "\<not> is_fault err"
  shows "calm_net R n (report_parent i err nw)"
proof -
  have "calm_net R n (push p (add_report err) nw)" for p
    by (rule calm_net_push [OF assms(1)]) (use assms(2) in \<open>auto simp: add_report_def has_left_def calm_runner_def\<close>)
  with assms(1) show ?thesis by (simp add: report_parent_def split: option.split)
qed

lemma calm_runner_system [simp]: "calm_runner n i (with_system s r) w = calm_runner n i r w"
  unfolding calm_runner_def with_system_simps by (rule refl)

lemma calm_at:
  assumes "calm_net R n nw" "\<not> ended nw i"
  shows "i < n" "calm_runner n i (runner_of nw i) (wait_of nw i)" "calm_runner n i (runner_at nw i) (wait_of nw i)"
proof -
  show i: "i < n" using assms unfolding calm_net_def by (meson not_le)
  with assms show "calm_runner n i (runner_of nw i) (wait_of nw i)" by (simp add: calm_net_def)
  then show "calm_runner n i (runner_at nw i) (wait_of nw i)" by (simp add: runner_at_def)
qed

text \<open>The acting actor of each kind of step.\<close>

lemma acts_turn:
  assumes "calm (I i)" "calm_net R n nw" "active nw i" "\<not> ru_running (runner_at nw i)"
  shows "acts n nw i (init_turn (I i) (runner_at nw i)) NoWait"
    "senders (init_turn (I i) (runner_at nw i)) = senders (runner_of nw i)"
    "stage (init_turn (I i) (runner_at nw i)) NoWait < stage (runner_of nw i) (wait_of nw i)"
proof -
  have e: "ru_end (runner_at nw i) = None" "wait_of nw i = NoWait"
    using assms(3) by (simp_all add: active_def ended_def)
  have c: "calm_runner n i (runner_at nw i) NoWait" using calm_at(3) assms(2,3) by (metis active_def)
  note t = calm_turn [OF assms(1) c e(1) assms(4)]
  have st: "stage (runner_at nw i) w = stage (runner_of nw i) w" for w by (simp add: stage_def runner_at_def)
  show "stage (init_turn (I i) (runner_at nw i)) NoWait < stage (runner_of nw i) (wait_of nw i)"
    using t(2) e(2) st by simp
  show "senders (init_turn (I i) (runner_at nw i)) = senders (runner_of nw i)"
    using t(4) by (simp add: keeps_links_def runner_at_def)
  have "left nw i \<Longrightarrow> has_left (runner_at nw i)" by (simp add: left_def has_left_def runner_at_def)
  with t e show "acts n nw i (init_turn (I i) (runner_at nw i)) NoWait"
    by (auto simp: acts_def keeps_links_def runner_at_def)
qed

lemma acts_stop:
  assumes "calm (I i)" "calm_net R n nw" "selecting nw i" "cx_stop (ru_ctx (runner_at nw i)) = stop # rest"
  defines "r \<equiv> stop_begin (I i) (take_stop rest (runner_at nw i))"
  shows "ru_end r = None" "acts n nw i r (StoppingChilds stop)" "senders r = senders (runner_of nw i)"
    "stage r (StoppingChilds stop) < stage (runner_of nw i) (wait_of nw i)"
proof -
  let ?r = "take_stop rest (runner_at nw i)"
  have e: "ru_end ?r = None" "ru_running ?r" "wait_of nw i = NoWait" "\<not> ended nw i"
    using assms(3) by (simp_all add: selecting_def active_def ended_def take_stop_def)
  have c: "calm_runner n i (runner_at nw i) NoWait" using calm_at(3) assms(2) e(3,4) by metis
  then have "calm_runner n i ?r NoWait" by (auto simp: calm_runner_def take_stop_def)
  from calm_stop_begin [OF assms(1) this e(1,2)] obtain a xs k where
    x: "list_all (\<lambda>x. \<not> is_fail x) xs" "r = ?r\<lparr>ru_actor := a, ru_ctx := (ru_ctx ?r)
      \<lparr>cx_stop := cx_stop (ru_ctx ?r) @ replicate k None, cx_inner := cx_inner (ru_ctx ?r) @ xs\<rparr>\<rparr>"
    unfolding r_def by blast
  show "ru_end r = None" using x e by simp
  show "senders r = senders (runner_of nw i)" using x(2) by (simp add: take_stop_def runner_at_def)
  have run: "ru_running (runner_of nw i)" "ru_end (runner_of nw i) = None"
    using e by (simp_all add: take_stop_def runner_at_def)
  then show "stage r (StoppingChilds stop) < stage (runner_of nw i) (wait_of nw i)"
    using x(2) e(3) by (simp add: stage_def take_stop_def runner_at_def)
  show "acts n nw i r (StoppingChilds stop)"
    using x c run assms(4) e(3)
    by (auto simp: acts_def x(2) calm_runner_def take_stop_def runner_at_def has_left_def left_def)
qed

lemma acts_done:
  assumes "calm_net R n nw" "\<not> ended nw i" "wait_of nw i = StoppingChilds stop" "senders (runner_at nw i) = []"
  defines "r \<equiv> stop_finish stop (runner_at nw i)"
  shows "acts n nw i r NoWait" "senders r = senders (runner_of nw i)"
    "stage r NoWait < stage (runner_of nw i) (wait_of nw i)"
proof -
  have c: "calm_runner n i (runner_at nw i) (StoppingChilds stop)" using calm_at(3) [OF assms(1,2)] assms(3) by simp
  have e: "ru_end (runner_at nw i) = None" using assms(2) by (simp add: ended_def)
  note f = calm_stop_finish [OF c e assms(4), folded r_def]
  have st: "stage (runner_at nw i) w = stage (runner_of nw i) w" for w by (simp add: stage_def runner_at_def)
  show "stage r NoWait < stage (runner_of nw i) (wait_of nw i)" using f(2) assms(3) st by simp
  show "senders r = senders (runner_of nw i)" using f(4) by (simp add: keeps_links_def runner_at_def)
  show "acts n nw i r NoWait" using f by (auto simp: acts_def keeps_links_def runner_at_def)
qed

section \<open>Every step lowers a rank\<close>

definition total :: "(('a, 'm, 'h, 'e) network \<Rightarrow> nat \<Rightarrow> nat) \<Rightarrow> nat \<Rightarrow> ('a, 'm, 'h, 'e) network \<Rightarrow> nat" where
  "total f n nw = (\<Sum>i<n. f nw i)"

definition stage_at :: "('a, 'm, 'h, 'e) network \<Rightarrow> nat \<Rightarrow> nat" where
  "stage_at nw i = stage (runner_of nw i) (wait_of nw i)"

definition messages_at :: "('a, 'm, 'h, 'e) network \<Rightarrow> nat \<Rightarrow> nat" where
  "messages_at nw i = length (ru_receiver (runner_of nw i))"

definition inner_at :: "('a, 'm, 'h, 'e) network \<Rightarrow> nat \<Rightarrow> nat" where
  "inner_at nw i = length (cx_inner (ru_ctx (runner_of nw i)))"

definition reports_at :: "('a, 'm, 'h, 'e) network \<Rightarrow> nat \<Rightarrow> nat" where
  "reports_at nw i = length (ru_errors (runner_of nw i))"

definition ranks :: "nat \<Rightarrow> (('a, 'm, 'h, 'e) network \<times> ('a, 'm, 'h, 'e) network) set" where
  "ranks n = measures [total stage_at n, total messages_at n, total inner_at n, total reports_at n]"

lemma total_less:
  assumes "i < n" "f nw' i < f nw i" "\<And>j. j \<noteq> i \<Longrightarrow> f nw' j = f nw j"
  shows "total f n nw' < total f n nw"
proof -
  have "f nw' j \<le> f nw j" for j using assms(2,3) by (cases "j = i") auto
  then show ?thesis unfolding total_def using assms(1,2) by (intro sum_strict_mono_ex1) auto
qed

lemma total_eq: "(\<And>j. f nw' j = f nw j) \<Longrightarrow> total f n nw' = total f n nw"
  by (simp add: total_def)

lemmas at_defs = stage_at_def messages_at_def inner_at_def reports_at_def

lemma at_put [simp]:
  "stage_at (put_runner i r w nw) j = (if j = i then stage r w else stage_at nw j)"
  "messages_at (put_runner i r w nw) j = (if j = i then length (ru_receiver r) else messages_at nw j)"
  "inner_at (put_runner i r w nw) j = (if j = i then length (cx_inner (ru_ctx r)) else inner_at nw j)"
  "reports_at (put_runner i r w nw) j = (if j = i then length (ru_errors r) else reports_at nw j)"
  by (simp_all add: at_defs)

lemma stage_cong:
  "ru_end r' = ru_end r \<Longrightarrow> senders r' = senders r \<Longrightarrow> ru_stop_signal r' = ru_stop_signal r \<Longrightarrow>
   ru_running r' = ru_running r \<Longrightarrow> ru_lifecycle r' = ru_lifecycle r \<Longrightarrow> stage r' w = stage r w"
  by (simp add: stage_def)

text \<open>The step is one of the actor \<open>i\<close> that lowers its stage, up to stop requests for others.\<close>

lemma ranks_stage:
  assumes "i < n" "stage_at nw' i < stage_at nw i" "\<And>j. j \<noteq> i \<Longrightarrow> stage_at nw' j = stage_at nw j"
  shows "(nw', nw) \<in> ranks n"
  using total_less [where f = stage_at, OF assms] by (simp add: ranks_def)

lemma ranks_messages:
  assumes "i < n" "\<And>j. stage_at nw' j = stage_at nw j" "messages_at nw' i < messages_at nw i"
    "\<And>j. j \<noteq> i \<Longrightarrow> messages_at nw' j = messages_at nw j"
  shows "(nw', nw) \<in> ranks n"
  using total_less [where f = messages_at, OF assms(1,3,4)] total_eq [where f = stage_at, OF assms(2)]
  by (simp add: ranks_def)

lemma ranks_inner:
  assumes "i < n" "\<And>j. stage_at nw' j = stage_at nw j" "\<And>j. messages_at nw' j = messages_at nw j"
    "inner_at nw' i < inner_at nw i" "\<And>j. j \<noteq> i \<Longrightarrow> inner_at nw' j = inner_at nw j"
  shows "(nw', nw) \<in> ranks n"
  using total_less [where f = inner_at, OF assms(1,4,5)] total_eq [where f = stage_at, OF assms(2)]
    total_eq [where f = messages_at, OF assms(3)]
  by (simp add: ranks_def)

lemma ranks_reports:
  assumes "i < n" "\<And>j. stage_at nw' j = stage_at nw j" "\<And>j. messages_at nw' j = messages_at nw j"
    "\<And>j. inner_at nw' j = inner_at nw j" "reports_at nw' i < reports_at nw i"
    "\<And>j. j \<noteq> i \<Longrightarrow> reports_at nw' j = reports_at nw j"
  shows "(nw', nw) \<in> ranks n"
  using total_less [where f = reports_at, OF assms(1,5,6)] total_eq [where f = stage_at, OF assms(2)]
    total_eq [where f = messages_at, OF assms(3)] total_eq [where f = inner_at, OF assms(4)]
  by (simp add: ranks_def)

lemma put_ranks_stage:
  assumes "i < n" "stage r w < stage (runner_of nw i) (wait_of nw i)"
  shows "(put_runner i r w nw, nw) \<in> ranks n"
  by (rule ranks_stage [OF assms(1)]) (use assms(2) in \<open>simp_all add: stage_at_def\<close>)

lemma acts_push: "i \<noteq> j \<Longrightarrow> acts n (push j f nw) i r w = acts n nw i r w"
  by (simp add: acts_def left_def)

lemma step_stop_child:
  assumes c: "calm_net R n nw" and i: "\<not> ended nw i" "wait_of nw i = StoppingChilds stop"
    and ne: "senders (runner_at nw i) \<noteq> []"
  shows "calm_net R n (node_stop_child i stop nw)" "(node_stop_child i stop nw, nw) \<in> ranks n"
proof -
  let ?r = "runner_at nw i"
  note cr = calm_at [OF c i(1)]
  obtain xs d where sd: "senders (runner_of nw i) = xs @ [d]" using ne by (metis rev_exhaust runner_at_simps(15))
  then have xs: "senders ?r = xs @ [d]" by (simp add: runner_at_def)
  have ch: "i < d" "d < n" using cr(2) sd by (simp_all add: calm_runner_def)
  have pop: "senders (pop_child d ?r) = xs" "ru_end (pop_child d ?r) = None"
    using xs i(1) by (simp_all add: pop_child_def emit_def ended_def runner_at_def)
  have run: "ru_running (runner_of nw i)" "ru_end (runner_of nw i) = None"
    using calm_waiting [OF cr(2)] i by (simp_all add: ended_def)
  have stage: "stage (pop_child d ?r) w < stage (runner_of nw i) (wait_of nw i)"
    if "w = StoppingChilds stop \<or> (\<exists>t. w = AwaitStopped stop d t)" for w
    using that run i(2) sd pop by (auto simp: stage_def pop_child_def emit_def runner_at_def)
  have acts: "acts n nw i (pop_child d ?r) w"
    if "w = StoppingChilds stop \<or> (\<exists>t. w = AwaitStopped stop d t)" for w
    using that cr(2) ch sd run i(2)
    by (auto simp: acts_def calm_runner_def pop_child_def emit_def runner_at_def has_left_def left_def butlast_append)
  show "calm_net R n (node_stop_child i stop nw)"
  proof (cases "ended nw d")
    case True
    have "calm_net R n (put_runner i (pop_child d ?r) (StoppingChilds stop) nw)"
      by (rule acts_calm_net [OF acts c cr(1)]) (use True sd pop(1) ended_left i(2) in auto)
    with True show ?thesis by (simp add: node_stop_child_def Let_def sd)
  next
    case False
    let ?f = "add_stop (Some (nw_token nw)) :: ('a, 'b, 'c, 'd) runner \<Rightarrow> ('a, 'b, 'c, 'd) runner"
    let ?nw = "push d ?f nw" and ?w = "AwaitStopped stop d (nw_token nw)"
    have tok: "token_held (nw_token nw) d ?nw"
      using False by (simp add: token_held_iff add_stop_def ctx_stop_def ended_def)
    have same: "runner_of ?nw i = runner_of nw i" using ch(1) by simp
    have a: "acts n ?nw i (pop_child d ?r) ?w"
      using acts [of ?w] ch(1) by (simp add: acts_push)
    have "calm_net R n (put_runner i (pop_child d ?r) ?w ?nw)"
      by (rule acts_calm_net [OF a calm_net_add_stop [OF c] cr(1)])
        (use sd pop(1) i(2) tok ch(1) same in auto)
    moreover have "put_runner i (pop_child d ?r) ?w ?nw = push d ?f (put_runner i (pop_child d ?r) ?w nw)"
      using ch(1) by (simp add: put_runner_def push_def fun_upd_twist)
    ultimately show ?thesis using False by (simp add: node_stop_child_def Let_def sd)
  qed
  show "(node_stop_child i stop nw, nw) \<in> ranks n"
  proof (rule ranks_stage [OF cr(1)])
    show "stage_at (node_stop_child i stop nw) i < stage_at nw i"
      using stage ch(1) by (simp add: node_stop_child_def stage_at_def Let_def sd)
    show "stage_at (node_stop_child i stop nw) j = stage_at nw j" if "j \<noteq> i" for j
      using that by (simp add: node_stop_child_def stage_at_def Let_def sd)
  qed
qed

text \<open>The branches of an actor that serves its queues.\<close>

lemma acts_serving:
  assumes "calm_net R n nw" "serving nw i" "calm_runner n i r NoWait" "keeps_links (runner_at nw i) r" "ru_end r = None"
  shows "acts n nw i r NoWait"
proof -
  have "\<not> left nw i" "wait_of nw i = NoWait"
    using assms(2) by (simp_all add: serving_def selecting_def active_def ended_def left_def has_left_def)
  with assms(3-5) show ?thesis by (auto simp: acts_def keeps_links_def)
qed

lemma serving_calm_net:
  assumes "calm_net R n nw" "serving nw i" "calm_runner n i r NoWait" "keeps_links (runner_at nw i) r" "ru_end r = None"
  shows "calm_net R n (put_runner i r NoWait nw)"
proof (rule acts_calm_net [OF acts_serving [OF assms] assms(1)])
  have "active nw i" using assms(2) by (simp add: serving_def selecting_def)
  then show "i < n" using calm_at(1) [OF assms(1)] by (simp add: active_def)
  show "j \<in> set (senders (runner_of nw i)) \<Longrightarrow> j \<in> set (senders r) \<or> left nw j \<or>
      (\<exists>s t. NoWait = AwaitStopped s j t \<and> j \<noteq> i \<and> token_held t j nw)" for j
    using assms(4) by (simp add: keeps_links_def)
  show "wait_of nw i = AwaitStopped s j t \<Longrightarrow> token_held t j nw \<Longrightarrow> NoWait = AwaitStopped s j t" for s j t
    using \<open>active nw i\<close> by (simp add: active_def)
qed

lemma serving_facts:
  assumes "calm_net R n nw" "serving nw i"
  shows "i < n" "wait_of nw i = NoWait" "ru_end (runner_of nw i) = None" "ru_running (runner_of nw i)"
    "\<not> ru_stop_signal (runner_of nw i)" "calm_runner n i (runner_of nw i) NoWait"
proof -
  have a: "\<not> ended nw i" "wait_of nw i = NoWait" "ru_running (runner_of nw i)" "\<not> ru_stop_signal (runner_of nw i)"
    using assms(2) by (simp_all add: serving_def selecting_def active_def)
  then show "i < n" "wait_of nw i = NoWait" "ru_end (runner_of nw i) = None" "ru_running (runner_of nw i)"
    "\<not> ru_stop_signal (runner_of nw i)" "calm_runner n i (runner_of nw i) NoWait"
    using calm_at [OF assms(1) a(1)] by (simp_all add: ended_def)
qed

lemma calm_msg:
  assumes "calm I"
  obtains a xs k where "list_all (\<lambda>x. \<not> is_fail x) xs"
    "run_msg I msg r = (emit [OutHandled msg] r)\<lparr>ru_actor := a, ru_ctx := (ru_ctx r)
      \<lparr>cx_stop := cx_stop (ru_ctx r) @ replicate k None, cx_inner := cx_inner (ru_ctx r) @ xs\<rparr>\<rparr>"
proof -
  have "publishes (handle_msg I msg)" using assms by (simp add: calm_def)
  from publishes_hook [OF this, of "emit [OutHandled msg] r"] that show ?thesis
    by (auto simp: run_msg_def)
qed

lemma step_msg:
  assumes "calm (I i)" "calm_net R n nw" "serving nw i" "ru_receiver (runner_at nw i) = msg # rest"
  shows "calm_net R n (node_msg I i msg rest nw)" "(node_msg I i msg rest nw, nw) \<in> ranks n"
proof -
  note f = serving_facts [OF assms(2,3)]
  let ?r = "(runner_at nw i)\<lparr>ru_receiver := rest\<rparr>"
  obtain a xs k where r: "list_all (\<lambda>x. \<not> is_fail x) xs"
    "run_msg (I i) msg ?r = (emit [OutHandled msg] ?r)\<lparr>ru_actor := a, ru_ctx := (ru_ctx ?r)
      \<lparr>cx_stop := cx_stop (ru_ctx ?r) @ replicate k None, cx_inner := cx_inner (ru_ctx ?r) @ xs\<rparr>\<rparr>"
    using calm_msg [OF assms(1), of msg ?r] by blast
  show "calm_net R n (node_msg I i msg rest nw)"
    unfolding node_msg_def
    by (rule serving_calm_net [OF assms(2,3)])
      (use f r in \<open>simp_all add: r(2) keeps_links_def calm_runner_def\<close>)
  show "(node_msg I i msg rest nw, nw) \<in> ranks n"
    unfolding node_msg_def
  proof (rule ranks_messages [OF f(1)])
    have "stage (run_msg (I i) msg ?r) NoWait = stage (runner_of nw i) NoWait" unfolding r(2) by (rule stage_cong) simp_all
    then show "stage_at (put_runner i (run_msg (I i) msg ?r) NoWait nw) j = stage_at nw j" for j
      using f(2) by (simp add: stage_at_def)
  qed (use assms(4) in \<open>simp_all add: r(2) messages_at_def\<close>)
qed

lemma calm_inner: "\<not> is_fail action \<Longrightarrow> \<exists>os. inner_handle answer action r = emit os r"
proof (cases action)
  case (InnerError e)
  have "r = emit [] r" by (simp add: emit_def)
  with InnerError show ?thesis by (auto simp: inner_handle_def)
qed (auto simp: inner_handle_def)

lemma step_inner:
  assumes "calm_net R n nw" "serving nw i" "cx_inner (ru_ctx (runner_at nw i)) = action # rest"
  shows "calm_net R n (node_inner i action rest nw)" "(node_inner i action rest nw, nw) \<in> ranks n"
proof -
  note f = serving_facts [OF assms(1,2)]
  let ?r = "inner_handle None action (take_inner rest (runner_at nw i))"
  have q: "cx_inner (ru_ctx (runner_of nw i)) = action # rest" using assms(3) by simp
  have nf: "\<not> is_fail action" using f(3,4,6) q by (simp add: calm_runner_def)
  obtain os where r: "?r = emit os (take_inner rest (runner_at nw i))"
    using nf calm_inner by blast
  have put: "calm_net R n (put_runner i ?r NoWait nw)"
    unfolding r by (rule serving_calm_net [OF assms(1,2)])
      (use f q in \<open>simp_all add: keeps_links_def calm_runner_def take_inner_def\<close>)
  show "calm_net R n (node_inner i action rest nw)"
    using put nf calm_net_report [OF put] by (cases action) (simp_all add: node_inner_def Let_def)
  have ranks: "stage_at (put_runner i ?r NoWait nw) j = stage_at nw j"
    "messages_at (put_runner i ?r NoWait nw) j = messages_at nw j"
    "inner_at (put_runner i ?r NoWait nw) i < inner_at nw i"
    "j \<noteq> i \<Longrightarrow> inner_at (put_runner i ?r NoWait nw) j = inner_at nw j" for j
  proof -
    have "stage ?r NoWait = stage (runner_of nw i) NoWait" unfolding r by (rule stage_cong) (simp_all add: take_inner_def)
    then show "stage_at (put_runner i ?r NoWait nw) j = stage_at nw j" using f(2) by (simp add: stage_at_def)
  qed (use q in \<open>simp_all add: r messages_at_def inner_at_def\<close>, simp_all add: take_inner_def)
  have rep: "stage_at (report_parent k err nw) j = stage_at nw j"
    "messages_at (report_parent k err nw) j = messages_at nw j" "inner_at (report_parent k err nw) j = inner_at nw j"
    for k err j and nw :: "('a, 'b, 'c, 'd) network"
    by (simp_all add: at_defs report_parent_def split: option.split) (simp_all add: add_report_def)
  show "(node_inner i action rest nw, nw) \<in> ranks n"
    by (rule ranks_inner [OF f(1)]; use ranks nf in \<open>cases action; simp add: node_inner_def Let_def rep\<close>)
qed

lemma step_error:
  assumes "calm (I i)" "calm_net R n nw" "serving nw i" "ru_errors (runner_at nw i) = err # rest"
  shows "calm_net R n (node_error I i err rest nw)" "(node_error I i err rest nw, nw) \<in> ranks n"
proof -
  note f = serving_facts [OF assms(2,3)]
  let ?r = "(runner_at nw i)\<lparr>ru_errors := rest\<rparr>"
  have "\<not> is_fault err" using f(3,4,6) assms(4) by (simp add: calm_runner_def)
  then obtain e where e: "err = ChildErr e" by (cases err) auto
  have "snd (on_child_error (I i) e (ru_actor ?r, ru_ctx ?r)) = ru_ctx ?r" using assms(1) by (simp add: calm_def)
  then obtain a where r: "run_child_error (I i) err ?r = ?r\<lparr>ru_actor := a\<rparr>"
    by (simp add: e run_child_error_def split_beta)
  have n: "node_error I i err rest nw = put_runner i (?r\<lparr>ru_actor := a\<rparr>) NoWait nw"
    using r by (simp add: node_error_def Let_def e)
  show "calm_net R n (node_error I i err rest nw)"
    unfolding n by (rule serving_calm_net [OF assms(2,3)])
      (use f assms(4) in \<open>simp_all add: keeps_links_def calm_runner_def\<close>)
  show "(node_error I i err rest nw, nw) \<in> ranks n"
    unfolding n
  proof (rule ranks_reports [OF f(1)])
    have "stage (?r\<lparr>ru_actor := a\<rparr>) NoWait = stage (runner_of nw i) NoWait" by (rule stage_cong) simp_all
    then show "stage_at (put_runner i (?r\<lparr>ru_actor := a\<rparr>) NoWait nw) j = stage_at nw j" for j
      using f(2) by (simp add: stage_at_def)
  qed (use assms(4) in \<open>simp_all add: at_defs\<close>)
qed

lemma step_msg_none:
  assumes "calm_net R n nw" "serving nw i"
  shows "calm_net R n (node_msg_none i nw)" "(node_msg_none i nw, nw) \<in> ranks n"
proof -
  note f = serving_facts [OF assms]
  let ?r = "request_stop (runner_at nw i)"
  have a: "acts n nw i ?r NoWait"
    using f by (auto simp: acts_def calm_runner_def request_stop_def ctx_stop_def left_def has_left_def)
  show "calm_net R n (node_msg_none i nw)"
    unfolding node_msg_none_def
    by (rule acts_calm_net [OF a assms(1) f(1)]) (use f in \<open>auto simp: request_stop_def ctx_stop_def\<close>)
  have "stage ?r NoWait < stage (runner_of nw i) (wait_of nw i)"
    using f by (simp add: stage_def request_stop_def ctx_stop_def)
  then show "(node_msg_none i nw, nw) \<in> ranks n"
    unfolding node_msg_none_def by (rule put_ranks_stage [OF f(1)])
qed

lemma step_stop_reply:
  assumes c: "calm_net R n nw" and i: "\<not> ended nw i" "wait_of nw i = AwaitStopped stop j tok" "\<not> token_held tok j nw"
  shows "calm_net R n (put_wait i (StoppingChilds stop) nw)" "(put_wait i (StoppingChilds stop) nw, nw) \<in> ranks n"
proof -
  let ?nw = "put_wait i (StoppingChilds stop) nw"
  note cr = calm_at [OF c i(1)]
  have run: "ru_running (runner_of nw i)" "ru_end (runner_of nw i) = None"
    using calm_waiting [OF cr(2)] i by (simp_all add: ended_def)
  have tok: "token_held t k ?nw = token_held t k nw" for t k using i(2) by (auto simp: token_held_iff)
  have left: "left ?nw k = left nw k" for k by (simp add: left_def)
  have "child_ok ?nw p k" if "child_ok nw p k" for p k
    using that tok left i(2,3) by (cases "p = i") (auto simp: child_ok_def)
  moreover have "pending ?nw k" if "pending nw k" for k
    using that left by (auto simp: pending_def)
  moreover have "calm_runner n i (runner_of nw i) (StoppingChilds stop)"
    using cr(2) i(2) run by (auto simp: calm_runner_def)
  ultimately show "calm_net R n ?nw" using c cr(1) unfolding calm_net_def by auto
  show "(?nw, nw) \<in> ranks n"
    by (rule ranks_stage [OF cr(1)]) (use run i(2) in \<open>simp_all add: stage_at_def stage_def\<close>)
qed

text \<open>No step is one of those that wait for the action of a parent.\<close>

lemma calm_step:
  assumes "net_step I nw nw'" and calm: "\<And>i. calm (I i)"
  shows "calm_net R n nw \<Longrightarrow> calm_net R n nw' \<and> (nw', nw) \<in> ranks n"
  using assms(1)
proof (induction rule: net_step.induct)
  case (NetTurn nw i)
  have i: "\<not> ended nw i" "wait_of nw i = NoWait" using NetTurn(1) by (simp_all add: active_def)
  note t = acts_turn [where I = I and i = i, OF calm NetTurn(3,1,2)]
  show ?case unfolding node_turn_def
    using acts_calm_net [OF t(1) NetTurn(3) calm_at(1) [OF NetTurn(3) i(1)]]
      put_ranks_stage [OF calm_at(1) [OF NetTurn(3) i(1)] t(3)] t(2) i(2) by simp
next
  case (NetStop nw i stop rest)
  have i: "\<not> ended nw i" "wait_of nw i = NoWait" using NetStop(1) by (simp_all add: selecting_def active_def)
  note t = acts_stop [where I = I and i = i, OF calm NetStop(3,1,2)]
  show ?case unfolding node_stop_def
    using acts_calm_net [OF t(2) NetStop(3) calm_at(1) [OF NetStop(3) i(1)]]
      put_ranks_stage [OF calm_at(1) [OF NetStop(3) i(1)] t(4)] t(1,3) i(2) by (simp add: Let_def)
next
  case (NetStopChild nw i stop)
  then show ?case using step_stop_child by blast
next
  case (NetStopReply nw i stop j tok)
  then show ?case using step_stop_reply by blast
next
  case (NetStopDone nw i stop)
  note t = acts_done [OF NetStopDone(4,1,2,3)]
  show ?case unfolding node_stop_done_def
    using acts_calm_net [OF t(1) NetStopDone(4) calm_at(1) [OF NetStopDone(4,1)]]
      put_ranks_stage [OF calm_at(1) [OF NetStopDone(4,1)] t(3)] t(2) NetStopDone(2) by simp
next
  case (NetError nw i err rest)
  then show ?case using step_error [where I = I and i = i, OF calm] by blast
next
  case (NetInner nw i action rest)
  then show ?case using step_inner by blast
next
  case (NetResume nw i e action)
  then show ?case using calm_at(2) [OF NetResume(3,1)] by (auto simp: calm_runner_def ended_def)
next
  case (NetDropped nw i e)
  then show ?case using calm_at(2) [OF NetDropped(4,1)] by (auto simp: calm_runner_def ended_def)
next
  case (NetMsg nw i msg rest)
  then show ?case using step_msg [where I = I and i = i, OF calm] by blast
next
  case (NetMsgNone nw i)
  then show ?case using step_msg_none by blast
qed

lemma calm_arrival: "net_arrival nw nw' \<Longrightarrow> calm_net R n nw \<Longrightarrow> calm_net R n nw'"
proof (induction rule: net_arrival.induct)
  case (ExtMsg nw i msg)
  show ?case by (rule calm_net_push [OF ExtMsg(3)]) (auto simp: has_left_def calm_runner_def)
next
  case (ExtStop nw i reply)
  then show ?case by (simp add: ext_stop_def calm_net_add_stop)
next
  case (ExtDrop nw i)
  show ?case by (rule calm_net_push [OF ExtDrop(2)]) (auto simp: has_left_def calm_runner_def)
qed

lemma calm_run:
  assumes "(net_any I)\<^sup>*\<^sup>* nw nw'" "\<And>i. calm (I i)" "calm_net R n nw"
  shows "calm_net R n nw'"
  using assms(1)
proof (induction rule: rtranclp_induct)
  case (step nw1 nw2)
  then show ?case using calm_step [where I = I, OF _ assms(2)] calm_arrival unfolding net_any_def by blast
qed (use assms(3) in simp)

section \<open>Where the steps end\<close>

definition stuck :: "(nat \<Rightarrow> ('a, 'm, 'h, 'e) actor_impl) \<Rightarrow> ('a, 'm, 'h, 'e) network \<Rightarrow> bool" where
  "stuck I nw \<longleftrightarrow> \<not> (\<exists>nw'. net_step I nw nw')"

lemma stuck_running:
  assumes "stuck I nw" "\<not> ended nw i" "wait_of nw i = NoWait"
  shows "ru_running (runner_of nw i)" "cx_stop (ru_ctx (runner_of nw i)) = []"
proof -
  have a: "active nw i" using assms(2,3) by (simp add: active_def)
  show r: "ru_running (runner_of nw i)" using assms(1) NetTurn [OF a] by (auto simp: stuck_def)
  have "selecting nw i" using a r by (simp add: selecting_def)
  then show "cx_stop (ru_ctx (runner_of nw i)) = []"
    using assms(1) NetStop [of nw i] by (cases "cx_stop (ru_ctx (runner_of nw i))") (auto simp: stuck_def)
qed

text \<open>Of the actors that wait for a child the one with the largest number could go on.\<close>

lemma stuck_no_wait:
  assumes s: "stuck I nw" and c: "calm_net R n nw"
  shows "\<not> ended nw i \<Longrightarrow> wait_of nw i = NoWait"
proof (induction "n - i" arbitrary: i rule: less_induct)
  case less
  note cr = calm_at [OF c less.prems]
  show ?case
  proof (cases "wait_of nw i")
    case (StoppingChilds stop)
    then show ?thesis using s NetStopChild NetStopDone less.prems unfolding stuck_def by metis
  next
    case (AwaitStopped stop j tok)
    then have held: "token_held tok j nw" using s NetStopReply less.prems unfolding stuck_def by metis
    have "i < j" "j < n" using cr(2) AwaitStopped by (simp_all add: calm_runner_def)
    then have "wait_of nw j = NoWait" using less.hyps [of j] held by (simp add: token_held_iff)
    then show ?thesis using held stuck_running(2) [OF s, of j] by (simp add: token_held_iff)
  next
    case (AwaitAction e a)
    then show ?thesis using cr(2) less.prems by (simp add: calm_runner_def ended_def)
  qed
qed

text \<open>The descendants of an actor, itself included.\<close>

definition below :: "('a, 'm, 'h, 'e) network \<Rightarrow> nat \<Rightarrow> nat \<Rightarrow> bool" where
  "below nw = (\<lambda>p i. parent_of nw i = Some p)\<^sup>*\<^sup>*"

lemma below_refl [simp]: "below nw i i"
  by (simp add: below_def)

lemma below_parent: "parent_of nw i = Some p \<Longrightarrow> below nw r p \<Longrightarrow> below nw r i"
  unfolding below_def by (rule rtranclp.rtrancl_into_rtrancl)

lemma below_root: "parent_of nw j = None \<Longrightarrow> below nw r j \<Longrightarrow> r = j"
  unfolding below_def by (erule rtranclp.cases) auto

lemma stuck_ended_below:
  assumes s: "stuck I nw" and c: "calm_net R n nw"
  shows "(\<And>r. r \<in> R \<Longrightarrow> \<not> below nw r i) \<Longrightarrow> ended nw i"
proof (induction i rule: less_induct)
  case (less i)
  show ?case
  proof (rule ccontr)
    assume e: "\<not> ended nw i"
    note r = stuck_running [OF s e stuck_no_wait [OF s c e]]
    have i: "i < n" by (rule calm_at [OF c e])
    have "\<not> left nw i" using e r by (simp add: left_def has_left_def ended_def)
    moreover have "left nw i"
    proof (cases "parent_of nw i")
      case None
      have "i \<notin> R" using less.prems [of i] by auto
      with None show ?thesis using c i r(2) stuck_no_wait [OF s c e] by (auto simp: calm_net_def pending_def)
    next
      case (Some p)
      then have p: "p < i" "child_ok nw p i" using c i by (auto simp: calm_net_def)
      have "ended nw p" using less.IH [OF p(1)] less.prems below_parent [OF Some] by blast
      then have "calm_runner n p (runner_of nw p) (wait_of nw p)" "ended nw p"
        using c i p(1) by (auto simp: calm_net_def)
      then have "senders (runner_of nw p) = []" "wait_of nw p = NoWait"
        by (simp_all add: calm_runner_def ended_def split: if_splits)
      with p(2) show ?thesis by (simp add: child_ok_def)
    qed
    ultimately show False by simp
  qed
qed

lemma stuck_ended: "stuck I nw \<Longrightarrow> calm_net {} n nw \<Longrightarrow> ended nw i"
  using stuck_ended_below by blast

lemma left_parent:
  assumes c: "calm_net R n nw" and "i < n" "parent_of nw i = Some p" "left nw p"
  shows "left nw i"
proof -
  have p: "p < n" "child_ok nw p i" using assms by (auto simp: calm_net_def)
  have "calm_runner n p (runner_of nw p) (wait_of nw p)" using c p(1) by (simp add: calm_net_def)
  then have "senders (runner_of nw p) = []" "wait_of nw p = NoWait"
    using assms(4) by (auto simp: calm_runner_def left_def has_left_def split: if_splits)
  with p(2) show ?thesis by (simp add: child_ok_def)
qed

lemma no_infinite_run:
  assumes "\<And>i. calm (I i)" "calm_net R n (f 0)"
  shows "\<exists>k. \<not> net_step I (f k) (f (Suc k))"
proof (rule ccontr)
  assume "\<not> (\<exists>k. \<not> net_step I (f k) (f (Suc k)))"
  then have run: "net_step I (f k) (f (Suc k))" for k by blast
  have "calm_net R n (f k)" for k
    by (induction k) (use assms(2) calm_step [OF run assms(1)] in auto)
  then have "(f (Suc k), f k) \<in> ranks n" for k using calm_step [OF run assms(1)] by blast
  moreover have "wf (ranks n :: (('a, 'b, 'c, 'd) network \<times> ('a, 'b, 'c, 'd) network) set)" by (simp add: ranks_def)
  ultimately show False unfolding wf_iff_no_infinite_down_chain by blast
qed

section \<open>A network of two actors\<close>

text \<open>The test actor as a root with one child; all other numbers are free.\<close>

definition test_node :: "actor_path \<Rightarrow> nat list \<Rightarrow> nat option \<Rightarrow> run_end option \<Rightarrow> (bool, unit, unit, unit) node" where
  "test_node path kids parent fin =
     \<lparr>nd_runner = (test_state Started [] True False fin [])\<lparr>ru_parent := parent \<noteq> None,
        ru_ctx := (ctx_new path system_new)\<lparr>cx_child_senders := kids\<rparr>\<rparr>,
      nd_parent = parent, nd_wait = NoWait\<rparr>"

definition test_net :: "(bool, unit, unit, unit) network" where
  "test_net =
     \<lparr>nw_nodes = (\<lambda>i. if i = 0 then test_node [''user'', ''test''] [1] None None
                     else if i = 1 then test_node [''user'', ''test'', ''child''] [] (Some 0) None
                     else test_node [] [] None (Some Finished)),
      nw_system = system_new\<lparr>sy_actors := [([''user'', ''test''], ''Test'', 0),
                    ([''user'', ''test'', ''child''], ''Test'', 1)]\<rparr>,
      nw_token = 0\<rparr>"

lemma publishesI:
  assumes "\<And>a c. \<not> panics (fst (hook (a, c)))"
    and "\<And>a c. snd (snd (hook (a, c))) = c\<lparr>cx_stop := cx_stop c @ replicate k None\<rparr>"
  shows "publishes hook"
  unfolding publishes_def
proof (intro allI)
  fix a c
  have "hook (a, c) = (fst (hook (a, c)), fst (snd (hook (a, c))),
      c\<lparr>cx_stop := cx_stop c @ replicate k None, cx_inner := cx_inner c @ []\<rparr>)"
    using assms(2) [of a c] by (simp add: prod_eq_iff)
  then show "\<exists>res a' xs k. \<not> panics res \<and> list_all (\<lambda>x. \<not> is_fail x) xs \<and>
      hook (a, c) = (res, a', c\<lparr>cx_stop := cx_stop c @ replicate k None, cx_inner := cx_inner c @ xs\<rparr>)"
    using assms(1) [of a c] by (intro exI [of _ "fst (hook (a, c))"] exI [of _ "fst (snd (hook (a, c)))"] exI [of _ "[]"] exI [of _ k]) simp
qed

lemma test_impl_calm: "calm (test_impl True)"
proof -
  have "publishes (\<lambda>x. (Ok (), x))" by (rule publishesI [where k = 0]) simp_all
  moreover have "publishes (\<lambda>(failed, c). (Ok (), failed, ctx_stop None c))"
    by (rule publishesI [where k = 1]) (simp_all add: ctx_stop_def)
  ultimately show ?thesis by (simp add: calm_def test_impl_def)
qed

section \<open>Properties\<close>

text \<open>The network at the start of the shutdown: all actors run without errors, root actors outside \<open>R\<close> have a
  stop request, and every other actor is a child of an earlier one.\<close>

definition tree_ready :: "nat set \<Rightarrow> nat \<Rightarrow> ('a, 'm, 'h, 'e) network \<Rightarrow> bool" where
  "tree_ready R n nw \<longleftrightarrow>
     (\<forall>i. n \<le> i \<longrightarrow> ended nw i) \<and>
     (\<forall>i<n. let r = runner_of nw i in
        selecting nw i \<and> ru_lifecycle r = Started \<and> cx_error (ru_ctx r) = None \<and>
        list_all (\<lambda>x. \<not> is_fail x) (cx_inner (ru_ctx r)) \<and> list_all (\<lambda>x. \<not> is_fault x) (ru_errors r) \<and>
        list_all (\<lambda>j. i < j \<and> j < n) (senders r) \<and>
        (case parent_of nw i of
           None \<Rightarrow> i \<in> R \<or> cx_stop (ru_ctx r) \<noteq> []
         | Some p \<Rightarrow> p < i \<and> i \<in> set (senders (runner_of nw p))))"

definition shutdown_requested :: "nat \<Rightarrow> ('a, 'm, 'h, 'e) network \<Rightarrow> bool" where
  "shutdown_requested n nw \<longleftrightarrow> tree_ready {} n nw"

lemma tree_ready_calm: "tree_ready R n nw \<Longrightarrow> calm_net R n nw"
  unfolding calm_net_def
proof (intro conjI allI impI)
  assume a: "tree_ready R n nw"
  show "ended nw i" if "n \<le> i" for i using a that by (simp add: tree_ready_def)
  fix i assume i: "i < n"
  then have s: "selecting nw i" "ru_lifecycle (runner_of nw i) = Started" "cx_error (ru_ctx (runner_of nw i)) = None"
    "list_all (\<lambda>x. \<not> is_fail x) (cx_inner (ru_ctx (runner_of nw i)))"
    "list_all (\<lambda>x. \<not> is_fault x) (ru_errors (runner_of nw i))" "list_all (\<lambda>j. i < j \<and> j < n) (senders (runner_of nw i))"
    "case parent_of nw i of None \<Rightarrow> i \<in> R \<or> cx_stop (ru_ctx (runner_of nw i)) \<noteq> []
       | Some p \<Rightarrow> p < i \<and> i \<in> set (senders (runner_of nw p))"
    using a unfolding tree_ready_def Let_def by blast+
  then show "calm_runner n i (runner_of nw i) (wait_of nw i)"
    by (simp add: calm_runner_def selecting_def active_def ended_def)
  show "map_of (sy_actors (nw_system nw)) (cx_path (ru_ctx (runner_of nw i))) = None" if "ended nw i"
    using that s(1) by (simp add: selecting_def active_def)
  show "i \<in> R \<or> pending nw i" if "parent_of nw i = None" using that s(7) by (auto simp: pending_def)
  show "p < i" "child_ok nw p i" if "parent_of nw i = Some p" for p
    using that s(7) by (simp_all add: child_ok_def)
qed

text \<open>An actor that has ended in such a network has finished and is not registered.\<close>

lemma calm_ended:
  assumes "calm_net R n nw" "i < n" "ended nw i"
  shows "ru_end (runner_of nw i) = Some Finished"
    "map_of (sy_actors (nw_system nw)) (cx_path (ru_ctx (runner_of nw i))) = None"
proof -
  have "calm_runner n i (runner_of nw i) (wait_of nw i)" using assms by (simp add: calm_net_def)
  then show "ru_end (runner_of nw i) = Some Finished" using assms(3) by (auto simp: calm_runner_def ended_def)
  show "map_of (sy_actors (nw_system nw)) (cx_path (ru_ctx (runner_of nw i))) = None"
    using assms by (simp add: calm_net_def)
qed

text \<open>C4. The shutdown of a forest of calm actors whose roots have a stop request, with messages and stop
  requests still arriving: an actor leaves its select loop only after all its children have; the actors
  cannot go on for ever; and when none can make a step, every task has finished and its path is free in
  the registry.

  Calm (\<open>calm\<close>): no hook panics or emits a failure or creates a child, the hooks only publish events and
  errors and ask for the stop of their own actor, \<open>pre_stop\<close> succeeds, and \<open>on_child_error\<close> leaves the context alone. At the
  start (\<open>shutdown_requested\<close>) every actor is started and in its select loop, without an error, and no
  failure or fault is queued; the set of actors is fixed, and every actor but the roots is among the
  children of an earlier one. Without these conditions a shutdown may never end, as \<open>Network_Deadlock\<close> shows for a child that fails.\<close>

theorem shutdown_of_actor_tree:
  assumes "\<And>i. calm (I i)" "shutdown_requested n nw" "(net_any I)\<^sup>*\<^sup>* nw nw'"
  shows "(\<forall>i<n. \<forall>p. parent_of nw' i = Some p \<and> left nw' p \<longrightarrow> left nw' i) \<and>
    \<not> (\<exists>f. f 0 = nw' \<and> (\<forall>k. net_step I (f k) (f (Suc k)))) \<and>
    (stuck I nw' \<longrightarrow> (\<forall>i<n. ru_end (runner_of nw' i) = Some Finished \<and>
       map_of (sy_actors (nw_system nw')) (cx_path (ru_ctx (runner_of nw' i))) = None))"
proof (intro conjI impI allI)
  have c: "calm_net {} n nw'"
    by (rule calm_run [OF assms(3,1) tree_ready_calm [OF assms(2) [unfolded shutdown_requested_def]]])
  show "left nw' i" if "i < n" "parent_of nw' i = Some p \<and> left nw' p" for i p
    using that left_parent [OF c] by blast
  show "\<not> (\<exists>f. f 0 = nw' \<and> (\<forall>k. net_step I (f k) (f (Suc k))))"
    using no_infinite_run [where I = I, OF assms(1)] c by blast
  fix i assume s: "stuck I nw'" "i < n"
  from calm_ended [OF c s(2) stuck_ended [OF s(1) c]]
  show "ru_end (runner_of nw' i) = Some Finished"
    "map_of (sy_actors (nw_system nw')) (cx_path (ru_ctx (runner_of nw' i))) = None" by simp_all
qed

theorem shutdown_of_actor_tree_witness:
  "\<not> (\<exists>f. f 0 = ext_stop 0 True test_net \<and> (\<forall>k. net_step (\<lambda>_. test_impl True) (f k) (f (Suc k)))) \<and>
   \<not> stuck (\<lambda>_. test_impl True) (ext_stop 0 True test_net)"
proof -
  let ?nw = "ext_stop 0 True test_net"
  note d = ext_stop_def push_def add_stop_def ctx_stop_def test_net_def test_node_def test_state_def ctx_new_def
  have r: "shutdown_requested 2 ?nw"
    by (auto simp: shutdown_requested_def tree_ready_def selecting_def active_def ended_def wait_of_def parent_of_def d less_2_cases_iff)
  have "ru_end (runner_of ?nw 0) = None" by (simp add: d)
  then show ?thesis
    using shutdown_of_actor_tree [of "\<lambda>_. test_impl True", OF test_impl_calm r rtranclp.rtrancl_refl] by auto
qed

end
