(* ===== verification/Network_Deadlock.thy ===== *)
theory Network_Deadlock
  imports Network_Shutdown
begin

text \<open>
  Two awaits of \<open>src/actor/src/runner.rs\<close> that wait for each other: the child in the \<open>Fail\<close> branch of
  \<open>inner_handle\<close> waits for the action of its parent, and the parent in its stop branch waits in
  \<open>stop_childs\<close> for the answer of the child. Nothing that happens in the network ends this: the
  error branch of the parent and the stop branch of the child are not polled meanwhile.
\<close>

section \<open>A report of a failed child is only with its parent\<close>

definition faults_at_parent :: "('a, 'm, 'h, 'e) network \<Rightarrow> bool" where
  "faults_at_parent nw \<longleftrightarrow>
     (\<forall>q e j. ChildFault e j \<in> set (ru_errors (runner_of nw q)) \<longrightarrow> parent_of nw j = Some q)"

lemma with_hook_errors: "(\<And>res r. ru_errors (k res r) = ru_errors r) \<Longrightarrow> ru_errors (with_hook hook r k) = ru_errors r"
  by (simp add: with_hook_def Let_def split_beta panic_end_def)

lemma steps_errors [simp]:
  "ru_errors (stop_begin I r) = ru_errors r" "ru_errors (stop_finish stop r) = ru_errors r"
  "ru_errors (run_msg I msg r) = ru_errors r" "ru_errors (run_child_error I err r) = ru_errors r"
  "ru_errors (inner_handle answer action r) = ru_errors r" "ru_errors (request_stop r) = ru_errors r"
  "ru_errors (take_stop rest r) = ru_errors r" "ru_errors (take_inner xs r) = ru_errors r"
  "ru_errors (pop_child j r) = ru_errors r" "ru_errors (add_stop stop r) = ru_errors r"
proof -
  show "ru_errors (stop_begin I r) = ru_errors r"
    unfolding stop_begin_def by (rule with_hook_errors) (simp add: stop_failed_def split: outcome.split)
  show "ru_errors (run_msg I msg r) = ru_errors r"
    unfolding run_msg_def using with_hook_errors [of "\<lambda>_ r. r" "handle_msg I msg" "emit [OutHandled msg] r"] by simp
qed (simp_all add: stop_finish_def after_run_def run_child_error_def inner_handle_def request_stop_def
    take_stop_def take_inner_def pop_child_def add_stop_def Let_def split_beta
    split: ChildError.split InnerAction.split option.split ChildAction.split)

lemma init_turn_errors [simp]: "ru_errors (init_turn I r) = ru_errors r"
proof (cases "ru_lifecycle r")
  case Created
  then show ?thesis by (simp add: init_turn_def with_hook_errors split: outcome.split)
next
  case Restarted
  have "ru_errors (apply_supervision_strategy I s r) = ru_errors r" for s
    by (rule supervision_cases) (simp_all add: panic_end_def)
  with Restarted show ?thesis by (simp add: init_turn_def)
next
  case Stopped
  then show ?thesis by (simp add: init_turn_def with_hook_errors)
qed (simp_all add: init_turn_def)

lemma faults_put:
  assumes "faults_at_parent nw" "set (ru_errors r) \<subseteq> set (ru_errors (runner_of nw i))"
  shows "faults_at_parent (put_runner i r w nw)"
  using assms unfolding faults_at_parent_def by (auto simp: subset_iff)

lemma faults_push:
  assumes "faults_at_parent nw" "set (ru_errors (f (runner_of nw i))) \<subseteq> set (ru_errors (runner_of nw i))"
  shows "faults_at_parent (push i f nw)"
  using assms unfolding faults_at_parent_def by (auto simp: subset_iff)

lemma faults_report:
  assumes "faults_at_parent nw" "\<And>e j. err = ChildFault e j \<Longrightarrow> j = i"
  shows "faults_at_parent (report_parent i err nw)"
  using assms unfolding faults_at_parent_def report_parent_def
  by (auto simp: add_report_def split: option.split)

lemma faults_simps [simp]:
  "faults_at_parent (nw\<lparr>nw_token := t\<rparr>) = faults_at_parent nw"
  "faults_at_parent (put_wait i w nw) = faults_at_parent nw"
  "faults_at_parent (deliver_action i action nw) = faults_at_parent nw"
  by (auto simp: faults_at_parent_def deliver_action_def split: wait.split option.split)

lemma faults_step: "net_step I nw nw' \<Longrightarrow> faults_at_parent nw \<Longrightarrow> faults_at_parent nw'"
proof (induction rule: net_step.induct)
  case (NetInner nw i action rest)
  then show ?case
    by (auto simp: node_inner_def Let_def intro!: faults_put faults_report split: InnerAction.split)
next
  case (NetError nw i err rest)
  then show ?case by (auto simp: node_error_def Let_def intro!: faults_put split: ChildError.split)
qed (auto simp: node_ops Let_def intro!: faults_put faults_push)

lemma faults_arrival: "net_arrival nw nw' \<Longrightarrow> faults_at_parent nw \<Longrightarrow> faults_at_parent nw'"
  by (induction rule: net_arrival.induct) (auto simp: ext_stop_def intro!: faults_push)

section \<open>The two waits\<close>

definition mutual_wait :: "nat \<Rightarrow> nat \<Rightarrow> ('a, 'm, 'h, 'e) network \<Rightarrow> bool" where
  "mutual_wait p j nw \<longleftrightarrow> p \<noteq> j \<and> \<not> ended nw p \<and> \<not> ended nw j \<and> parent_of nw j = Some p \<and>
     (\<exists>stop tok. wait_of nw p = AwaitStopped stop j tok \<and> token_held tok j nw) \<and>
     (\<exists>e. wait_of nw j = AwaitAction e None)"

text \<open>An update of another actor, a push, and an action for another actor leave the two as they are.\<close>

lemma mutual_wait_put: "mutual_wait p j nw \<Longrightarrow> i \<noteq> p \<Longrightarrow> i \<noteq> j \<Longrightarrow> mutual_wait p j (put_runner i r w nw)"
  by (auto simp: mutual_wait_def token_held_iff)

lemma mutual_wait_push:
  assumes "mutual_wait p j nw" "\<And>r. ru_end (f r) = ru_end r"
    "\<And>r. set (cx_stop (ru_ctx r)) \<subseteq> set (cx_stop (ru_ctx (f r)))"
  shows "mutual_wait p j (push i f nw)"
  using assms by (auto simp: mutual_wait_def token_held_iff ended_def subset_iff)

lemma mutual_wait_messages:
  "mutual_wait p j nw \<Longrightarrow> mutual_wait p j (push i (add_stop stop) nw)"
  "mutual_wait p j nw \<Longrightarrow> mutual_wait p j (report_parent i err nw)"
  "mutual_wait p j nw \<Longrightarrow> i \<noteq> j \<Longrightarrow> mutual_wait p j (deliver_action i action nw)"
  "mutual_wait p j nw \<Longrightarrow> i \<noteq> p \<Longrightarrow> i \<noteq> j \<Longrightarrow> mutual_wait p j (put_wait i w nw)"
  "mutual_wait p j (nw\<lparr>nw_token := t\<rparr>) = mutual_wait p j nw"
proof -
  show w: "mutual_wait p j (put_wait i w nw)" if "mutual_wait p j nw" "i \<noteq> p" "i \<noteq> j" for i w
    using that by (auto simp: mutual_wait_def token_held_iff)
  show "mutual_wait p j nw \<Longrightarrow> mutual_wait p j (push i (add_stop stop) nw)"
    by (rule mutual_wait_push) (auto simp: add_stop_def ctx_stop_def)
  have "mutual_wait p j nw \<Longrightarrow> mutual_wait p j (push q (add_report err) nw)" for q
    by (rule mutual_wait_push) (auto simp: add_report_def)
  then show "mutual_wait p j nw \<Longrightarrow> mutual_wait p j (report_parent i err nw)"
    by (simp add: report_parent_def split: option.split)
  show "mutual_wait p j nw \<Longrightarrow> i \<noteq> j \<Longrightarrow> mutual_wait p j (deliver_action i action nw)"
    using w by (cases "i = p") (auto simp: deliver_action_def mutual_wait_def split: wait.split option.split)
  show "mutual_wait p j (nw\<lparr>nw_token := t\<rparr>) = mutual_wait p j nw"
    by (simp add: mutual_wait_def token_held_iff)
qed

lemma mutual_wait_acting:
  assumes "mutual_wait p j nw"
  shows "\<not> active nw p" "\<not> active nw j" "\<not> selecting nw p" "\<not> selecting nw j" "\<not> serving nw p" "\<not> serving nw j"
    "wait_of nw p \<noteq> StoppingChilds stop" "wait_of nw j \<noteq> StoppingChilds stop"
    "wait_of nw p \<noteq> AwaitAction e a" "wait_of nw j \<noteq> AwaitStopped stop k tok" "wait_of nw j \<noteq> AwaitAction e (Some x)"
    "wait_of nw p = AwaitStopped stop k tok \<Longrightarrow> token_held tok k nw" "parent_listens nw j"
  using assms by (auto simp: mutual_wait_def active_def selecting_def serving_def parent_listens_def)

lemma mutual_wait_step: "net_step I nw nw' \<Longrightarrow> faults_at_parent nw \<Longrightarrow> mutual_wait p j nw \<Longrightarrow> mutual_wait p j nw'"
proof (induction rule: net_step.induct)
  case (NetError nw i err rest)
  have i: "i \<noteq> p" "i \<noteq> j" using NetError mutual_wait_acting(5,6) [OF NetError(4)] by auto
  have "k \<noteq> j" if "err = ChildFault e k" for e k
  proof -
    have "ChildFault e k \<in> set (ru_errors (runner_of nw i))" using that NetError(2) by simp
    then have "parent_of nw k = Some i" using NetError(3) unfolding faults_at_parent_def by blast
    then show ?thesis using NetError(4) i by (auto simp: mutual_wait_def)
  qed
  then show ?case
    using mutual_wait_put [OF NetError(4) i]
    by (auto simp: node_error_def Let_def intro: mutual_wait_messages split: ChildError.split)
next
  case (NetInner nw i action rest)
  have i: "i \<noteq> p" "i \<noteq> j" using NetInner mutual_wait_acting(5,6) [OF NetInner(4)] by auto
  show ?case
    using mutual_wait_put [OF NetInner(4) i]
    by (auto simp: node_inner_def Let_def intro: mutual_wait_messages split: InnerAction.split)
next
  case (NetStopReply nw i stop k tok)
  have i: "i \<noteq> p" "i \<noteq> j" using NetStopReply mutual_wait_acting(10,12) [OF NetStopReply(5)] by auto
  show ?case by (rule mutual_wait_messages(4) [OF NetStopReply(5) i])
next
  case (NetStopChild nw i stop)
  have i: "i \<noteq> p" "i \<noteq> j" using NetStopChild mutual_wait_acting(7,8) [OF NetStopChild(5)] by auto
  show ?case
    using mutual_wait_put [OF NetStopChild(5) i]
    by (auto simp: node_stop_child_def Let_def mutual_wait_messages)
next
  case (NetDropped nw i e)
  have i: "i \<noteq> p" "i \<noteq> j" using NetDropped mutual_wait_acting(9,13) [OF NetDropped(5)] by auto
  show ?case unfolding node_resume_def by (rule mutual_wait_put [OF NetDropped(5) i])
qed (auto simp: node_ops Let_def dest: mutual_wait_acting intro!: mutual_wait_put)

lemma mutual_wait_arrival: "net_arrival nw nw' \<Longrightarrow> mutual_wait p j nw \<Longrightarrow> mutual_wait p j nw'"
  by (induction rule: net_arrival.induct)
    (auto simp: ext_stop_def intro: mutual_wait_push mutual_wait_messages simp: mutual_wait_messages(5))

lemma mutual_wait_run:
  assumes "(net_any I)\<^sup>*\<^sup>* nw nw'" "faults_at_parent nw" "mutual_wait p j nw"
  shows "faults_at_parent nw' \<and> mutual_wait p j nw'"
  using assms
proof (induction rule: rtranclp_induct)
  case (step nw1 nw2)
  then show ?case
    unfolding net_any_def by (blast intro: faults_step faults_arrival mutual_wait_step mutual_wait_arrival)
qed simp

section \<open>Properties\<close>

text \<open>The child fails in its message handler and reports to its parent; before the parent takes the
  report, it takes a stop request.\<close>

definition failing_impl :: "(bool, unit, unit, unit) actor_impl" where
  "failing_impl = (test_impl True)\<lparr>handle_msg := \<lambda>_ (failed, c). (Ok (), failed, snd (ctx_emit_fail ActorErr_Stop c))\<rparr>"

definition fail_moves :: "((bool, unit, unit, unit) network \<Rightarrow> (bool, unit, unit, unit) network) list" where
  "fail_moves =
     [push 1 (\<lambda>r. r\<lparr>ru_receiver := ru_receiver r @ [()]\<rparr>), node_msg (\<lambda>_. failing_impl) 1 () [],
      node_inner 1 (InnerFail ActorErr_Stop) [], ext_stop 0 True,
      node_stop (\<lambda>_. failing_impl) 0 (Some 0) [], node_stop_child 0 (Some 0)]"

definition fail_run :: "nat \<Rightarrow> (bool, unit, unit, unit) network" where
  "fail_run k = foldl (\<lambda>nw f. f nw) test_net (take k fail_moves)"

lemmas test_states = test_net_def test_node_def test_state_def ctx_new_def system_new_def failing_impl_def test_impl_def

lemma fail_run_eqs:
  "fail_run 1 = push 1 (\<lambda>r. r\<lparr>ru_receiver := ru_receiver r @ [()]\<rparr>) (fail_run 0)"
  "fail_run 2 = node_msg (\<lambda>_. failing_impl) 1 () [] (fail_run 1)"
  "fail_run 3 = node_inner 1 (InnerFail ActorErr_Stop) [] (fail_run 2)"
  "fail_run 4 = ext_stop 0 True (fail_run 3)"
  "fail_run 5 = node_stop (\<lambda>_. failing_impl) 0 (Some 0) [] (fail_run 4)"
  "fail_run 6 = node_stop_child 0 (Some 0) (fail_run 5)"
  by (simp_all add: fail_run_def fail_moves_def)

text \<open>What the states of the run have in common, and their differences.\<close>

definition run_state ::
  "nat \<Rightarrow> wait \<Rightarrow> wait \<Rightarrow> nat option list \<Rightarrow> nat option list \<Rightarrow> nat list \<Rightarrow> unit list \<Rightarrow> unit InnerAction list \<Rightarrow>
   ChildError list \<Rightarrow> bool" where
  "run_state k wait0 wait1 stops0 stops1 kids msgs inner reports \<longleftrightarrow>
     (let nw = fail_run k; r0 = runner_of nw 0; r1 = runner_of nw 1 in
      wait_of nw 0 = wait0 \<and> wait_of nw 1 = wait1 \<and> cx_stop (ru_ctx r0) = stops0 \<and> cx_stop (ru_ctx r1) = stops1 \<and>
      senders r0 = kids \<and> ru_receiver r1 = msgs \<and> cx_inner (ru_ctx r1) = inner \<and> ru_errors r0 = reports \<and>
      ru_running r0 \<and> ru_running r1 \<and> \<not> ended nw 0 \<and> \<not> ended nw 1 \<and>
      \<not> ru_stop_signal r1 \<and> \<not> ru_closed r1 \<and> parent_of nw 1 = Some 0)"

lemmas run_defs = run_state_def fail_run_def fail_moves_def test_states wait_of_def parent_of_def ended_def
  put_runner_def push_def runner_at_def with_system_def node_ops run_msg_def with_hook_def emit_def
  ctx_emit_fail_def ctx_set_error_def take_inner_def report_parent_def parent_listens_def add_report_def
  ext_stop_def add_stop_def ctx_stop_def stop_begin_def take_stop_def stop_failed_def pop_child_def

lemma run_states:
  "run_state 0 NoWait NoWait [] [] [1] [] [] []"
  "run_state 1 NoWait NoWait [] [] [1] [()] [] []"
  "run_state 2 NoWait NoWait [] [] [1] [] [InnerFail ActorErr_Stop] []"
  "run_state 3 NoWait (AwaitAction ActorErr_Stop None) [] [] [1] [] [] [ChildFault ActorErr_Stop 1]"
  "run_state 4 NoWait (AwaitAction ActorErr_Stop None) [Some 0] [] [1] [] [] [ChildFault ActorErr_Stop 1]"
  "run_state 5 (StoppingChilds (Some 0)) (AwaitAction ActorErr_Stop None) [] [] [1] [] [] [ChildFault ActorErr_Stop 1]"
  "run_state 6 (AwaitStopped (Some 0) 1 1) (AwaitAction ActorErr_Stop None) [] [Some 1] [] [] []
    [ChildFault ActorErr_Stop 1]"
  by (simp_all add: run_defs)

lemma fail_run_steps:
  "net_any (\<lambda>_. failing_impl) (fail_run 0) (fail_run 1)" "net_any (\<lambda>_. failing_impl) (fail_run 1) (fail_run 2)"
  "net_any (\<lambda>_. failing_impl) (fail_run 2) (fail_run 3)" "net_any (\<lambda>_. failing_impl) (fail_run 3) (fail_run 4)"
  "net_any (\<lambda>_. failing_impl) (fail_run 4) (fail_run 5)" "net_any (\<lambda>_. failing_impl) (fail_run 5) (fail_run 6)"
proof -
  note st = run_states [unfolded run_state_def Let_def] serving_def selecting_def active_def
  show "net_any (\<lambda>_. failing_impl) (fail_run 0) (fail_run 1)"
    unfolding net_any_def fail_run_eqs(1) by (intro disjI2 ExtMsg) (use st(1) in simp_all)
  show "net_any (\<lambda>_. failing_impl) (fail_run 1) (fail_run 2)"
    unfolding net_any_def fail_run_eqs(2) by (intro disjI1 NetMsg) (use st(2) in \<open>simp_all add: st(8-10)\<close>)
  show "net_any (\<lambda>_. failing_impl) (fail_run 2) (fail_run 3)"
    unfolding net_any_def fail_run_eqs(3) by (intro disjI1 NetInner) (use st(3) in \<open>simp_all add: st(8-10)\<close>)
  show "net_any (\<lambda>_. failing_impl) (fail_run 3) (fail_run 4)"
    unfolding net_any_def fail_run_eqs(4) by (intro disjI2 ExtStop) (use st(4) in simp_all)
  show "net_any (\<lambda>_. failing_impl) (fail_run 4) (fail_run 5)"
    unfolding net_any_def fail_run_eqs(5) by (intro disjI1 NetStop) (use st(5) in \<open>simp_all add: st(8-10)\<close>)
  show "net_any (\<lambda>_. failing_impl) (fail_run 5) (fail_run 6)"
    unfolding net_any_def fail_run_eqs(6) by (intro disjI1 NetStopChild) (use st(6) in simp_all)
qed

lemma fail_run_reachable: "(net_any (\<lambda>_. failing_impl))\<^sup>*\<^sup>* test_net (fail_run 6)"
proof -
  have "(net_any (\<lambda>_. failing_impl))\<^sup>*\<^sup>* (fail_run 0) (fail_run 6)"
    by (rule rtranclp_trans [of "net_any (\<lambda>_. failing_impl)",
          OF steps4 [of "net_any (\<lambda>_. failing_impl)", OF fail_run_steps(1-4)]
            steps2 [of "net_any (\<lambda>_. failing_impl)", OF fail_run_steps(5,6)]])
  then show ?thesis by (simp add: fail_run_def)
qed

lemma test_net_faults: "faults_at_parent test_net"
  by (simp add: faults_at_parent_def test_states)

lemma fail_run_waits: "mutual_wait 0 1 (fail_run 6)"
  using run_states(7) by (simp add: run_state_def mutual_wait_def token_held_iff Let_def)

text \<open>C5. A parent in its stop branch that waits for a child which in turn waits for the action of the
  parent: whatever arrives and whatever the other actors do, both wait for ever. A network of a root
  and one child gets there, when the child fails in a message handler and the parent takes a stop
  request before the report of the child.\<close>

theorem failing_child_blocks_stop:
  assumes "faults_at_parent nw" "mutual_wait p j nw"
  shows "((net_any I)\<^sup>*\<^sup>* nw nw' \<longrightarrow>
      \<not> ended nw' p \<and> \<not> ended nw' j \<and> (\<exists>stop tok. wait_of nw' p = AwaitStopped stop j tok) \<and>
      (\<exists>e. wait_of nw' j = AwaitAction e None)) \<and>
    (\<exists>d. (net_any (\<lambda>_. failing_impl))\<^sup>*\<^sup>* test_net d \<and> faults_at_parent d \<and> mutual_wait 0 1 d)"
proof (intro conjI impI)
  assume "(net_any I)\<^sup>*\<^sup>* nw nw'"
  from mutual_wait_run [OF this assms] have "mutual_wait p j nw'" by simp
  then show "\<not> ended nw' p" "\<not> ended nw' j" "\<exists>stop tok. wait_of nw' p = AwaitStopped stop j tok"
    "\<exists>e. wait_of nw' j = AwaitAction e None"
    by (auto simp: mutual_wait_def)
next
  have "faults_at_parent (fail_run 6)"
    using fail_run_reachable by (induction rule: rtranclp_induct)
      (auto intro: test_net_faults faults_step faults_arrival simp: net_any_def)
  then show "\<exists>d. (net_any (\<lambda>_. failing_impl))\<^sup>*\<^sup>* test_net d \<and> faults_at_parent d \<and> mutual_wait 0 1 d"
    using fail_run_reachable fail_run_waits by blast
qed

theorem failing_child_blocks_stop_witness:
  "\<exists>d. (net_any (\<lambda>_. failing_impl))\<^sup>*\<^sup>* test_net d \<and>
     (\<forall>nw'. (net_any (\<lambda>_. failing_impl))\<^sup>*\<^sup>* d nw' \<longrightarrow> \<not> ended nw' 0 \<and> \<not> ended nw' 1)"
proof -
  have "faults_at_parent (fail_run 6)"
    using run_states(7) by (auto simp: faults_at_parent_def run_state_def fail_run_def fail_moves_def run_defs)
  from failing_child_blocks_stop [OF this fail_run_waits] fail_run_reachable show ?thesis by blast
qed

end
