(* ===== verification/System_Shutdown.thy ===== *)
theory System_Shutdown
  imports Network_Shutdown
begin

text \<open>
  The shutdown of a whole system: the background task of \<open>SystemRef::new\<close> (\<open>src/actor/src/system.rs\<close>) over
  the network of actors. When the token is cancelled the task takes the lock of \<open>root_senders\<close>, which
  it holds until it returns, so the list is its own; it pops the root actors from the end, asks each
  to stop and waits for the answer before it goes on. It runs concurrently with all actors.
\<close>

datatype shutdown_phase = ShutLoop | ShutAwait nat nat | ShutReturned nat | ShutSent

record ('a, 'm, 'h, 'e) sysnet =
  ss_net :: "('a, 'm, 'h, 'e) network"
  ss_roots :: "nat list"
  ss_phase :: shutdown_phase

text \<open>The system when the token has been cancelled and the task has the lock.\<close>

definition sys_cancelled :: "('a, 'm, 'h, 'e) network \<Rightarrow> ('a, 'm, 'h, 'e) sysnet" where
  "sys_cancelled nw = \<lparr>ss_net = nw, ss_roots = sy_root_senders (nw_system nw), ss_phase = ShutLoop\<rparr>"

text \<open>One turn of the loop up to its await: a root that has ended makes the task return.\<close>

definition sys_pop :: "('a, 'm, 'h, 'e) sysnet \<Rightarrow> ('a, 'm, 'h, 'e) sysnet" where
  "sys_pop s =
     (let j = last (ss_roots s); s' = s\<lparr>ss_roots := butlast (ss_roots s)\<rparr>
      in if ended (ss_net s) j then s'\<lparr>ss_phase := ShutReturned j\<rparr>
         else s'\<lparr>ss_net := ext_stop j True (ss_net s), ss_phase := ShutAwait j (nw_token (ss_net s))\<rparr>)"

inductive sys_step ::
  "(nat \<Rightarrow> ('a, 'm, 'h, 'e) actor_impl) \<Rightarrow> ('a, 'm, 'h, 'e) sysnet \<Rightarrow> ('a, 'm, 'h, 'e) sysnet \<Rightarrow> bool"
  for I :: "nat \<Rightarrow> ('a, 'm, 'h, 'e) actor_impl" where
  SysActor: "net_step I (ss_net s) nw \<Longrightarrow> sys_step I s (s\<lparr>ss_net := nw\<rparr>)"
| SysPop: "ss_phase s = ShutLoop \<Longrightarrow> ss_roots s \<noteq> [] \<Longrightarrow> sys_step I s (sys_pop s)"
| SysReply: "ss_phase s = ShutAwait j tok \<Longrightarrow> \<not> token_held tok j (ss_net s) \<Longrightarrow>
     sys_step I s (s\<lparr>ss_phase := ShutLoop\<rparr>)"
| SysSend: "ss_phase s = ShutLoop \<Longrightarrow> ss_roots s = [] \<Longrightarrow> sys_step I s (s\<lparr>ss_phase := ShutSent\<rparr>)"

definition sys_any ::
  "(nat \<Rightarrow> ('a, 'm, 'h, 'e) actor_impl) \<Rightarrow> ('a, 'm, 'h, 'e) sysnet \<Rightarrow> ('a, 'm, 'h, 'e) sysnet \<Rightarrow> bool" where
  "sys_any I s s' \<longleftrightarrow> sys_step I s s' \<or> (\<exists>nw. net_arrival (ss_net s) nw \<and> s' = s\<lparr>ss_net := nw\<rparr>)"

text \<open>What the system runner gets: the task sends \<open>StopSystem\<close> at its end only, and drops its sender.\<close>

fun sys_result :: "shutdown_phase \<Rightarrow> (unit, actor_error) outcome option" where
  "sys_result ShutSent = system_runner_run False [StopSystem]"
| "sys_result (ShutReturned j) = system_runner_run False []"
| "sys_result _ = system_runner_run True []"

section \<open>What the actors keep\<close>

lemma push_parent: "parent_of (report_parent i err nw) = parent_of nw" "parent_of (deliver_action i action nw) = parent_of nw"
  by (auto simp: fun_eq_iff report_parent_def deliver_action_def split: option.split wait.split)

lemma net_parent: "net_step I nw nw' \<Longrightarrow> parent_of nw' = parent_of nw"
  by (induction rule: net_step.induct)
    (auto simp: fun_eq_iff node_ops node_error_def node_inner_def node_stop_child_def Let_def push_parent
      split: ChildError.split InnerAction.split)

lemma ended_messages:
  "ended (report_parent i err nw) j = ended nw j" "ended (deliver_action i action nw) j = ended nw j"
  "ended (push i (add_stop stop) nw) j = ended nw j"
  by (auto simp: ended_def report_parent_def deliver_action_def put_wait_def push_def add_report_def add_stop_def
      split: option.split wait.split)

lemma net_ended: "net_step I nw nw' \<Longrightarrow> ended nw j \<Longrightarrow> ended nw' j"
  by (induction rule: net_step.induct)
    (auto simp: node_ops node_error_def node_inner_def node_stop_child_def Let_def ended_messages
      active_def selecting_def serving_def split: ChildError.split InnerAction.split)

lemma arrival_parent_ended:
  "net_arrival nw nw' \<Longrightarrow> parent_of nw' = parent_of nw \<and> (ended nw j \<longrightarrow> ended nw' j)"
  by (induction rule: net_arrival.induct) (auto simp: fun_eq_iff ext_stop_def ended_messages)

lemma net_any_parent_ended:
  "net_any I nw nw' \<Longrightarrow> parent_of nw' = parent_of nw \<and> (ended nw j \<longrightarrow> ended nw' j)"
  unfolding net_any_def by (auto dest: net_parent net_ended arrival_parent_ended)

section \<open>The invariant\<close>

text \<open>The roots still in the list need not have a stop request; the one the task waits for has had one.\<close>

definition a_root :: "nat \<Rightarrow> ('a, 'm, 'h, 'e) network \<Rightarrow> nat \<Rightarrow> bool" where
  "a_root n nw j \<longleftrightarrow> j < n \<and> parent_of nw j = None"

definition sys_inv :: "nat \<Rightarrow> ('a, 'm, 'h, 'e) sysnet \<Rightarrow> bool" where
  "sys_inv n s \<longleftrightarrow>
     calm_net (set (ss_roots s)) n (ss_net s) \<and> distinct (ss_roots s) \<and>
     (\<forall>j \<in> set (ss_roots s). a_root n (ss_net s) j) \<and>
     (case ss_phase s of
        ShutLoop \<Rightarrow> True
      | ShutAwait j tok \<Rightarrow> a_root n (ss_net s) j \<and> j \<notin> set (ss_roots s)
      | ShutReturned j \<Rightarrow> a_root n (ss_net s) j \<and> j \<notin> set (ss_roots s) \<and> ended (ss_net s) j
      | ShutSent \<Rightarrow> ss_roots s = [])"

lemma calm_net_asked: "calm_net R n nw \<Longrightarrow> pending nw j \<Longrightarrow> R \<subseteq> insert j R' \<Longrightarrow> calm_net R' n nw"
  unfolding calm_net_def by blast

lemma pending_ext_stop: "pending (ext_stop j True nw) j"
  by (simp add: pending_def ext_stop_def add_stop_def ctx_stop_def push_def)

lemma calm_ext_stop: "calm_net R n nw \<Longrightarrow> calm_net R n (ext_stop j reply nw)"
  by (simp add: ext_stop_def calm_net_add_stop)

lemma sys_inv_net:
  assumes "net_any I (ss_net s) nw" "sys_inv n s" "\<And>i. calm (I i)"
  shows "sys_inv n (s\<lparr>ss_net := nw\<rparr>)"
proof -
  note k = net_any_parent_ended [OF assms(1)]
  have "calm_net (set (ss_roots s)) n nw"
    using calm_run [where I = I, OF r_into_rtranclp [of "net_any I", OF assms(1)] assms(3)] assms(2)
    by (simp add: sys_inv_def)
  with k assms(2) show ?thesis by (auto simp: sys_inv_def a_root_def split: shutdown_phase.splits)
qed

lemma sys_inv_pop:
  assumes inv: "sys_inv n s" and ne: "ss_roots s \<noteq> []"
  shows "sys_inv n (sys_pop s)"
proof -
  let ?j = "last (ss_roots s)" and ?rest = "butlast (ss_roots s)"
  have roots: "ss_roots s = ?rest @ [?j]" using ne by simp
  then have "distinct (?rest @ [?j])" using inv by (simp only: sys_inv_def)
  then have d: "distinct ?rest" "?j \<notin> set ?rest" by simp_all
  have sub: "set (ss_roots s) \<subseteq> insert ?j (set ?rest)" by (subst roots) auto
  have r: "a_root n (ss_net s) ?j" "\<forall>j \<in> set ?rest. a_root n (ss_net s) j"
    using inv ne in_set_butlastD unfolding sys_inv_def by fastforce+
  have c: "calm_net (set (ss_roots s)) n (ss_net s)" using inv by (simp add: sys_inv_def)
  show ?thesis
  proof (cases "ended (ss_net s) ?j")
    case True
    then have "pending (ss_net s) ?j" by (simp add: pending_def ended_left)
    from calm_net_asked [OF c this sub] True d r show ?thesis by (simp add: sys_pop_def sys_inv_def Let_def)
  next
    case False
    have p: "parent_of (ext_stop ?j True (ss_net s)) = parent_of (ss_net s)"
      by (simp add: fun_eq_iff ext_stop_def)
    from calm_net_asked [OF calm_ext_stop [OF c] pending_ext_stop sub] False d r p
    show ?thesis by (simp add: sys_pop_def sys_inv_def a_root_def Let_def)
  qed
qed

lemma sys_inv_step: "sys_step I s s' \<Longrightarrow> (\<And>i. calm (I i)) \<Longrightarrow> sys_inv n s \<Longrightarrow> sys_inv n s'"
proof (induction rule: sys_step.induct)
  case (SysActor s nw)
  then show ?case using sys_inv_net [where I = I] by (simp add: net_any_def)
next
  case (SysPop s)
  then show ?case using sys_inv_pop by blast
qed (simp_all add: sys_inv_def)

lemma sys_inv_run:
  assumes "(sys_any I)\<^sup>*\<^sup>* s s'" "\<And>i. calm (I i)" "sys_inv n s"
  shows "sys_inv n s'"
  using assms(1)
proof (induction rule: rtranclp_induct)
  case (step s1 s2)
  then show ?case using sys_inv_step [where I = I, OF _ assms(2)] sys_inv_net [where I = I, OF _ _ assms(2)]
    unfolding sys_any_def net_any_def by blast
qed (use assms(3) in simp)

section \<open>Termination\<close>

text \<open>What is left to do for the task; a step of an actor leaves it and lowers a rank of the network.\<close>

definition shutdown_rank :: "('a, 'm, 'h, 'e) sysnet \<Rightarrow> nat" where
  "shutdown_rank s = 2 * length (ss_roots s) +
     (case ss_phase s of ShutLoop \<Rightarrow> 1 | ShutAwait _ _ \<Rightarrow> 2 | _ \<Rightarrow> 0)"

definition sys_ranks :: "nat \<Rightarrow> (('a, 'm, 'h, 'e) sysnet \<times> ('a, 'm, 'h, 'e) sysnet) set" where
  "sys_ranks n = inv_image (less_than <*lex*> ranks n) (\<lambda>s. (shutdown_rank s, ss_net s))"

lemma wf_sys_ranks: "wf (sys_ranks n)"
  unfolding sys_ranks_def by (intro wf_inv_image wf_lex_prod wf_less_than) (simp add: ranks_def)

lemma sys_step_ranks:
  "sys_step I s s' \<Longrightarrow> (\<And>i. calm (I i)) \<Longrightarrow> sys_inv n s \<Longrightarrow> (s', s) \<in> sys_ranks n"
proof (induction rule: sys_step.induct)
  case (SysActor s nw)
  then have "(nw, ss_net s) \<in> ranks n" using calm_step [where I = I] unfolding sys_inv_def by blast
  then show ?case by (simp add: sys_ranks_def shutdown_rank_def)
next
  case (SysPop s)
  then obtain m where "length (ss_roots s) = Suc m" by (cases "ss_roots s") auto
  with SysPop(1) show ?case by (simp add: sys_ranks_def shutdown_rank_def sys_pop_def Let_def)
qed (simp_all add: sys_ranks_def shutdown_rank_def)

lemma sys_no_infinite_run:
  assumes "\<And>i. calm (I i)" "sys_inv n (f 0)"
  shows "\<exists>k. \<not> sys_step I (f k) (f (Suc k))"
proof (rule ccontr)
  assume "\<not> (\<exists>k. \<not> sys_step I (f k) (f (Suc k)))"
  then have run: "sys_step I (f k) (f (Suc k))" for k by blast
  have "sys_inv n (f k)" for k
    by (induction k) (use assms(2) sys_inv_step [OF run assms(1)] in auto)
  then have "(f (Suc k), f k) \<in> sys_ranks n" for k using sys_step_ranks [OF run assms(1)] by blast
  with wf_sys_ranks show False unfolding wf_iff_no_infinite_down_chain by blast
qed

section \<open>Where the steps end\<close>

definition sys_stuck :: "(nat \<Rightarrow> ('a, 'm, 'h, 'e) actor_impl) \<Rightarrow> ('a, 'm, 'h, 'e) sysnet \<Rightarrow> bool" where
  "sys_stuck I s \<longleftrightarrow> \<not> (\<exists>s'. sys_step I s s')"

text \<open>Every schedule can be carried on to its end.\<close>

lemma sys_reaches_end:
  assumes "\<And>i. calm (I i)" "sys_inv n s"
  shows "\<exists>s'. (sys_step I)\<^sup>*\<^sup>* s s' \<and> sys_stuck I s'"
  using wf_sys_ranks [of n] assms(2)
proof (induction s rule: wf_induct_rule)
  case (less s)
  show ?case
  proof (cases "sys_stuck I s")
    case False
    then obtain s1 where s1: "sys_step I s s1" by (auto simp: sys_stuck_def)
    from less.IH [OF sys_step_ranks [OF s1 assms(1) less.prems] sys_inv_step [OF s1 assms(1) less.prems]]
    show ?thesis by (meson s1 converse_rtranclp_into_rtranclp)
  qed blast
qed

lemma sys_stuck_net: "sys_stuck I s \<Longrightarrow> stuck I (ss_net s)"
  using SysActor unfolding sys_stuck_def stuck_def by blast

lemma sys_stuck_phase:
  assumes s: "sys_stuck I s" and inv: "sys_inv n s"
  shows "ss_phase s = ShutSent \<or> (\<exists>j. ss_phase s = ShutReturned j)"
proof (cases "ss_phase s")
  case ShutLoop
  then show ?thesis using s SysPop [of s I] SysSend [of s I] unfolding sys_stuck_def by blast
next
  case (ShutAwait j tok)
  then have j: "a_root n (ss_net s) j" "j \<notin> set (ss_roots s)" and c: "calm_net (set (ss_roots s)) n (ss_net s)"
    using inv by (simp_all add: sys_inv_def)
  have "\<not> below (ss_net s) r j" if "r \<in> set (ss_roots s)" for r
    using that j below_root [of "ss_net s" j r] by (auto simp: a_root_def)
  then have "ended (ss_net s) j" using stuck_ended_below [OF sys_stuck_net [OF s] c] by blast
  then have "\<not> token_held tok j (ss_net s)" by (simp add: token_held_iff)
  then show ?thesis using s SysReply [of s j tok I] ShutAwait unfolding sys_stuck_def by blast
qed auto

section \<open>Properties\<close>

text \<open>The system before the shutdown: a tree of running actors, whose roots are in \<open>root_senders\<close>.\<close>

definition system_running :: "nat \<Rightarrow> ('a, 'm, 'h, 'e) network \<Rightarrow> bool" where
  "system_running n nw \<longleftrightarrow>
     (let roots = sy_root_senders (nw_system nw)
      in tree_ready (set roots) n nw \<and> distinct roots \<and> (\<forall>j \<in> set roots. a_root n nw j))"

lemma system_running_inv: "system_running n nw \<Longrightarrow> sys_inv n (sys_cancelled nw)"
  by (simp add: system_running_def sys_inv_def sys_cancelled_def Let_def tree_ready_calm)

text \<open>C3. The graceful shutdown of a system of calm actors, in every schedule of the shutdown task, the actors
  and the clients that still send: the task and the actors cannot go on for ever, and there are two ends.
  Either the task got an answer from every root: then every actor has finished and is unregistered,
  and the system runner returns. Or it found a root that had ended before it was asked: then it has
  returned without asking the roots left in its list, only the actors below the other roots are sure
  to have finished, and the system runner panics.

  Calm (\<open>calm\<close>): no hook panics or emits a failure or creates a child, the hooks only publish events and
  errors and ask for the stop of their own actor, \<open>pre_stop\<close> succeeds, and \<open>on_child_error\<close> leaves the context alone. When the
  token is cancelled (\<open>system_running\<close>) every actor is started and in its select loop, without an error,
  and no failure or fault is queued; the set of actors is fixed; every actor but the roots is among the children of an earlier one;
  the roots in the list of the system are distinct, and a root that is not in the list already has a
  stop request. Without these conditions a shutdown may never end, as \<open>Network_Deadlock\<close> shows for a child that fails.\<close>

theorem system_shutdown:
  assumes "\<And>i. calm (I i)" "system_running n nw" "(sys_any I)\<^sup>*\<^sup>* (sys_cancelled nw) s"
  shows "\<not> (\<exists>f. f 0 = s \<and> (\<forall>k. sys_step I (f k) (f (Suc k)))) \<and>
    (sys_stuck I s \<longrightarrow>
      (case ss_phase s of
         ShutSent \<Rightarrow>
           (\<forall>i<n. ru_end (runner_of (ss_net s) i) = Some Finished \<and>
              map_of (sy_actors (nw_system (ss_net s))) (cx_path (ru_ctx (runner_of (ss_net s) i))) = None) \<and>
           sys_result (ss_phase s) = Some (Ok ())
       | ShutReturned j \<Rightarrow>
           a_root n (ss_net s) j \<and> ended (ss_net s) j \<and> j \<notin> set (ss_roots s) \<and>
           (\<forall>i. (\<forall>r \<in> set (ss_roots s). \<not> below (ss_net s) r i) \<longrightarrow> ended (ss_net s) i) \<and>
           (\<exists>m. sys_result (ss_phase s) = Some (Panic m))
       | _ \<Rightarrow> False))"
proof (intro conjI impI)
  have inv: "sys_inv n s" by (rule sys_inv_run [OF assms(3,1) system_running_inv [OF assms(2)]])
  show "\<not> (\<exists>f. f 0 = s \<and> (\<forall>k. sys_step I (f k) (f (Suc k))))"
    using sys_no_infinite_run [where I = I, OF assms(1)] inv by blast
  assume st: "sys_stuck I s"
  note c = inv [unfolded sys_inv_def, THEN conjunct1]
  note e = stuck_ended_below [OF sys_stuck_net [OF st] c]
  from sys_stuck_phase [OF st inv] show "case ss_phase s of
       ShutSent \<Rightarrow>
         (\<forall>i<n. ru_end (runner_of (ss_net s) i) = Some Finished \<and>
            map_of (sy_actors (nw_system (ss_net s))) (cx_path (ru_ctx (runner_of (ss_net s) i))) = None) \<and>
         sys_result (ss_phase s) = Some (Ok ())
     | ShutReturned j \<Rightarrow>
         a_root n (ss_net s) j \<and> ended (ss_net s) j \<and> j \<notin> set (ss_roots s) \<and>
         (\<forall>i. (\<forall>r \<in> set (ss_roots s). \<not> below (ss_net s) r i) \<longrightarrow> ended (ss_net s) i) \<and>
         (\<exists>m. sys_result (ss_phase s) = Some (Panic m))
     | _ \<Rightarrow> False"
  proof (elim disjE exE)
    assume p: "ss_phase s = ShutSent"
    then have "set (ss_roots s) = {}" using inv by (simp add: sys_inv_def)
    then have "ended (ss_net s) i" for i using e [of i] by auto
    then show ?thesis using calm_ended [OF c] p by simp
  next
    fix j assume p: "ss_phase s = ShutReturned j"
    then show ?thesis using inv e by (simp add: sys_inv_def)
  qed
qed

text \<open>The root with one child of \<open>Network_Shutdown\<close>.\<close>

definition test_system :: "(bool, unit, unit, unit) network" where
  "test_system = test_net\<lparr>nw_system := (nw_system test_net)\<lparr>sy_root_senders := [0]\<rparr>\<rparr>"

lemma test_system_running: "system_running 2 test_system"
  by (auto simp: system_running_def tree_ready_def a_root_def selecting_def active_def ended_def wait_of_def
      parent_of_def test_system_def test_net_def test_node_def test_state_def ctx_new_def less_2_cases_iff)

theorem system_shutdown_witness:
  "\<exists>s. (sys_step (\<lambda>_. test_impl True))\<^sup>*\<^sup>* (sys_cancelled test_system) s \<and>
     (case ss_phase s of
        ShutSent \<Rightarrow> (\<forall>i<2. ru_end (runner_of (ss_net s) i) = Some Finished)
      | ShutReturned j \<Rightarrow> a_root 2 (ss_net s) j \<and> ended (ss_net s) j
      | _ \<Rightarrow> False)"
proof -
  let ?I = "\<lambda>_::nat. test_impl True"
  obtain s where s: "(sys_step ?I)\<^sup>*\<^sup>* (sys_cancelled test_system) s" "sys_stuck ?I s"
    using sys_reaches_end [of ?I, OF test_impl_calm system_running_inv [OF test_system_running]] by blast
  have run: "(sys_any ?I)\<^sup>*\<^sup>* (sys_cancelled test_system) s"
    by (rule mono_rtranclp [rule_format, OF _ s(1)]) (simp add: sys_any_def)
  from system_shutdown [of ?I, OF test_impl_calm test_system_running run] s(2)
  show ?thesis by (intro exI [of _ s] conjI s(1)) (auto split: shutdown_phase.splits)
qed

end
