(* ===== verification/Database.thy ===== *)
theory Database
  imports Rush_Errors
begin

text \<open>
  The storage traits of \<open>src/store/src/database.rs\<close>. A trait object is the record of its
  methods; a handle (\<open>'c\<close>, \<open>'s\<close>) is immutable and the database itself is the world \<open>'w\<close>, which
  outlives the actors that write to it. The provided methods \<open>last\<close> and \<open>get_by_range\<close> are
  defined here over any collection. An iterator is what its successive \<open>next()\<close> calls yield,
  a panic included.

  The contracts are locales: \<open>collection_laws\<close> and \<open>state_laws\<close> say what an implementation of
  the two traits promises in terms of its sorted entries and its single value, \<open>store_backend\<close>
  adds that the two storages of one actor do not interfere, and \<open>reopenable_backend\<close> that opening
  them again by name finds the same data. The lemmas about \<open>last\<close> and \<open>get_by_range\<close> are proved
  once in \<open>collection_laws\<close>.
\<close>

section \<open>Iterators\<close>

datatype 'a rust_iter = Done | Yield 'a "'a rust_iter" | Crash string

primrec iter_of_list :: "'a list \<Rightarrow> 'a rust_iter" where
  "iter_of_list [] = Done"
| "iter_of_list (x # xs) = Yield x (iter_of_list xs)"

section \<open>Traits\<close>

record ('w, 'c) collection =
  coll_name :: "'c \<Rightarrow> string"
  coll_get :: "'c \<Rightarrow> string \<Rightarrow> 'w \<Rightarrow> (bytes, store_error) outcome"
  coll_put :: "'c \<Rightarrow> string \<Rightarrow> bytes \<Rightarrow> 'w \<Rightarrow> (unit, store_error) outcome \<times> 'w"
  coll_del :: "'c \<Rightarrow> string \<Rightarrow> 'w \<Rightarrow> (unit, store_error) outcome \<times> 'w"
  coll_purge :: "'c \<Rightarrow> 'w \<Rightarrow> (unit, store_error) outcome \<times> 'w"
  coll_iter :: "'c \<Rightarrow> bool \<Rightarrow> 'w \<Rightarrow> (string \<times> bytes) rust_iter"

record ('w, 's) state_storage =
  state_name :: "'s \<Rightarrow> string"
  state_get :: "'s \<Rightarrow> 'w \<Rightarrow> (bytes, store_error) outcome"
  state_put :: "'s \<Rightarrow> bytes \<Rightarrow> 'w \<Rightarrow> (unit, store_error) outcome \<times> 'w"
  state_del :: "'s \<Rightarrow> 'w \<Rightarrow> (unit, store_error) outcome \<times> 'w"
  state_purge :: "'s \<Rightarrow> 'w \<Rightarrow> (unit, store_error) outcome \<times> 'w"

record ('w, 'c, 's) db_manager =
  create_collection :: "string \<Rightarrow> string \<Rightarrow> 'w \<Rightarrow> ('c, store_error) outcome \<times> 'w"
  create_state :: "string \<Rightarrow> string \<Rightarrow> 'w \<Rightarrow> ('s, store_error) outcome \<times> 'w"

text \<open>What a \<open>PoisonError\<close> prints; two backends share their data behind a lock.\<close>

definition poison_message :: string where
  "poison_message = ''poisoned lock: another task failed inside''"

section \<open>Provided methods\<close>

text \<open>\<open>stop\<close> of a manager and \<open>flush\<close> of both storages do nothing unless a backend overrides them.\<close>

definition default_stop :: "'w \<Rightarrow> (unit, store_error) outcome \<times> 'w" where
  "default_stop w = (Ok (), w)"

definition default_flush :: "'w \<Rightarrow> (unit, store_error) outcome \<times> 'w" where
  "default_flush w = (Ok (), w)"

definition coll_last ::
  "('w, 'c) collection \<Rightarrow> 'c \<Rightarrow> 'w \<Rightarrow> ((string \<times> bytes) option, store_error) outcome" where
  "coll_last C c w =
     (case coll_iter C c True w of
        Done \<Rightarrow> Ok None
      | Yield x _ \<Rightarrow> Ok (Some x)
      | Crash m \<Rightarrow> Panic m)"

text \<open>\<open>isize\<close> is a 64-bit word read with \<open>sint\<close>; negation wraps, as \<open>isize::abs\<close> does on
  \<open>isize::MIN\<close> in a release build.\<close>

type_synonym isize = "64 word"

definition isize_abs :: "isize \<Rightarrow> isize" where
  "isize_abs q = (if 0 \<le> sint q then q else - q)"

text \<open>The peek loop that looks for the starting key; \<open>Ok it\<close> is positioned at the key.\<close>

fun seek_key ::
  "string \<Rightarrow> (string \<times> 'v) rust_iter \<Rightarrow> ((string \<times> 'v) rust_iter, store_error) outcome" where
  "seek_key key Done = Err (StoreErr_EntryNotFound ''None'')"
| "seek_key key (Crash m) = Panic m"
| "seek_key key (Yield (k, v) it) = (if k = key then Ok (Yield (k, v) it) else seek_key key it)"

fun advance :: "'a rust_iter \<Rightarrow> ('a rust_iter, store_error) outcome" where
  "advance Done = Ok Done"
| "advance (Crash m) = Panic m"
| "advance (Yield x it) = Ok it"

text \<open>The \<open>while counter < quantity\<close> loop.\<close>

fun range_loop ::
  "isize \<Rightarrow> isize \<Rightarrow> (string \<times> bytes) rust_iter \<Rightarrow> (bytes list, store_error) outcome" where
  "range_loop counter quantity Done = Ok []"
| "range_loop counter quantity (Crash m) =
     (if sint counter < sint quantity then Panic m else Ok [])"
| "range_loop counter quantity (Yield (k, v) it) =
     (if sint counter < sint quantity
      then and_then (range_loop (counter + 1) quantity it) (\<lambda>vs. Ok (v # vs))
      else Ok [])"

definition get_by_range ::
  "('w, 'c) collection \<Rightarrow> 'c \<Rightarrow> string option \<Rightarrow> isize \<Rightarrow> 'w \<Rightarrow> (bytes list, store_error) outcome"
where
  "get_by_range C c from quantity w =
     and_then
       (case from of
          Some key \<Rightarrow>
            and_then (seek_key key (coll_iter C c (\<not> 0 \<le> sint quantity) w)) (\<lambda>it.
            and_then (advance it) (\<lambda>it'. Ok (it', isize_abs quantity)))
        | None \<Rightarrow>
            if 0 \<le> sint quantity then Ok (coll_iter C c False w, quantity)
            else Ok (coll_iter C c True w, isize_abs quantity))
       (\<lambda>(it, q). range_loop 0 q it)"

section \<open>Contracts\<close>

definition no_rows :: store_error where
  "no_rows = StoreErr_EntryNotFound ''Query returned no rows''"

text \<open>A key is a Rust string.\<close>

definition key_ok :: "string \<Rightarrow> bool" where
  "key_ok k = utf8_ok k"

locale collection_laws =
  fixes C :: "('w, 'c) collection"
    and cvalid :: "'c \<Rightarrow> 'w \<Rightarrow> bool"
    and entries :: "'c \<Rightarrow> 'w \<Rightarrow> (string \<times> bytes) list"
  assumes entries_ok: "cvalid c w \<Longrightarrow> bt_ok (entries c w)"
    and get_law: "cvalid c w \<Longrightarrow>
      coll_get C c k w = (case map_of (entries c w) k of Some v \<Rightarrow> Ok v | None \<Rightarrow> Err no_rows)"
    and put_result: "cvalid c w \<Longrightarrow> key_ok k \<Longrightarrow> fst (coll_put C c k v w) = Ok ()"
    and put_valid: "cvalid c w \<Longrightarrow> key_ok k \<Longrightarrow> cvalid c (snd (coll_put C c k v w))"
    and put_entries: "cvalid c w \<Longrightarrow> key_ok k \<Longrightarrow>
      entries c (snd (coll_put C c k v w)) = bt_insert k v (entries c w)"
    and del_result: "cvalid c w \<Longrightarrow> k \<in> fst ` set (entries c w) \<Longrightarrow> fst (coll_del C c k w) = Ok ()"
    and del_valid: "cvalid c w \<Longrightarrow> cvalid c (snd (coll_del C c k w))"
    and del_entries: "cvalid c w \<Longrightarrow>
      entries c (snd (coll_del C c k w)) = bt_remove k (entries c w)"
    and purge_result: "cvalid c w \<Longrightarrow> fst (coll_purge C c w) = Ok ()"
    and purge_valid: "cvalid c w \<Longrightarrow> cvalid c (snd (coll_purge C c w))"
    and purge_entries: "cvalid c w \<Longrightarrow> entries c (snd (coll_purge C c w)) = []"
    and iter_law: "cvalid c w \<Longrightarrow>
      coll_iter C c r w = iter_of_list (if r then rev (entries c w) else entries c w)"

locale state_laws =
  fixes S :: "('w, 's) state_storage"
    and svalid :: "'s \<Rightarrow> 'w \<Rightarrow> bool"
    and content :: "'s \<Rightarrow> 'w \<Rightarrow> bytes option"
  assumes sget_law: "svalid s w \<Longrightarrow>
      state_get S s w = (case content s w of Some v \<Rightarrow> Ok v | None \<Rightarrow> Err no_rows)"
    and sput_result: "svalid s w \<Longrightarrow> fst (state_put S s v w) = Ok ()"
    and sput_valid: "svalid s w \<Longrightarrow> svalid s (snd (state_put S s v w))"
    and sput_content: "svalid s w \<Longrightarrow> content s (snd (state_put S s v w)) = Some v"
    and sdel_valid: "svalid s w \<Longrightarrow> svalid s (snd (state_del S s w))"
    and sdel_content: "svalid s w \<Longrightarrow> content s (snd (state_del S s w)) = None"
    and spurge_result: "svalid s w \<Longrightarrow> fst (state_purge S s w) = Ok ()"
    and spurge_valid: "svalid s w \<Longrightarrow> svalid s (snd (state_purge S s w))"
    and spurge_content: "svalid s w \<Longrightarrow> content s (snd (state_purge S s w)) = None"

text \<open>The event collection and the snapshot storage of one actor, opened side by side.\<close>

locale store_backend =
  collection_laws C cvalid entries + state_laws S svalid content
  for C :: "('w, 'c) collection" and cvalid entries
    and S :: "('w, 's) state_storage" and svalid content +
  fixes opened :: "'c \<Rightarrow> 's \<Rightarrow> 'w \<Rightarrow> bool"
  assumes opened_valid: "opened c s w \<Longrightarrow> cvalid c w \<and> svalid s w"
    and put_opened: "opened c s w \<Longrightarrow> key_ok k \<Longrightarrow> opened c s (snd (coll_put C c k v w))"
    and put_frame: "opened c s w \<Longrightarrow> content s (snd (coll_put C c k v w)) = content s w"
    and purge_opened: "opened c s w \<Longrightarrow> opened c s (snd (coll_purge C c w))"
    and purge_frame: "opened c s w \<Longrightarrow> content s (snd (coll_purge C c w)) = content s w"
    and sput_opened: "opened c s w \<Longrightarrow> opened c s (snd (state_put S s v w))"
    and sput_frame: "opened c s w \<Longrightarrow> entries c (snd (state_put S s v w)) = entries c w"
    and spurge_opened: "opened c s w \<Longrightarrow> opened c s (snd (state_purge S s w))"
    and spurge_frame: "opened c s w \<Longrightarrow> entries c (snd (state_purge S s w)) = entries c w"

locale reopenable_backend =
  store_backend C cvalid entries S svalid content opened
  for C :: "('w, 'c) collection" and cvalid entries
    and S :: "('w, 's) state_storage" and svalid content and opened +
  fixes M :: "('w, 'c, 's) db_manager" and name :: string and pfx :: string
  assumes reopen_collection: "opened c s w \<Longrightarrow>
      create_collection M (name @ ''_events'') pfx w = (Ok c, w)"
    and reopen_state: "opened c s w \<Longrightarrow>
      create_state M (name @ ''_states'') pfx w = (Ok s, w)"

text \<open>Opening the storages of an actor for the first time gives them empty.\<close>

locale fresh_backend =
  reopenable_backend C cvalid entries S svalid content opened M name pfx
  for C :: "('w, 'c) collection" and cvalid entries
    and S :: "('w, 's) state_storage" and svalid content and opened
    and M :: "('w, 'c, 's) db_manager" and name :: string and pfx :: string +
  fixes fresh :: "'w \<Rightarrow> bool"
  assumes open_fresh: "fresh w \<Longrightarrow>
      \<exists>c s w1 w2. create_collection M (name @ ''_events'') pfx w = (Ok c, w1) \<and>
        create_state M (name @ ''_states'') pfx w1 = (Ok s, w2) \<and>
        opened c s w2 \<and> entries c w2 = [] \<and> content s w2 = None"

text \<open>A collection whose writes may fail: \<open>C\<close> behaves like the lawful \<open>C0\<close>, except that a \<open>put\<close> may also
  report an error and change nothing.\<close>

locale unreliable_backend =
  reopenable_backend C0 cvalid entries S svalid content opened M name pfx
  for C0 :: "('w, 'c) collection" and cvalid entries
    and S :: "('w, 's) state_storage" and svalid content and opened
    and M :: "('w, 'c, 's) db_manager" and name :: string and pfx :: string +
  fixes C :: "('w, 'c) collection"
  assumes same_get: "coll_get C = coll_get C0"
    and same_iter: "coll_iter C = coll_iter C0"
    and try_put: "coll_put C c k v w = coll_put C0 c k v w \<or> (\<exists>e. coll_put C c k v w = (Err e, w))"

section \<open>Iteration lemmas\<close>

lemma seek_key_list:
  "seek_key key (iter_of_list es) =
     (if key \<in> fst ` set es then Ok (iter_of_list (dropWhile (\<lambda>p. fst p \<noteq> key) es))
      else Err (StoreErr_EntryNotFound ''None''))"
  by (induction es) (auto simp: rev_image_eqI)

lemma advance_list: "advance (iter_of_list es) = Ok (iter_of_list (tl es))"
  by (cases es) auto

lemma sint_succ: "sint (c :: isize) < sint (q :: isize) \<Longrightarrow> sint (c + 1) = sint c + 1"
proof -
  assume "sint c < sint q"
  moreover have "sint q < 2 ^ 63" using sint_lt [of q] by simp
  moreover have "- (2 ^ 63) \<le> sint c" using sint_ge [of c] by simp
  ultimately show ?thesis
    by (simp add: sint_word_ariths signed_take_bit_int_eq_self)
qed

lemma range_loop_list:
  "range_loop counter q (iter_of_list es) =
     Ok (map snd (take (nat (sint q - sint counter)) es))"
proof (induction es arbitrary: counter)
  case (Cons p es)
  obtain k v where p: "p = (k, v)" by (cases p)
  show ?case
  proof (cases "sint counter < sint q")
    case True
    then obtain n where n: "nat (sint q - sint counter) = Suc n"
      by (metis Suc_pred' diff_gt_0_iff_gt zero_less_nat_eq)
    with True have "nat (sint q - sint (counter + 1)) = n" by (simp add: sint_succ)
    with True n show ?thesis by (simp add: Cons.IH p)
  qed (simp add: p)
qed simp

context collection_laws
begin

lemma last_law:
  "cvalid c w \<Longrightarrow>
   coll_last C c w = Ok (if entries c w = [] then None else Some (last (entries c w)))"
  by (cases "entries c w" rule: rev_cases) (auto simp: coll_last_def iter_law)

lemma get_by_range_all:
  "cvalid c w \<Longrightarrow>
   get_by_range C c None q w =
     Ok (map snd (take (nat (sint (isize_abs q)))
       (if 0 \<le> sint q then entries c w else rev (entries c w))))"
  by (simp add: get_by_range_def iter_law range_loop_list isize_abs_def)

lemma get_by_range_from:
  "cvalid c w \<Longrightarrow>
   get_by_range C c (Some key) q w =
     (let es = (if 0 \<le> sint q then entries c w else rev (entries c w))
      in if key \<in> fst ` set es
         then Ok (map snd (take (nat (sint (isize_abs q))) (tl (dropWhile (\<lambda>p. fst p \<noteq> key) es))))
         else Err (StoreErr_EntryNotFound ''None''))"
  by (simp add: get_by_range_def iter_law seek_key_list advance_list range_loop_list Let_def)

lemma get_after_put:
  "cvalid c w \<Longrightarrow> key_ok k \<Longrightarrow> coll_get C c k (snd (coll_put C c k v w)) = Ok v"
  by (simp add: get_law put_valid put_entries map_of_bt_insert entries_ok)

lemma get_other_after_put:
  "cvalid c w \<Longrightarrow> key_ok k \<Longrightarrow> j \<noteq> k \<Longrightarrow>
   coll_get C c j (snd (coll_put C c k v w)) = coll_get C c j w"
  by (simp add: get_law put_valid put_entries map_of_bt_insert entries_ok)

end

end
