(* ===== verification/Rust_Numbers.thy ===== *)
theory Rust_Numbers
  imports Rush_Prelude
begin

text \<open>
  The decimal formatting and parsing of \<open>u64\<close> that the store uses for its event keys
  (\<open>src/store/src/store.rs\<close>): \<open>format!("{:020}", n)\<close> and \<open>key.parse::<u64>()\<close>, as the standard
  library defines them. The facts that carry the store's proofs are at the end: every key has
  20 bytes, formatting is strictly monotone from the numeric order to the byte order (so the
  last key of an ordered collection is the largest event number), and parsing inverts it.
\<close>

definition digit_char :: "nat \<Rightarrow> char" where
  "digit_char d = char_of (48 + d)"

fun dec :: "nat \<Rightarrow> string" where
  "dec n = (if n < 10 then [digit_char n] else dec (n div 10) @ [digit_char (n mod 10)])"

declare dec.simps [simp del]

text \<open>\<open>{:0w}\<close>: at least \<open>w\<close> characters, filled with zeros on the left, never truncated.\<close>

definition pad_zero :: "nat \<Rightarrow> string \<Rightarrow> string" where
  "pad_zero w s = replicate (w - length s) (digit_char 0) @ s"

definition fmt020 :: "u64 \<Rightarrow> string" where
  "fmt020 n = pad_zero 20 (dec (unat n))"

definition char_digit :: "char \<Rightarrow> nat option" where
  "char_digit c = (let k = (of_char c :: nat) in if 48 \<le> k \<and> k \<le> 57 then Some (k - 48) else None)"

text \<open>The digit loop of \<open>u64::from_str\<close>: the digit is checked before the overflow.\<close>

fun parse_digits :: "nat \<Rightarrow> string \<Rightarrow> (nat, string) outcome" where
  "parse_digits acc [] = Ok acc"
| "parse_digits acc (c # cs) =
     (case char_digit c of
        None \<Rightarrow> Err ''invalid digit found in string''
      | Some d \<Rightarrow>
          if acc * 10 + d < 2 ^ 64 then parse_digits (acc * 10 + d) cs
          else Err ''number too large to fit in target type'')"

definition parse_u64 :: "string \<Rightarrow> (u64, string) outcome" where
  "parse_u64 s =
     (case s of
        [] \<Rightarrow> Err ''cannot parse integer from empty string''
      | c # cs \<Rightarrow>
          (let digits = (if c = CHR ''+'' \<and> cs \<noteq> [] then cs else s)
           in and_then (parse_digits 0 digits) (\<lambda>n. Ok (of_nat n))))"

section \<open>Counting\<close>

lemma u64_succ:
  "unat (c :: u64) = 2 ^ 64 - 1 \<Longrightarrow> c + 1 = 0"
  "unat (c :: u64) < 2 ^ 64 - 1 \<Longrightarrow> c < c + 1"
proof -
  show "c + 1 = 0" if "unat c = 2 ^ 64 - 1"
    using that by (simp add: word_unat_eq_iff unat_word_ariths)
  show "c < c + 1" if "unat c < 2 ^ 64 - 1"
    using that by (simp add: word_less_nat_alt unat_word_ariths)
qed

section \<open>Digits\<close>

lemma parse_digits_refuses: "c \<in> set s \<Longrightarrow> char_digit c = None \<Longrightarrow> \<exists>e. parse_digits acc s = Err e"
  by (induction acc s rule: parse_digits.induct) (auto split: option.split)

lemma parse_u64_refuses:
  assumes "c \<in> set s" "char_digit c = None" "c \<noteq> CHR ''+''"
  shows "\<exists>e. parse_u64 s = Err e"
proof (cases s)
  case (Cons a r)
  let ?digits = "if a = CHR ''+'' \<and> r \<noteq> [] then r else s"
  have "c \<in> set ?digits" using assms(1,3) Cons by auto
  then obtain e where "parse_digits 0 ?digits = Err e" using parse_digits_refuses assms(2) by blast
  then have "parse_u64 s = Err e" unfolding parse_u64_def Cons Let_def by simp
  then show ?thesis ..
qed (use assms(1) in simp)

lemma char_digit_digit_char [simp]: "d < 10 \<Longrightarrow> char_digit (digit_char d) = Some d"
  by (simp add: char_digit_def digit_char_def Let_def of_char_of)

lemma digit_char_less: "d < 10 \<Longrightarrow> e < 10 \<Longrightarrow> digit_char d < digit_char e \<longleftrightarrow> d < e"
  by (simp add: less_char_def digit_char_def of_char_of)

lemma digit_char_inj: "d < 10 \<Longrightarrow> e < 10 \<Longrightarrow> digit_char d = digit_char e \<longleftrightarrow> d = e"
  by (metis char_digit_digit_char option.inject)

lemma digit_char_no_cont: "d < 10 \<Longrightarrow> \<not> is_continuation (digit_char d)"
  by (simp add: is_continuation_def digit_char_def of_char_of)

lemma digit_char_not_plus: "d < 10 \<Longrightarrow> digit_char d \<noteq> CHR ''+''"
  by (auto dest!: arg_cong [where f = char_digit]) (simp add: char_digit_def)

text \<open>The fixed-width reading of a padded number: \<open>w\<close> digits, most significant first.\<close>

fun digits_of :: "nat \<Rightarrow> nat \<Rightarrow> string" where
  "digits_of 0 n = []"
| "digits_of (Suc w) n = digits_of w (n div 10) @ [digit_char (n mod 10)]"

lemma length_digits_of [simp]: "length (digits_of w n) = w"
  by (induction w arbitrary: n) auto

lemma digits_of_0: "digits_of w 0 = replicate w (digit_char 0)"
  by (induction w) (auto simp: replicate_append_same)

lemma dec_nonempty [simp]: "dec n \<noteq> []"
  by (subst dec.simps) simp

lemma pad_zero_dec: "n < 10 ^ w \<Longrightarrow> 0 < w \<Longrightarrow> pad_zero w (dec n) = digits_of w n"
proof (induction w arbitrary: n)
  case (Suc w)
  show ?case
  proof (cases "n < 10")
    case True
    then show ?thesis by (simp add: dec.simps [of n] pad_zero_def digits_of_0)
  next
    case False
    with Suc.prems have "0 < w" by (cases w) auto
    moreover from Suc.prems have "n div 10 < 10 ^ w" by auto
    ultimately have "pad_zero w (dec (n div 10)) = digits_of w (n div 10)" by (rule Suc.IH [rotated])
    with False show ?thesis by (simp add: dec.simps [of n] pad_zero_def)
  qed
qed simp

lemma unat_less_u64: "unat (n :: u64) < 2 ^ 64"
  using unsigned_less [of n, where ?'a = nat] by simp

lemma u64_bound: "unat (n :: u64) < 10 ^ 20"
proof -
  have "unat n < 2 ^ 64" by (rule unat_less_u64)
  then show ?thesis by simp
qed

lemma fmt020_digits: "fmt020 n = digits_of 20 (unat n)"
  by (simp add: fmt020_def pad_zero_dec u64_bound del: power_numeral)

lemma length_fmt020 [simp]: "length (fmt020 n) = 20"
  by (simp add: fmt020_digits)

section \<open>Order\<close>

lemma digits_of_eq_iff:
  "m < 10 ^ w \<Longrightarrow> n < 10 ^ w \<Longrightarrow> digits_of w m = digits_of w n \<longleftrightarrow> m = n"
proof (induction w arbitrary: m n)
  case (Suc w)
  have "m = n" if "m div 10 = n div 10" "m mod 10 = n mod 10"
    by (metis that div_mult_mod_eq)
  with Suc show ?case by (auto simp: digit_char_inj)
qed simp

lemma digits_of_less_iff:
  "m < 10 ^ w \<Longrightarrow> n < 10 ^ w \<Longrightarrow> digits_of w m < digits_of w n \<longleftrightarrow> m < n"
proof (induction w arbitrary: m n)
  case (Suc w)
  then have b: "m div 10 < 10 ^ w" "n div 10 < 10 ^ w" by auto
  have "digits_of (Suc w) m < digits_of (Suc w) n \<longleftrightarrow>
      m div 10 < n div 10 \<or> m div 10 = n div 10 \<and> m mod 10 < n mod 10"
    by (simp add: snoc_less_snoc Suc.IH [OF b] digits_of_eq_iff [OF b] digit_char_less)
  also have "\<dots> \<longleftrightarrow> m < n"
    by (smt (verit) div_le_mono div_mult_mod_eq linorder_not_less nat_add_left_cancel_less
        nat_less_le)
  finally show ?case .
qed simp

lemma fmt020_less_iff: "fmt020 m < fmt020 n \<longleftrightarrow> m < n"
  by (simp add: fmt020_digits digits_of_less_iff u64_bound word_less_nat_alt del: power_numeral)

lemma fmt020_eq_iff [simp]: "fmt020 m = fmt020 n \<longleftrightarrow> m = n"
  by (metis fmt020_less_iff linorder_less_linear less_irrefl)

section \<open>Parsing inverts formatting\<close>

lemma parse_digits_append:
  "parse_digits acc (xs @ ys) = and_then (parse_digits acc xs) (\<lambda>a. parse_digits a ys)"
  by (induction xs arbitrary: acc) (auto split: option.split)

lemma parse_digits_of:
  "n < 10 ^ w \<Longrightarrow> n < 2 ^ 64 \<Longrightarrow> parse_digits 0 (digits_of w n) = Ok n"
proof (induction w arbitrary: n)
  case (Suc w)
  then have "parse_digits 0 (digits_of w (n div 10)) = Ok (n div 10)" by simp
  with Suc.prems show ?case by (simp add: parse_digits_append)
qed simp

lemma digits_of_head: "0 < w \<Longrightarrow> \<exists>d < 10. \<exists>cs. digits_of w n = digit_char d # cs"
proof (induction w arbitrary: n)
  case (Suc w)
  show ?case
  proof (cases "w = 0")
    case True
    then show ?thesis by (auto intro: exI [where x = "n mod 10"])
  next
    case False
    with Suc.IH [of "n div 10"] show ?thesis by auto
  qed
qed simp

lemma parse_u64_fmt020 [simp]: "parse_u64 (fmt020 n) = Ok n"
proof -
  obtain d cs where d: "d < 10" and eq: "fmt020 n = digit_char d # cs"
    using digits_of_head [of 20 "unat n"] by (auto simp: fmt020_digits)
  have "parse_digits 0 (fmt020 n) = Ok (unat n)"
    by (simp add: fmt020_digits parse_digits_of u64_bound unat_less_u64 del: power_numeral)
  with eq d show ?thesis by (simp add: parse_u64_def digit_char_not_plus)
qed

lemma digit_char_ascii: "d < 10 \<Longrightarrow> (of_char (digit_char d) :: nat) < 128"
  by (simp add: digit_char_def of_char_of)

lemma digits_of_ascii: "c \<in> set (digits_of k n) \<Longrightarrow> (of_char c :: nat) < 128"
  by (induction k arbitrary: n) (auto simp: digit_char_ascii)

lemma utf8_ok_fmt020 [simp]: "utf8_ok (fmt020 n)"
  by (rule utf8_ok_ascii) (simp add: fmt020_digits digits_of_ascii)

section \<open>Properties\<close>

text \<open>C31. The keys of the event log: the 20-digit form of a 64-bit number has 20 characters, its
  byte order is the order of the numbers over the whole range, and parsing it gives the number
  back.\<close>

theorem event_keys_sort_by_number:
  "length (fmt020 m) = 20 \<and> (fmt020 m < fmt020 n \<longleftrightarrow> m < n) \<and> (fmt020 m = fmt020 n \<longleftrightarrow> m = n) \<and>
   parse_u64 (fmt020 m) = Ok m"
  by (simp add: fmt020_less_iff)

end
