(* ===== verification/Store_Actor.thy ===== *)
theory Store_Actor
  imports Database Rust_Numbers
begin

text \<open>
  The \<open>Store\<close> actor (\<open>src/store/src/store.rs\<close>): the event log and the snapshot of a persistent
  actor. The libraries it calls are the record \<open>store_lib\<close> (bincode, ChaCha20-Poly1305, the
  encrypted key memory) together with the actor's own \<open>apply\<close>; the random nonces are arguments,
  one pair per command. Every method takes the store and the database world and returns its
  outcome with both.

  Counters are 64-bit words, so \<open>event_counter + 1\<close> wraps as in a release build. The proofs are
  about the contract \<open>store_backend\<close>: the log of a store is the list of events its collection
  holds under the keys \<open>0, 1, 2, ...\<close> in their 20-digit form.
\<close>

record ('p, 'e, 'k) store_lib =
  enc_event :: "'e \<Rightarrow> (bytes, string) outcome"
  dec_event :: "bytes \<Rightarrow> ('e, string) outcome"
  enc_state :: "'p \<times> u64 \<Rightarrow> (bytes, string) outcome"
  dec_state :: "bytes \<Rightarrow> ('p \<times> u64, string) outcome"
  aead_encrypt :: "bytes \<Rightarrow> bytes \<Rightarrow> bytes \<Rightarrow> (bytes, string) outcome"
  aead_decrypt :: "bytes \<Rightarrow> bytes \<Rightarrow> bytes \<Rightarrow> (bytes, string) outcome"
  mem_encrypt :: "bytes \<Rightarrow> ('k, string) outcome"
  mem_decrypt :: "'k \<Rightarrow> (bytes, string) outcome"
  apply_event :: "'p \<Rightarrow> 'e \<Rightarrow> (unit, actor_error) outcome \<times> 'p"

record ('c, 's, 'k) Store =
  event_counter :: u64
  state_counter :: u64
  events :: 'c
  states :: 's
  key_box :: "'k option"

datatype ('p, 'e) StoreCommand =
    CmdPersist 'e
  | CmdPersistLight 'e 'p
  | CmdSnapshot 'p
  | CmdLastEvent
  | CmdLastEventNumber
  | CmdLastEventsFrom u64
  | CmdGetEvents u64 u64
  | CmdRecover
  | CmdPurge

datatype ('p, 'e) StoreResponse =
    RespNone
  | RespPersisted
  | RespSnapshotted
  | RespState "'p option"
  | RespLastEvent "'e option"
  | RespLastEventNumber u64
  | RespEvents "'e list"
  | RespError store_error

definition NONCE_SIZE :: nat where
  "NONCE_SIZE = 12"

section \<open>Encryption\<close>

definition encrypt ::
  "('p, 'e, 'k) store_lib \<Rightarrow> bytes \<Rightarrow> bytes \<Rightarrow> bytes \<Rightarrow> (bytes, store_error) outcome" where
  "encrypt L key nonce data =
     and_then
       (map_err (\<lambda>e. StoreErr_Store (''Encrypt error: '' @ e)) (aead_encrypt L key nonce data))
       (\<lambda>ciphertext. Ok (nonce @ ciphertext))"

definition decrypt ::
  "('p, 'e, 'k) store_lib \<Rightarrow> bytes \<Rightarrow> bytes \<Rightarrow> (bytes, store_error) outcome" where
  "decrypt L key ciphertext =
     (if length ciphertext < NONCE_SIZE then Panic ''range end index out of range''
      else map_err (\<lambda>e. StoreErr_Store (''Decrypt error: '' @ e))
             (aead_decrypt L key (take NONCE_SIZE ciphertext) (drop NONCE_SIZE ciphertext)))"

text \<open>The encoding of an event in \<open>persist\<close> and \<open>persist_state\<close>.\<close>

definition encode_event ::
  "('p, 'e, 'k) store_lib \<Rightarrow> 'k option \<Rightarrow> bytes \<Rightarrow> 'e \<Rightarrow> (bytes, store_error) outcome" where
  "encode_event L kb nonce event =
     (let enc = map_err (\<lambda>e. StoreErr_Store (''Can't encode event: '' @ e)) (enc_event L event)
      in case kb of
           Some k \<Rightarrow>
             (case mem_decrypt L k of
                Ok key \<Rightarrow> and_then enc (encrypt L key nonce)
              | Err _ \<Rightarrow> Err (StoreErr_Store ''Can't decrypt key'')
              | Panic m \<Rightarrow> Panic m)
         | None \<Rightarrow> enc)"

text \<open>The decoding of an event in \<open>last_event\<close> and \<open>events\<close>.\<close>

definition decode_event ::
  "('p, 'e, 'k) store_lib \<Rightarrow> 'k option \<Rightarrow> bytes \<Rightarrow> ('e, store_error) outcome" where
  "decode_event L kb data =
     (let dec = (\<lambda>d. map_err (\<lambda>e. StoreErr_Store (''Can't decode event: '' @ e)) (dec_event L d))
      in case kb of
           Some k \<Rightarrow>
             (case mem_decrypt L k of
                Ok key \<Rightarrow> and_then (decrypt L key data) dec
              | Err _ \<Rightarrow> Err (StoreErr_Store ''Can't decrypt key'')
              | Panic m \<Rightarrow> Panic m)
         | None \<Rightarrow> dec data)"

section \<open>impl Store\<close>

definition store_new ::
  "('p, 'e, 'k) store_lib \<Rightarrow> ('w, 'c) collection \<Rightarrow> ('w, 'c, 's) db_manager \<Rightarrow>
   string \<Rightarrow> string \<Rightarrow> bytes option \<Rightarrow> 'w \<Rightarrow> (('c, 's, 'k) Store, store_error) outcome \<times> 'w" where
  "store_new L C M name pfx password w =
     try_in
       (case password of
          Some key \<Rightarrow>
            and_then
              (map_err (\<lambda>e. StoreErr_Store (''Can't encrypt password: '' @ e)) (mem_encrypt L key))
              (\<lambda>k. Ok (Some k))
        | None \<Rightarrow> Ok None) w (\<lambda>kb.
     then_in (create_collection M (name @ ''_events'') pfx w) (\<lambda>c w1.
     then_in (create_state M (name @ ''_states'') pfx w1) (\<lambda>s w2.
     try_in (coll_last C c w2) w2 (\<lambda>l.
       (Ok \<lparr>event_counter =
              (case l of
                 Some (key, _) \<Rightarrow> (case parse_u64 key of Ok n \<Rightarrow> n | _ \<Rightarrow> 0)
               | None \<Rightarrow> 0),
            state_counter = 0, events = c, states = s, key_box = kb\<rparr>, w2)))))"

definition last_event ::
  "('p, 'e, 'k) store_lib \<Rightarrow> ('w, 'c) collection \<Rightarrow> ('c, 's, 'k) Store \<Rightarrow> 'w \<Rightarrow>
   ('e option, store_error) outcome" where
  "last_event L C st w =
     and_then (coll_last C (events st) w) (\<lambda>l.
       case l of
         Some (_, data) \<Rightarrow> and_then (decode_event L (key_box st) data) (\<lambda>e. Ok (Some e))
       | None \<Rightarrow> Ok None)"

definition next_event_number ::
  "('p, 'e, 'k) store_lib \<Rightarrow> ('w, 'c) collection \<Rightarrow> ('c, 's, 'k) Store \<Rightarrow> 'w \<Rightarrow>
   (u64, store_error) outcome" where
  "next_event_number L C st w =
     (if event_counter st \<noteq> 0 then Ok (event_counter st + 1)
      else case last_event L C st w of
             Ok (Some _) \<Rightarrow> Ok (event_counter st + 1)
           | Ok None \<Rightarrow> Ok 0
           | Err _ \<Rightarrow> Ok 0
           | Panic m \<Rightarrow> Panic m)"

definition persist ::
  "('p, 'e, 'k) store_lib \<Rightarrow> ('w, 'c) collection \<Rightarrow> bytes \<Rightarrow> 'e \<Rightarrow> ('c, 's, 'k) Store \<times> 'w \<Rightarrow>
   (unit, store_error) outcome \<times> ('c, 's, 'k) Store \<times> 'w" where
  "persist L C nonce event = (\<lambda>(st, w).
     try_in (encode_event L (key_box st) nonce event) (st, w) (\<lambda>data.
     try_in (next_event_number L C st w) (st, w) (\<lambda>n.
       let (result, w') = coll_put C (events st) (fmt020 n) data w
       in (result, (if is_ok result then st\<lparr>event_counter := n\<rparr> else st), w'))))"

definition snapshot ::
  "('p, 'e, 'k) store_lib \<Rightarrow> ('w, 's) state_storage \<Rightarrow> bytes \<Rightarrow> 'p \<Rightarrow> ('c, 's, 'k) Store \<times> 'w \<Rightarrow>
   (unit, store_error) outcome \<times> ('c, 's, 'k) Store \<times> 'w" where
  "snapshot L S nonce actor = (\<lambda>(st, w).
     let st' = st\<lparr>state_counter := event_counter st\<rparr>
     in try_in
          (map_err (\<lambda>e. StoreErr_Store (''Can't encode actor: '' @ e))
            (enc_state L (actor, state_counter st'))) (st', w) (\<lambda>data.
        try_in
          (case key_box st' of
             Some k \<Rightarrow>
               (case mem_decrypt L k of
                  Ok key \<Rightarrow> encrypt L key nonce data
                | Err _ \<Rightarrow> Ok data
                | Panic m \<Rightarrow> Panic m)
           | None \<Rightarrow> Ok data) (st', w) (\<lambda>out.
          let (result, w') = state_put S (states st') out w in (result, st', w'))))"

definition persist_state ::
  "('p, 'e, 'k) store_lib \<Rightarrow> ('w, 'c) collection \<Rightarrow> ('w, 's) state_storage \<Rightarrow> bytes \<times> bytes \<Rightarrow>
   'e \<Rightarrow> 'p \<Rightarrow> ('c, 's, 'k) Store \<times> 'w \<Rightarrow> (unit, store_error) outcome \<times> ('c, 's, 'k) Store \<times> 'w" where
  "persist_state L C S nonces event state = (\<lambda>(st, w).
     try_in (encode_event L (key_box st) (fst nonces) event) (st, w) (\<lambda>data.
     then_in (snapshot L S (snd nonces) state (st, w)) (\<lambda>_ (st', w').
       let (result, w'') = coll_put C (events st') (fmt020 (event_counter st')) data w'
       in (result, st', w''))))"

definition get_state ::
  "('p, 'e, 'k) store_lib \<Rightarrow> ('w, 's) state_storage \<Rightarrow> ('c, 's, 'k) Store \<Rightarrow> 'w \<Rightarrow>
   (('p \<times> u64) option, store_error) outcome" where
  "get_state L S st w =
     (case state_get S (states st) w of
        Ok data \<Rightarrow>
          and_then
            (case key_box st of
               Some k \<Rightarrow>
                 (case mem_decrypt L k of
                    Ok key \<Rightarrow> decrypt L key data
                  | Err _ \<Rightarrow> Err (StoreErr_Store ''Can't decrypt key'')
                  | Panic m \<Rightarrow> Panic m)
             | None \<Rightarrow> Ok data) (\<lambda>d.
          and_then
            (map_err (\<lambda>e. StoreErr_Store (''Can't decode state: '' @ e)) (dec_state L d))
            (\<lambda>state. Ok (Some state)))
      | Err (StoreErr_EntryNotFound _) \<Rightarrow> Ok None
      | Err e \<Rightarrow> Err e
      | Panic m \<Rightarrow> Panic m)"

text \<open>The loop \<open>for i in from..=to\<close> of \<open>events\<close>, which stops at the first missing key.\<close>

function events_loop ::
  "('p, 'e, 'k) store_lib \<Rightarrow> ('w, 'c) collection \<Rightarrow> ('c, 's, 'k) Store \<Rightarrow> 'w \<Rightarrow> nat \<Rightarrow> nat \<Rightarrow>
   ('e list, store_error) outcome" where
  "events_loop L C st w i to =
     (if i > to then Ok []
      else case coll_get C (events st) (fmt020 (of_nat i)) w of
             Ok data \<Rightarrow>
               and_then (decode_event L (key_box st) data) (\<lambda>e.
               and_then (events_loop L C st w (Suc i) to) (\<lambda>es. Ok (e # es)))
           | Err _ \<Rightarrow> Ok []
           | Panic m \<Rightarrow> Panic m)"
  by pat_completeness auto
termination
  by (relation "measure (\<lambda>(L, C, st, w, i, to). Suc to - i)") auto

declare events_loop.simps [simp del]

definition events_range ::
  "('p, 'e, 'k) store_lib \<Rightarrow> ('w, 'c) collection \<Rightarrow> ('c, 's, 'k) Store \<Rightarrow> 'w \<Rightarrow> u64 \<Rightarrow> u64 \<Rightarrow>
   ('e list, store_error) outcome" where
  "events_range L C st w from to = events_loop L C st w (unat from) (unat to)"

text \<open>The replay loop of \<open>recover\<close>.\<close>

fun apply_all :: "('p, 'e, 'k) store_lib \<Rightarrow> 'p \<Rightarrow> 'e list \<Rightarrow> ('p, store_error) outcome" where
  "apply_all L state [] = Ok state"
| "apply_all L state (e # es) =
     (case apply_event L state e of
        (Ok _, state') \<Rightarrow> apply_all L state' es
      | (Err err, _) \<Rightarrow> Err (StoreErr_Store (actor_error_display err))
      | (Panic m, _) \<Rightarrow> Panic m)"

definition recover ::
  "('p, 'e, 'k) store_lib \<Rightarrow> ('w, 'c) collection \<Rightarrow> ('w, 's) state_storage \<Rightarrow> bytes \<Rightarrow>
   ('c, 's, 'k) Store \<times> 'w \<Rightarrow> ('p option, store_error) outcome \<times> ('c, 's, 'k) Store \<times> 'w" where
  "recover L C S nonce = (\<lambda>(st, w).
     try_in (get_state L S st w) (st, w) (\<lambda>found.
       case found of
         None \<Rightarrow> (Ok None, st, w)
       | Some (state, counter) \<Rightarrow>
           (let st1 = st\<lparr>state_counter := counter\<rparr>
            in try_in (coll_last C (events st1) w) (st1, w) (\<lambda>l.
                 case l of
                   None \<Rightarrow> (Ok (Some state), st1, w)
                 | Some (key, _) \<Rightarrow>
                     try_in
                       (map_err (\<lambda>e. StoreErr_Store (''Can't parse event key: '' @ e))
                         (parse_u64 key)) (st1, w) (\<lambda>n.
                       let st2 = st1\<lparr>event_counter := n\<rparr>
                       in if event_counter st2 \<noteq> state_counter st2 then
                            try_in
                              (events_range L C st2 w (state_counter st2 + 1) (event_counter st2))
                              (st2, w) (\<lambda>es.
                            try_in (apply_all L state es) (st2, w) (\<lambda>state'.
                            then_in (snapshot L S nonce state' (st2, w)) (\<lambda>_ sw.
                              (Ok (Some state'), sw))))
                          else (Ok (Some state), st2, w))))))"

definition purge ::
  "('w, 'c) collection \<Rightarrow> ('w, 's) state_storage \<Rightarrow> ('c, 's, 'k) Store \<times> 'w \<Rightarrow>
   (unit, store_error) outcome \<times> ('c, 's, 'k) Store \<times> 'w" where
  "purge C S = (\<lambda>(st, w).
     let (r1, w1) = coll_purge C (events st) w
     in try_in r1 (st, w1) (\<lambda>_.
          let (r2, w2) = state_purge S (states st) w1
          in try_in r2 (st, w2) (\<lambda>_. (Ok (), st, w2))))"

section \<open>The message handler\<close>

text \<open>\<open>match self.method() \{ Ok(x) => Ok(f(x)), Err(e) => Ok(StoreResponse::Error(e)) \}\<close>.\<close>

definition respond ::
  "('a \<Rightarrow> ('p, 'e) StoreResponse) \<Rightarrow> ('a, store_error) outcome \<times> 'x \<Rightarrow>
   (('p, 'e) StoreResponse, actor_error) outcome \<times> 'x" where
  "respond f = (\<lambda>(r, x).
     (case r of Ok a \<Rightarrow> Ok (f a) | Err e \<Rightarrow> Ok (RespError e) | Panic m \<Rightarrow> Panic m, x))"

fun handle_message ::
  "('p, 'e, 'k) store_lib \<Rightarrow> ('w, 'c) collection \<Rightarrow> ('w, 's) state_storage \<Rightarrow> bytes \<times> bytes \<Rightarrow>
   ('p, 'e) StoreCommand \<Rightarrow> ('c, 's, 'k) Store \<times> 'w \<Rightarrow>
   (('p, 'e) StoreResponse, actor_error) outcome \<times> ('c, 's, 'k) Store \<times> 'w" where
  "handle_message L C S nonces (CmdPersist event) sw =
     respond (\<lambda>_. RespPersisted) (persist L C (fst nonces) event sw)"
| "handle_message L C S nonces (CmdPersistLight event actor) sw =
     respond (\<lambda>_. RespPersisted) (persist_state L C S nonces event actor sw)"
| "handle_message L C S nonces (CmdSnapshot actor) sw =
     respond (\<lambda>_. RespSnapshotted) (snapshot L S (fst nonces) actor sw)"
| "handle_message L C S nonces CmdRecover sw =
     respond RespState (recover L C S (fst nonces) sw)"
| "handle_message L C S nonces (CmdGetEvents from to) (st, w) =
     (and_then
       (map_err (\<lambda>e. ActorErr_Store (''Unable to get events range: '' @ store_error_display e))
         (events_range L C st w from to)) (\<lambda>es. Ok (RespEvents es)), st, w)"
| "handle_message L C S nonces CmdLastEvent (st, w) =
     respond RespLastEvent (last_event L C st w, st, w)"
| "handle_message L C S nonces CmdPurge sw =
     respond (\<lambda>_. RespNone) (purge C S sw)"
| "handle_message L C S nonces CmdLastEventNumber (st, w) =
     (Ok (RespLastEventNumber (event_counter st)), st, w)"
| "handle_message L C S nonces (CmdLastEventsFrom from) (st, w) =
     (and_then
       (map_err (\<lambda>e. ActorErr_Store (''Unable to get the latest events: '' @ store_error_display e))
         (events_range L C st w from (event_counter st))) (\<lambda>es. Ok (RespEvents es)), st, w)"

section \<open>What the code relies on in its libraries\<close>

text \<open>bincode decodes what it encoded; ChaCha20-Poly1305 opens what it sealed with the same key
  and nonce; the key memory returns the key it was given.\<close>

definition codec_laws :: "('p, 'e, 'k) store_lib \<Rightarrow> bool" where
  "codec_laws L \<longleftrightarrow>
     (\<forall>e b. enc_event L e = Ok b \<longrightarrow> dec_event L b = Ok e) \<and>
     (\<forall>x b. enc_state L x = Ok b \<longrightarrow> dec_state L b = Ok x)"

definition cipher_laws :: "('p, 'e, 'k) store_lib \<Rightarrow> bool" where
  "cipher_laws L \<longleftrightarrow>
     (\<forall>key nonce m c. length nonce = NONCE_SIZE \<longrightarrow> aead_encrypt L key nonce m = Ok c \<longrightarrow>
        aead_decrypt L key nonce c = Ok m)"

definition box_laws :: "('p, 'e, 'k) store_lib \<Rightarrow> bool" where
  "box_laws L \<longleftrightarrow> (\<forall>key k. mem_encrypt L key = Ok k \<longrightarrow> mem_decrypt L k = Ok key)"

definition lib_laws :: "('p, 'e, 'k) store_lib \<Rightarrow> bool" where
  "lib_laws L \<longleftrightarrow> codec_laws L \<and> cipher_laws L \<and> box_laws L"

lemma lib_lawsD:
  "lib_laws L \<Longrightarrow> enc_event L e = Ok b \<Longrightarrow> dec_event L b = Ok e"
  "lib_laws L \<Longrightarrow> enc_state L x = Ok b \<Longrightarrow> dec_state L b = Ok x"
  "lib_laws L \<Longrightarrow> length nonce = NONCE_SIZE \<Longrightarrow> aead_encrypt L key nonce m = Ok c \<Longrightarrow>
   aead_decrypt L key nonce c = Ok m"
  "lib_laws L \<Longrightarrow> mem_encrypt L key = Ok k \<Longrightarrow> mem_decrypt L k = Ok key"
  unfolding lib_laws_def codec_laws_def cipher_laws_def box_laws_def by blast+

lemma decrypt_encrypt:
  assumes "lib_laws L" "length nonce = NONCE_SIZE" "encrypt L key nonce m = Ok c"
  shows "decrypt L key c = Ok m"
  using assms by (auto simp: encrypt_def decrypt_def outcome_simps lib_lawsD)

lemma decode_encode:
  assumes "lib_laws L" "length nonce = NONCE_SIZE" "encode_event L kb nonce e = Ok b"
  shows "decode_event L kb b = Ok e"
proof (cases kb)
  case None
  with assms show ?thesis
    by (auto simp: encode_event_def decode_event_def outcome_simps lib_lawsD)
next
  case (Some k)
  with assms(3) obtain key d where "mem_decrypt L k = Ok key" "enc_event L e = Ok d"
      "encrypt L key nonce d = Ok b"
    by (auto simp: encode_event_def outcome_simps Let_def split: outcome.splits)
  with Some assms show ?thesis
    by (simp add: decode_event_def decrypt_encrypt lib_lawsD)
qed

end
