(* ===== verification/Memory_Store.thy ===== *)
theory Memory_Store
  imports Database
begin

text \<open>
  The in-memory backend (\<open>src/store/src/memory.rs\<close>). The \<open>Arc<RwLock<BTreeMap>>\<close> cells are an
  explicit heap: an address per cell, a cell with its entries and its poison flag. The manager maps
  a (name, prefix) pair to the address of its cell, so two handles opened with the same names alias
  the same map, as the cloned \<open>Arc\<close>s do. A poisoned lock takes the error branch of every method;
  no method of this file poisons one.
\<close>

record mem_cell =
  cell_data :: "bytes btree"
  cell_poisoned :: bool

record mem_world =
  mm_data :: "(string \<times> string) \<rightharpoonup> nat"
  mm_poisoned :: bool
  heap :: "nat \<Rightarrow> mem_cell"
  next_addr :: nat

record MemoryStore =
  ms_name :: string
  ms_prefix :: string
  ms_data :: nat

definition empty_cell :: mem_cell where
  "empty_cell = \<lparr>cell_data = [], cell_poisoned = False\<rparr>"

definition mem_world_default :: mem_world where
  "mem_world_default =
     \<lparr>mm_data = Map.empty, mm_poisoned = False, heap = (\<lambda>_. empty_cell), next_addr = 0\<rparr>"

section \<open>MemoryManager\<close>

definition mem_create_state ::
  "string \<Rightarrow> string \<Rightarrow> mem_world \<Rightarrow> (MemoryStore, store_error) outcome \<times> mem_world" where
  "mem_create_state name pfx w =
     (if mm_poisoned w
      then (Err (StoreErr_Store (''Can not lock manager data: '' @ poison_message)), w)
      else
        (case mm_data w (name, pfx) of
           Some a \<Rightarrow> (Ok \<lparr>ms_name = name, ms_prefix = pfx, ms_data = a\<rparr>, w)
         | None \<Rightarrow>
             (let a = next_addr w
              in (Ok \<lparr>ms_name = name, ms_prefix = pfx, ms_data = a\<rparr>,
                  w\<lparr>mm_data := (mm_data w)((name, pfx) \<mapsto> a),
                    heap := (heap w)(a := empty_cell),
                    next_addr := Suc a\<rparr>))))"

definition mem_create_collection ::
  "string \<Rightarrow> string \<Rightarrow> mem_world \<Rightarrow> (MemoryStore, store_error) outcome \<times> mem_world" where
  "mem_create_collection name pfx w =
     (if mm_poisoned w
      then (Err (StoreErr_Store (''Can not lock manager data: '' @ poison_message)), w)
      else
        (case mm_data w (name, pfx) of
           Some a \<Rightarrow> (Ok \<lparr>ms_name = name, ms_prefix = pfx, ms_data = a\<rparr>, w)
         | None \<Rightarrow>
             (let a = next_addr w
              in (Ok \<lparr>ms_name = name, ms_prefix = pfx, ms_data = a\<rparr>,
                  w\<lparr>mm_data := (mm_data w)((name, pfx) \<mapsto> a),
                    heap := (heap w)(a := empty_cell),
                    next_addr := Suc a\<rparr>))))"

section \<open>Locks\<close>

text \<open>\<open>self.data.read()\<close> and \<open>self.data.write()\<close> with their \<open>map_err\<close>.\<close>

definition lock_data :: "MemoryStore \<Rightarrow> mem_world \<Rightarrow> (bytes btree, store_error) outcome" where
  "lock_data h w =
     (let cell = heap w (ms_data h)
      in if cell_poisoned cell then Err (StoreErr_Store (''Can not lock data: '' @ poison_message))
         else Ok (cell_data cell))"

definition set_data :: "MemoryStore \<Rightarrow> bytes btree \<Rightarrow> mem_world \<Rightarrow> mem_world" where
  "set_data h m w =
     w\<lparr>heap := (heap w)(ms_data h := (heap w (ms_data h))\<lparr>cell_data := m\<rparr>)\<rparr>"

section \<open>impl State for MemoryStore\<close>

definition mem_state_get :: "MemoryStore \<Rightarrow> mem_world \<Rightarrow> (bytes, store_error) outcome" where
  "mem_state_get h w =
     and_then (lock_data h w) (\<lambda>m.
       case map_of m (ms_prefix h) of Some v \<Rightarrow> Ok v | None \<Rightarrow> Err no_rows)"

definition mem_state_put ::
  "MemoryStore \<Rightarrow> bytes \<Rightarrow> mem_world \<Rightarrow> (unit, store_error) outcome \<times> mem_world" where
  "mem_state_put h data w =
     try_in (lock_data h w) w (\<lambda>m. (Ok (), set_data h (bt_insert (ms_prefix h) data m) w))"

definition mem_state_del ::
  "MemoryStore \<Rightarrow> mem_world \<Rightarrow> (unit, store_error) outcome \<times> mem_world" where
  "mem_state_del h w =
     try_in (lock_data h w) w (\<lambda>m.
       (case map_of m (ms_prefix h) of Some _ \<Rightarrow> Ok () | None \<Rightarrow> Err no_rows,
        set_data h (bt_remove (ms_prefix h) m) w))"

definition mem_state_purge ::
  "MemoryStore \<Rightarrow> mem_world \<Rightarrow> (unit, store_error) outcome \<times> mem_world" where
  "mem_state_purge h w =
     try_in (lock_data h w) w (\<lambda>m.
       let keys_to_remove = filter (\<lambda>k. starts_with k (ms_prefix h)) (map fst m)
       in (Ok (), set_data h (fold bt_remove keys_to_remove m) w))"

section \<open>impl Collection for MemoryStore\<close>

definition full_key :: "MemoryStore \<Rightarrow> string \<Rightarrow> string" where
  "full_key h key = ms_prefix h @ CHR ''.'' # key"

definition mem_coll_get :: "MemoryStore \<Rightarrow> string \<Rightarrow> mem_world \<Rightarrow> (bytes, store_error) outcome" where
  "mem_coll_get h key w =
     and_then (lock_data h w) (\<lambda>m.
       case map_of m (full_key h key) of Some v \<Rightarrow> Ok v | None \<Rightarrow> Err no_rows)"

definition mem_coll_put ::
  "MemoryStore \<Rightarrow> string \<Rightarrow> bytes \<Rightarrow> mem_world \<Rightarrow> (unit, store_error) outcome \<times> mem_world" where
  "mem_coll_put h key data w =
     try_in (lock_data h w) w (\<lambda>m. (Ok (), set_data h (bt_insert (full_key h key) data m) w))"

definition mem_coll_del ::
  "MemoryStore \<Rightarrow> string \<Rightarrow> mem_world \<Rightarrow> (unit, store_error) outcome \<times> mem_world" where
  "mem_coll_del h key w =
     try_in (lock_data h w) w (\<lambda>m.
       (case map_of m (full_key h key) of Some _ \<Rightarrow> Ok () | None \<Rightarrow> Err no_rows,
        set_data h (bt_remove (full_key h key) m) w))"

definition mem_coll_purge ::
  "MemoryStore \<Rightarrow> mem_world \<Rightarrow> (unit, store_error) outcome \<times> mem_world" where
  "mem_coll_purge h w =
     try_in (lock_data h w) w (\<lambda>m.
       let keys_to_remove = filter (\<lambda>k. starts_with k (ms_prefix h)) (map fst m)
       in (Ok (), set_data h (fold bt_remove keys_to_remove m) w))"

text \<open>The \<open>map\<close> and \<open>collect\<close> of \<open>iter\<close>: the slice of a key may panic.\<close>

fun collect_items :: "nat \<Rightarrow> bytes btree \<Rightarrow> ((string \<times> bytes) list, store_error) outcome" where
  "collect_items n [] = Ok []"
| "collect_items n ((k, v) # m) =
     and_then (slice_from k n) (\<lambda>k'. and_then (collect_items n m) (\<lambda>r. Ok ((k', v) # r)))"

definition mem_coll_iter :: "MemoryStore \<Rightarrow> bool \<Rightarrow> mem_world \<Rightarrow> (string \<times> bytes) rust_iter" where
  "mem_coll_iter h reverse w =
     (case lock_data h w of
        Ok m \<Rightarrow>
          (case collect_items (length (ms_prefix h) + 1)
                  (filter (\<lambda>p. starts_with (fst p) (ms_prefix h)) (if reverse then rev m else m)) of
             Ok items \<Rightarrow> iter_of_list items
           | Err _ \<Rightarrow> Done
           | Panic msg \<Rightarrow> Crash msg)
      | _ \<Rightarrow> Done)"

definition mem_collection :: "(mem_world, MemoryStore) collection" where
  "mem_collection = \<lparr>coll_name = ms_name, coll_get = mem_coll_get, coll_put = mem_coll_put,
     coll_del = mem_coll_del, coll_purge = mem_coll_purge, coll_iter = mem_coll_iter\<rparr>"

definition mem_state :: "(mem_world, MemoryStore) state_storage" where
  "mem_state = \<lparr>state_name = ms_name, state_get = mem_state_get, state_put = mem_state_put,
     state_del = mem_state_del, state_purge = mem_state_purge\<rparr>"

definition mem_manager :: "(mem_world, MemoryStore, MemoryStore) db_manager" where
  "mem_manager = \<lparr>create_collection = mem_create_collection, create_state = mem_create_state\<rparr>"

section \<open>Lemmas\<close>

lemmas mem_ops [simp] = mem_collection_def mem_state_def mem_manager_def

lemma lock_data_ok [simp]:
  "\<not> cell_poisoned (heap w (ms_data h)) \<Longrightarrow> lock_data h w = Ok (cell_data (heap w (ms_data h)))"
  by (simp add: lock_data_def)

lemma heap_set_data [simp]:
  "heap (set_data h m w) a =
     (if a = ms_data h then (heap w a)\<lparr>cell_data := m\<rparr> else heap w a)"
  by (simp add: set_data_def)

lemma set_data_frame [simp]:
  "mm_data (set_data h m w) = mm_data w"
  "mm_poisoned (set_data h m w) = mm_poisoned w"
  "next_addr (set_data h m w) = next_addr w"
  by (simp_all add: set_data_def)

lemma full_key_less [simp]: "full_key h a < full_key h b \<longleftrightarrow> a < b"
  by (simp add: full_key_def Cons_less_Cons_iff)

lemma inj_full_key [simp]: "inj (full_key h)"
  by (simp add: inj_def full_key_def)

lemma starts_with_full_key [simp]: "starts_with (full_key h k) (ms_prefix h)"
  by (simp add: full_key_def)

lemma drop_full_key [simp]: "drop (Suc (length (ms_prefix h))) (full_key h k) = k"
  by (simp add: full_key_def)

lemma slice_full_key: "key_ok k \<Longrightarrow> slice_from (full_key h k) (Suc (length (ms_prefix h))) = Ok k"
  by (cases k) (auto simp: full_key_def slice_from_def key_ok_def nth_append dest: utf8_head)

lemma fold_bt_remove: "fold bt_remove ks m = filter (\<lambda>p. fst p \<notin> set ks) m"
  by (induction ks arbitrary: m) (auto simp: bt_remove_def intro: filter_cong)

lemma purge_prefix:
  "fold bt_remove (filter (\<lambda>k. starts_with k p) (map fst m)) m =
     filter (\<lambda>q. \<not> starts_with (fst q) p) m"
  by (auto simp: fold_bt_remove intro!: filter_cong)

lemma map_of_filter_none [simp]: "map_of (filter (\<lambda>q. \<not> starts_with (fst q) p) m) p = None"
  by (auto simp: map_of_eq_None_iff starts_with_def)

section \<open>The collection contract\<close>

text \<open>A cell used as a collection holds only keys \<open>prefix.key\<close>; the entries the trait shows are
  those keys without the prefix.\<close>

definition mem_entries :: "MemoryStore \<Rightarrow> mem_world \<Rightarrow> (string \<times> bytes) list" where
  "mem_entries h w =
     map (apfst (drop (length (ms_prefix h) + 1))) (cell_data (heap w (ms_data h)))"

definition mem_cvalid :: "MemoryStore \<Rightarrow> mem_world \<Rightarrow> bool" where
  "mem_cvalid h w \<longleftrightarrow>
     \<not> cell_poisoned (heap w (ms_data h)) \<and> bt_ok (cell_data (heap w (ms_data h))) \<and>
     (\<forall>p \<in> set (cell_data (heap w (ms_data h))). \<exists>k. key_ok k \<and> fst p = full_key h k)"

definition mem_svalid :: "MemoryStore \<Rightarrow> mem_world \<Rightarrow> bool" where
  "mem_svalid h w \<longleftrightarrow>
     \<not> cell_poisoned (heap w (ms_data h)) \<and> bt_ok (cell_data (heap w (ms_data h)))"

definition mem_content :: "MemoryStore \<Rightarrow> mem_world \<Rightarrow> bytes option" where
  "mem_content h w = map_of (cell_data (heap w (ms_data h))) (ms_prefix h)"

lemma mem_data_entries:
  assumes "mem_cvalid h w"
  shows "cell_data (heap w (ms_data h)) = map (apfst (full_key h)) (mem_entries h w)"
  using assms
  by (auto simp: mem_cvalid_def mem_entries_def comp_def intro!: map_idI [symmetric])

lemma mem_lock:
  assumes "mem_cvalid h w"
  shows "lock_data h w = Ok (map (apfst (full_key h)) (mem_entries h w))"
proof -
  have "lock_data h w = Ok (cell_data (heap w (ms_data h)))"
    using assms by (simp add: mem_cvalid_def)
  then show ?thesis by (simp only: mem_data_entries [OF assms])
qed

lemma mem_entries_ok:
  assumes "mem_cvalid h w"
  shows "bt_ok (mem_entries h w)"
proof -
  have "bt_ok (map (apfst (full_key h)) (mem_entries h w))"
    unfolding mem_data_entries [OF assms, symmetric] using assms by (simp add: mem_cvalid_def)
  then show ?thesis by (simp add: bt_ok_map_key)
qed

lemma mem_entries_keys: "mem_cvalid h w \<Longrightarrow> p \<in> set (mem_entries h w) \<Longrightarrow> key_ok (fst p)"
  by (auto simp: mem_cvalid_def mem_entries_def)

lemma entries_set_data:
  "mem_entries h (set_data h (map (apfst (full_key h)) es) w) = es"
  by (induction es) (auto simp: mem_entries_def)

lemma cvalid_set_data:
  "mem_cvalid h w \<Longrightarrow> bt_ok es \<Longrightarrow> \<forall>p \<in> set es. key_ok (fst p) \<Longrightarrow>
   mem_cvalid h (set_data h (map (apfst (full_key h)) es) w)"
  by (auto simp: mem_cvalid_def bt_ok_map_key)

lemma mem_coll_put_eq:
  "mem_cvalid h w \<Longrightarrow>
   mem_coll_put h k v w =
     (Ok (), set_data h (map (apfst (full_key h)) (bt_insert k v (mem_entries h w))) w)"
  by (simp add: mem_coll_put_def mem_lock bt_insert_map_key mem_entries_ok)

lemma mem_coll_del_eq:
  "mem_cvalid h w \<Longrightarrow>
   mem_coll_del h k w =
     (case map_of (mem_entries h w) k of Some _ \<Rightarrow> Ok () | None \<Rightarrow> Err no_rows,
      set_data h (map (apfst (full_key h)) (bt_remove k (mem_entries h w))) w)"
  by (simp add: mem_coll_del_def mem_lock bt_remove_map_key map_of_map_key)

lemma filter_full_key:
  "filter (\<lambda>p. \<not> starts_with (fst p) (ms_prefix h)) (map (apfst (full_key h)) es) = []"
  "filter (\<lambda>p. starts_with (fst p) (ms_prefix h)) (map (apfst (full_key h)) es) =
     map (apfst (full_key h)) es"
  by (auto simp: filter_empty_conv filter_id_conv)

lemma mem_coll_purge_eq: "mem_cvalid h w \<Longrightarrow> mem_coll_purge h w = (Ok (), set_data h [] w)"
  by (simp only: mem_coll_purge_def mem_lock try_in.simps Let_def purge_prefix filter_full_key)

lemma collect_items_full:
  "\<forall>p \<in> set es. key_ok (fst p) \<Longrightarrow>
   collect_items (Suc (length (ms_prefix h))) (map (apfst (full_key h)) es) = Ok es"
  by (induction es) (auto simp: slice_full_key)

lemma mem_iter_law:
  assumes "mem_cvalid h w"
  shows "mem_coll_iter h r w = iter_of_list (if r then rev (mem_entries h w) else mem_entries h w)"
proof -
  have "\<forall>p \<in> set (mem_entries h w). key_ok (fst p)"
    using mem_entries_keys [OF assms] by blast
  then show ?thesis
    by (simp add: mem_coll_iter_def mem_lock [OF assms] rev_map filter_full_key collect_items_full)
qed

lemmas mem_put_facts = mem_coll_put_eq entries_set_data cvalid_set_data mem_entries_ok set_bt_insert
  mem_entries_keys

interpretation mem_coll: collection_laws mem_collection mem_cvalid mem_entries
proof (unfold_locales, goal_cases)
  case (1 c w)
  then show ?case by (rule mem_entries_ok)
next
  case (2 c w k)
  then show ?case
    by (simp add: mem_coll_get_def mem_lock map_of_map_key)
next
  case (4 c w k v)
  then show ?case by (auto simp: mem_put_facts)
next
  case (6 c w k)
  then have "map_of (mem_entries c w) k \<noteq> None" by (simp add: map_of_eq_None_iff)
  with 6 show ?case by (auto simp: mem_coll_del_eq)
next
  case (7 c w k)
  then show ?case
    by (auto simp: mem_coll_del_eq bt_remove_def mem_entries_ok bt_ok_filter
        intro!: cvalid_set_data dest: mem_entries_keys)
next
  case (10 c w)
  then show ?case using cvalid_set_data [of c w "[]"] by (simp add: mem_coll_purge_eq)
next
  case (11 c w)
  then show ?case using entries_set_data [of c "[]" w] by (simp add: mem_coll_purge_eq)
next
  case (12 c w r)
  then show ?case by (simp add: mem_iter_law)
qed (simp_all add: mem_coll_put_eq mem_coll_del_eq mem_coll_purge_eq entries_set_data)

section \<open>The state contract\<close>

interpretation mem_st: state_laws mem_state mem_svalid mem_content
proof (unfold_locales, goal_cases)
  case (1 s w)
  then show ?case by (simp add: mem_state_get_def mem_svalid_def mem_content_def)
qed (auto simp: mem_svalid_def mem_content_def mem_state_put_def mem_state_del_def mem_state_purge_def
    btree_simps purge_prefix bt_ok_filter Let_def)

section \<open>Opening the storages of an actor\<close>

definition mem_opened :: "string \<Rightarrow> string \<Rightarrow> MemoryStore \<Rightarrow> MemoryStore \<Rightarrow> mem_world \<Rightarrow> bool" where
  "mem_opened name pfx c s w \<longleftrightarrow>
     \<not> mm_poisoned w \<and>
     mm_data w (name @ ''_events'', pfx) = Some (ms_data c) \<and>
     ms_name c = name @ ''_events'' \<and> ms_prefix c = pfx \<and>
     mm_data w (name @ ''_states'', pfx) = Some (ms_data s) \<and>
     ms_name s = name @ ''_states'' \<and> ms_prefix s = pfx \<and>
     ms_data c \<noteq> ms_data s \<and> mem_cvalid c w \<and> mem_svalid s w"

definition mem_wf :: "mem_world \<Rightarrow> bool" where
  "mem_wf w \<longleftrightarrow>
     \<not> mm_poisoned w \<and> (\<forall>k a. mm_data w k = Some a \<longrightarrow> a < next_addr w) \<and>
     inj_on (mm_data w) (dom (mm_data w))"

lemma mem_frames:
  "ms_data c \<noteq> ms_data s \<Longrightarrow> mem_content s (set_data c m w) = mem_content s w"
  "ms_data c \<noteq> ms_data s \<Longrightarrow> mem_entries c (set_data s m w) = mem_entries c w"
  "ms_data c \<noteq> ms_data s \<Longrightarrow> mem_svalid s (set_data c m w) = mem_svalid s w"
  "ms_data c \<noteq> ms_data s \<Longrightarrow> mem_cvalid c (set_data s m w) = mem_cvalid c w"
  by (simp_all add: mem_content_def mem_entries_def mem_svalid_def mem_cvalid_def)

lemma mem_state_put_eq:
  "mem_svalid s w \<Longrightarrow> \<exists>m. mem_state_put s v w = (Ok (), set_data s m w)"
  by (auto simp: mem_state_put_def mem_svalid_def)

lemma mem_state_purge_eq:
  "mem_svalid s w \<Longrightarrow> \<exists>m. mem_state_purge s w = (Ok (), set_data s m w)"
  by (auto simp: mem_state_purge_def mem_svalid_def Let_def)

interpretation mem: reopenable_backend mem_collection mem_cvalid mem_entries mem_state mem_svalid
  mem_content "mem_opened name pfx" mem_manager name pfx for name pfx
proof (unfold_locales, goal_cases)
  case (2 c s w k v)
  then show ?case using mem_coll.put_valid [of c w k v]
    by (simp add: mem_opened_def mem_coll_put_eq mem_frames)
next
  case (4 c s w)
  then show ?case using mem_coll.purge_valid [of c w]
    by (simp add: mem_opened_def mem_coll_purge_eq mem_frames)
next
  case (6 c s w v)
  then show ?case using mem_st.sput_valid [of s w v] mem_state_put_eq [of s w v]
    by (auto simp: mem_opened_def mem_frames)
next
  case (7 c s w v)
  then show ?case using mem_state_put_eq [of s w v] by (auto simp: mem_opened_def mem_frames)
next
  case (8 c s w)
  then show ?case using mem_st.spurge_valid [of s w] mem_state_purge_eq [of s w]
    by (auto simp: mem_opened_def mem_frames)
next
  case (9 c s w)
  then show ?case using mem_state_purge_eq [of s w] by (auto simp: mem_opened_def mem_frames)
qed (auto simp: mem_opened_def mem_coll_put_eq mem_coll_purge_eq mem_frames
    mem_create_collection_def mem_create_state_def)

text \<open>The first opening of an actor's storages: two new cells, both empty.\<close>

definition new_cell :: "string \<Rightarrow> string \<Rightarrow> mem_world \<Rightarrow> mem_world" where
  "new_cell name pfx w =
     w\<lparr>mm_data := (mm_data w)((name, pfx) \<mapsto> next_addr w),
       heap := (heap w)(next_addr w := empty_cell), next_addr := Suc (next_addr w)\<rparr>"

lemma mem_create_fresh:
  assumes "mem_wf w" "mm_data w (n, pfx) = None"
  shows "mem_create_collection n pfx w = (Ok \<lparr>ms_name = n, ms_prefix = pfx, ms_data = next_addr w\<rparr>, new_cell n pfx w)"
    "mem_create_state n pfx w = (Ok \<lparr>ms_name = n, ms_prefix = pfx, ms_data = next_addr w\<rparr>, new_cell n pfx w)"
  using assms
  by (simp_all add: mem_wf_def mem_create_collection_def mem_create_state_def new_cell_def Let_def)

lemma mem_wf_default: "mem_wf mem_world_default"
  by (simp add: mem_wf_def mem_world_default_def)

lemma mem_wf_new_cell:
  assumes "mem_wf w" "mm_data w (n, pfx) = None"
  shows "mem_wf (new_cell n pfx w)"
proof -
  have lt: "\<forall>k a. mm_data w k = Some a \<longrightarrow> a < next_addr w" using assms(1) by (simp add: mem_wf_def)
  then have new: "mm_data w k \<noteq> Some (next_addr w)" for k by blast
  let ?m = "(mm_data w)((n, pfx) \<mapsto> next_addr w)"
  have "inj_on ?m (dom ?m)"
  proof (rule inj_onI)
    fix x y assume x: "x \<in> dom ?m" and eq: "?m x = ?m y"
    have inj: "inj_on (mm_data w) (dom (mm_data w))" using assms(1) by (simp add: mem_wf_def)
    show "x = y"
    proof (cases "x = (n, pfx) \<or> y = (n, pfx)")
      case True
      with eq new show ?thesis by (metis fun_upd_apply)
    next
      case False
      with x eq have "x \<in> dom (mm_data w)" "mm_data w x = mm_data w y" by auto
      then show ?thesis using inj by (metis domIff inj_on_contraD)
    qed
  qed
  moreover have "\<forall>k a. ((mm_data w)((n, pfx) \<mapsto> next_addr w)) k = Some a \<longrightarrow> a < Suc (next_addr w)"
    using lt by (auto intro: less_SucI)
  ultimately show ?thesis using assms(1) by (simp add: mem_wf_def new_cell_def)
qed

lemma mem_open_fresh:
  assumes wf: "mem_wf w" and new: "mm_data w (name @ ''_events'', pfx) = None"
    "mm_data w (name @ ''_states'', pfx) = None"
  shows "\<exists>c s w1 w2. mem_create_collection (name @ ''_events'') pfx w = (Ok c, w1) \<and>
    mem_create_state (name @ ''_states'') pfx w1 = (Ok s, w2) \<and> mem_opened name pfx c s w2 \<and>
    mem_entries c w2 = [] \<and> mem_content s w2 = None \<and> mem_wf w2"
proof -
  let ?w1 = "new_cell (name @ ''_events'') pfx w"
  let ?w2 = "new_cell (name @ ''_states'') pfx ?w1"
  let ?c = "\<lparr>ms_name = name @ ''_events'', ms_prefix = pfx, ms_data = next_addr w\<rparr>"
  let ?s = "\<lparr>ms_name = name @ ''_states'', ms_prefix = pfx, ms_data = Suc (next_addr w)\<rparr>"
  have wf1: "mem_wf ?w1" using wf new(1) by (rule mem_wf_new_cell)
  have new1: "mm_data ?w1 (name @ ''_states'', pfx) = None" using new(2) by (simp add: new_cell_def)
  have na: "next_addr ?w1 = Suc (next_addr w)" by (simp add: new_cell_def)
  have "mem_opened name pfx ?c ?s ?w2"
    using wf by (simp add: mem_opened_def mem_wf_def new_cell_def mem_cvalid_def mem_svalid_def empty_cell_def)
  moreover have "mem_entries ?c ?w2 = []" "mem_content ?s ?w2 = None"
    by (simp_all add: mem_entries_def mem_content_def new_cell_def empty_cell_def)
  moreover have "mem_wf ?w2" using wf1 new1 by (rule mem_wf_new_cell)
  ultimately show ?thesis
    using mem_create_fresh(1) [OF wf new(1)] mem_create_fresh(2) [OF wf1 new1] na by simp
qed

definition mem_fresh :: "string \<Rightarrow> string \<Rightarrow> mem_world \<Rightarrow> bool" where
  "mem_fresh name pfx w \<longleftrightarrow> mem_wf w \<and> mm_data w (name @ ''_events'', pfx) = None \<and>
     mm_data w (name @ ''_states'', pfx) = None"

lemma mem_freshI:
  "mem_wf w \<Longrightarrow> mm_data w (name @ ''_events'', pfx) = None \<Longrightarrow>
   mm_data w (name @ ''_states'', pfx) = None \<Longrightarrow> mem_fresh name pfx w"
  by (simp add: mem_fresh_def)

interpretation mem_new: fresh_backend mem_collection mem_cvalid mem_entries mem_state mem_svalid
  mem_content "mem_opened name pfx" mem_manager name pfx "mem_fresh name pfx" for name pfx
proof (unfold_locales, goal_cases)
  case (1 w)
  then show ?case using mem_open_fresh [of w name pfx] by (auto simp: mem_fresh_def)
qed

section \<open>Properties\<close>

text \<open>A cell with two entries behind the prefix \<open>p\<close>.\<close>

definition small_store :: MemoryStore where
  "small_store = \<lparr>ms_name = ''n'', ms_prefix = ''p'', ms_data = 0\<rparr>"

definition small_world :: mem_world where
  "small_world = mem_world_default\<lparr>heap := (\<lambda>_. empty_cell)
     (0 := \<lparr>cell_data = [(''p.a'', [1]), (''p.b'', [2])], cell_poisoned = False\<rparr>)\<rparr>"

lemma small_valid: "mem_cvalid small_store small_world"
  by (auto simp: mem_cvalid_def small_store_def small_world_def full_key_def key_ok_def utf8_ok_ascii
      Cons_less_Cons_iff less_char_def)

lemma small_entries: "mem_entries small_store small_world = [(''a'', [1]), (''b'', [2])]"
  by (simp add: mem_entries_def small_store_def small_world_def)

text \<open>A memory collection behaves as a map: a key that was put is found with its value, the other
  keys keep theirs, a deleted key is not found and after a purge no key is.\<close>

theorem memory_collection_is_a_map:
  assumes "mem_cvalid c w" "key_ok k"
  shows "mem_coll_get c k (snd (mem_coll_put c k v w)) = Ok v \<and>
    (\<forall>j. j \<noteq> k \<longrightarrow> mem_coll_get c j (snd (mem_coll_put c k v w)) = mem_coll_get c j w) \<and>
    mem_coll_get c k (snd (mem_coll_del c k w)) = Err no_rows \<and>
    mem_coll_get c j (snd (mem_coll_purge c w)) = Err no_rows"
  using mem_coll.get_after_put [OF assms, of v] mem_coll.get_other_after_put [OF assms]
    mem_coll.get_law [OF mem_coll.del_valid [OF assms(1), of k], of k] mem_coll.del_entries [OF assms(1), of k]
    mem_coll.get_law [OF mem_coll.purge_valid [OF assms(1)], of j] mem_coll.purge_entries [OF assms(1)]
  by (simp add: map_of_bt_remove)

theorem memory_collection_is_a_map_witness:
  "mem_coll_get small_store ''c'' (snd (mem_coll_put small_store ''c'' [9] small_world)) = Ok [9] \<and>
   mem_coll_get small_store ''c'' (snd (mem_coll_del small_store ''c'' small_world)) = Err no_rows \<and>
   mem_coll_get small_store ''a'' (snd (mem_coll_purge small_store small_world)) = Err no_rows"
proof -
  have "key_ok ''c''" by (simp add: key_ok_def utf8_ok_ascii)
  from memory_collection_is_a_map [OF small_valid this, of "[9]" "''a''"] show ?thesis by simp
qed

text \<open>\<open>get_by_range\<close> on a memory collection: from a present key it returns the values of the entries
  after it, at most \<open>quantity\<close> of them, in key order, or in reverse order for a negative quantity;
  from a missing key it fails; without a key it starts at the first, or last, entry.\<close>

theorem memory_range_is_entry_segment:
  assumes "mem_cvalid c w"
  shows "get_by_range mem_collection c from q w =
    (let es = (if 0 \<le> sint q then mem_entries c w else rev (mem_entries c w));
         n = nat (sint (isize_abs q))
     in case from of
          None \<Rightarrow> Ok (map snd (take n es))
        | Some key \<Rightarrow>
            if key \<in> fst ` set es then Ok (map snd (take n (tl (dropWhile (\<lambda>p. fst p \<noteq> key) es))))
            else Err (StoreErr_EntryNotFound ''None''))"
  using mem_coll.get_by_range_all [OF assms] mem_coll.get_by_range_from [OF assms]
  by (cases "from") (simp_all add: Let_def del: mem_ops)

theorem memory_range_is_entry_segment_witness:
  "get_by_range mem_collection small_store (Some ''b'') (- 5) small_world = Ok [[1]] \<and>
   get_by_range mem_collection small_store None 1 small_world = Ok [[1]] \<and>
   get_by_range mem_collection small_store (Some ''z'') 1 small_world = Err (StoreErr_EntryNotFound ''None'')"
  using memory_range_is_entry_segment [OF small_valid, of "Some ''b''" "- 5"]
    memory_range_is_entry_segment [OF small_valid, of None 1]
    memory_range_is_entry_segment [OF small_valid, of "Some ''z''" 1]
  by (simp add: small_entries isize_abs_def Let_def del: mem_ops)

end
