(* ===== verification/Store_Log.thy ===== *)
theory Store_Log
  imports Store_Actor Memory_Store
begin

text \<open>
  What the \<open>Store\<close> actor does to its log and its snapshot, proved once over the contract
  \<open>store_backend\<close> and interpreted for the in-memory backend. The abstract state of a store is the
  list of its events (\<open>log_rep\<close>) and its snapshot (\<open>snap_rep\<close>): \<open>persist\<close> appends, \<open>events\<close> reads
  a segment, \<open>snapshot\<close> replaces the snapshot and \<open>recover\<close> replays the events after it.
\<close>

text \<open>The collection holds event \<open>i\<close> of the log under the 20-digit form of \<open>i\<close>.\<close>

definition log_entries ::
  "('p, 'e, 'k) store_lib \<Rightarrow> 'k option \<Rightarrow> (string \<times> bytes) list \<Rightarrow> 'e list \<Rightarrow> bool" where
  "log_entries L kb es evs \<longleftrightarrow>
     length evs \<le> 2 ^ 64 \<and> map fst es = map (\<lambda>i. fmt020 (of_nat i)) [0..<length evs] \<and>
     map (\<lambda>p. decode_event L kb (snd p)) es = map Ok evs"

definition decode_state ::
  "('p, 'e, 'k) store_lib \<Rightarrow> 'k option \<Rightarrow> bytes \<Rightarrow> ('p \<times> u64, store_error) outcome" where
  "decode_state L kb data =
     and_then
       (case kb of
          Some k \<Rightarrow>
            (case mem_decrypt L k of
               Ok key \<Rightarrow> decrypt L key data
             | Err _ \<Rightarrow> Err (StoreErr_Store ''Can't decrypt key'')
             | Panic m \<Rightarrow> Panic m)
        | None \<Rightarrow> Ok data) (\<lambda>d.
       map_err (\<lambda>e. StoreErr_Store (''Can't decode state: '' @ e)) (dec_state L d))"

text \<open>The bytes \<open>snapshot\<close> stores.\<close>

definition encode_state ::
  "('p, 'e, 'k) store_lib \<Rightarrow> 'k option \<Rightarrow> bytes \<Rightarrow> 'p \<times> u64 \<Rightarrow> (bytes, store_error) outcome" where
  "encode_state L kb nonce x =
     and_then
       (map_err (\<lambda>e. StoreErr_Store (''Can't encode actor: '' @ e)) (enc_state L x)) (\<lambda>data.
       case kb of
         Some k \<Rightarrow>
           (case mem_decrypt L k of
              Ok key \<Rightarrow> encrypt L key nonce data
            | Err _ \<Rightarrow> Ok data
            | Panic m \<Rightarrow> Panic m)
       | None \<Rightarrow> Ok data)"

text \<open>The key box opens, so that the snapshot is really encrypted.\<close>

definition box_opens :: "('p, 'e, 'k) store_lib \<Rightarrow> 'k option \<Rightarrow> bool" where
  "box_opens L kb \<longleftrightarrow> (case kb of None \<Rightarrow> True | Some k \<Rightarrow> is_ok (mem_decrypt L k))"

lemma decode_encode_state:
  assumes "lib_laws L" "length nonce = NONCE_SIZE" "box_opens L kb"
    "encode_state L kb nonce x = Ok b"
  shows "decode_state L kb b = Ok x"
  using assms
  by (auto simp: encode_state_def decode_state_def box_opens_def outcome_simps lib_lawsD decrypt_encrypt
      split: option.splits)

lemma get_state_eq:
  "get_state L S st w =
     (case state_get S (states st) w of
        Ok data \<Rightarrow> and_then (decode_state L (key_box st) data) (\<lambda>x. Ok (Some x))
      | Err (StoreErr_EntryNotFound _) \<Rightarrow> Ok None
      | Err e \<Rightarrow> Err e
      | Panic m \<Rightarrow> Panic m)"
proof -
  have assoc: "and_then (and_then r f) g = and_then r (\<lambda>x. and_then (f x) g)"
    for r :: "('x, 'z) outcome" and f :: "'x \<Rightarrow> ('y, 'z) outcome" and g :: "'y \<Rightarrow> ('v, 'z) outcome"
    by (cases r) auto
  show ?thesis by (simp only: get_state_def decode_state_def assoc)
qed

lemma snapshot_eq:
  "snapshot L S nonce actor (st, w) =
     (let st' = st\<lparr>state_counter := event_counter st\<rparr>
      in try_in (encode_state L (key_box st) nonce (actor, event_counter st)) (st', w) (\<lambda>out.
           let (result, w') = state_put S (states st) out w in (result, st', w')))"
  by (cases "enc_state L (actor, event_counter st)")
    (simp_all add: snapshot_def encode_state_def Let_def)

section \<open>Keys of the log\<close>

lemma of_nat_less_u64: "i < j \<Longrightarrow> j < 2 ^ 64 \<Longrightarrow> (of_nat i :: u64) < of_nat j"
  by (simp add: word_less_nat_alt unat_of_nat)

lemma unat_of_nat_u64 [simp]: "i < 2 ^ 64 \<Longrightarrow> unat (of_nat i :: u64) = i"
  by (simp add: unat_of_nat)

lemma key_ok_fmt020 [simp]: "key_ok (fmt020 n)"
  by (simp add: key_ok_def)

lemma log_entries_Nil [simp]: "log_entries L kb [] evs \<longleftrightarrow> evs = []"
  by (auto simp: log_entries_def)

lemma log_entries_length: "log_entries L kb es evs \<Longrightarrow> length es = length evs"
  unfolding log_entries_def by (metis length_map)

lemma log_entries_nth:
  assumes "log_entries L kb es evs" "i < length evs"
  shows "fst (es ! i) = fmt020 (of_nat i)" "decode_event L kb (snd (es ! i)) = Ok (evs ! i)"
proof -
  have i: "i < length es" using assms log_entries_length by metis
  have "map fst es ! i = map (\<lambda>i. fmt020 (of_nat i)) [0..<length evs] ! i"
    using assms(1) by (simp add: log_entries_def)
  with assms(2) i show "fst (es ! i) = fmt020 (of_nat i)" by simp
  have "map (\<lambda>p. decode_event L kb (snd p)) es ! i = map Ok evs ! i"
    using assms(1) by (simp add: log_entries_def)
  with assms(2) i show "decode_event L kb (snd (es ! i)) = Ok (evs ! i)" by simp
qed

lemma log_entries_last:
  assumes "log_entries L kb es evs" "evs \<noteq> []"
  shows "es \<noteq> []" "fst (last es) = fmt020 (of_nat (length evs - 1))"
    "decode_event L kb (snd (last es)) = Ok (last evs)"
proof -
  have len: "length es = length evs" using assms(1) by (rule log_entries_length)
  then show ne: "es \<noteq> []" using assms(2) by auto
  have "length evs - 1 < length evs" using assms(2) by simp
  note nth = log_entries_nth [OF assms(1) this]
  show "fst (last es) = fmt020 (of_nat (length evs - 1))"
    "decode_event L kb (snd (last es)) = Ok (last evs)"
    using nth ne assms(2) len by (simp_all add: last_conv_nth)
qed

lemma log_entries_below:
  assumes "log_entries L kb es evs" "length evs < 2 ^ 64" "p \<in> set es"
  shows "fst p < fmt020 (of_nat (length evs))"
proof -
  from assms(3) obtain i where "i < length es" "p = es ! i" by (auto simp: in_set_conv_nth)
  with assms log_entries_nth [OF assms(1), of i] log_entries_length [OF assms(1)]
  show ?thesis by (simp add: fmt020_less_iff of_nat_less_u64)
qed

lemma log_entries_append:
  assumes "log_entries L kb es evs" "length evs < 2 ^ 64" "decode_event L kb b = Ok e"
  shows "log_entries L kb (bt_insert (fmt020 (of_nat (length evs))) b es) (evs @ [e])"
proof -
  have "bt_insert (fmt020 (of_nat (length evs))) b es = es @ [(fmt020 (of_nat (length evs)), b)]"
    using log_entries_below [OF assms(1,2)] by (intro bt_insert_last) blast
  with assms show ?thesis by (simp add: log_entries_def)
qed

lemma log_entries_replace:
  assumes "log_entries L kb es evs" "bt_ok es" "decode_event L kb b = Ok e"
  shows "log_entries L kb (bt_insert (fmt020 (of_nat (length evs - 1))) b es) (butlast evs @ [e])"
proof (cases evs rule: rev_cases)
  case Nil
  then have "es = []" using log_entries_length [OF assms(1)] by simp
  with Nil assms(3) show ?thesis by (simp add: log_entries_def)
next
  case (snoc evs' e')
  then have ne: "evs \<noteq> []" by simp
  obtain es' pk pv where es: "es = es' @ [(pk, pv)]"
    using log_entries_last(1) [OF assms(1) ne] by (cases es rule: rev_cases) auto
  then have fp: "pk = fmt020 (of_nat (length evs'))"
    using log_entries_last(2) [OF assms(1) ne] snoc by simp
  then have "bt_insert (fmt020 (of_nat (length evs'))) b es = es' @ [(pk, b)]"
    using assms(2) es bt_insert_same_last [of es' pk pv b] by simp
  with assms es snoc fp show ?thesis by (simp add: log_entries_def)
qed

lemma log_entries_get:
  assumes "log_entries L kb es evs" "bt_ok es" "i < 2 ^ 64"
  shows "if i < length evs
     then \<exists>b. map_of es (fmt020 (of_nat i)) = Some b \<and> decode_event L kb b = Ok (evs ! i)
     else map_of es (fmt020 (of_nat i)) = None"
proof (cases "i < length evs")
  case True
  then have "i < length es" using log_entries_length [OF assms(1)] by simp
  moreover note nth = log_entries_nth [OF assms(1) True]
  ultimately have "(fmt020 (of_nat i), snd (es ! i)) \<in> set es"
    by (metis nth_mem prod.collapse)
  then have "map_of es (fmt020 (of_nat i)) = Some (snd (es ! i))"
    using bt_ok_distinct [OF assms(2)] by simp
  with True nth show ?thesis by simp
next
  case False
  have "fmt020 (of_nat i) \<noteq> fst (es ! j)" if "j < length es" for j
  proof -
    have j: "j < length evs" using that log_entries_length [OF assms(1)] by simp
    with False have "j < i" by simp
    then have "(of_nat j :: u64) < of_nat i" using assms(3) by (rule of_nat_less_u64)
    then show ?thesis using log_entries_nth [OF assms(1) j] by simp
  qed
  then have "fmt020 (of_nat i) \<notin> fst ` set es" 
    unfolding set_conv_nth by blast
  with False show ?thesis by (simp add: map_of_eq_None_iff)
qed

lemma counter_cases:
  assumes "length evs \<le> 2 ^ 64"
  shows "(of_nat (length evs - 1) :: u64) = 0 \<longleftrightarrow> length evs \<le> 1"
proof
  assume "(of_nat (length evs - 1) :: u64) = 0"
  then have "unat (of_nat (length evs - 1) :: u64) = 0" by simp
  moreover have "length evs - 1 < 2 ^ 64" using assms by simp
  ultimately show "length evs \<le> 1" by simp
qed simp

text \<open>The store \<open>st\<close> in world \<open>w\<close> holds the log \<open>evs\<close>; its snapshot is \<open>x\<close>, a state with the
  event counter it was taken at.\<close>

definition log_rep ::
  "('c \<Rightarrow> 's \<Rightarrow> 'w \<Rightarrow> bool) \<Rightarrow> ('c \<Rightarrow> 'w \<Rightarrow> (string \<times> bytes) list) \<Rightarrow> ('p, 'e, 'k) store_lib \<Rightarrow>
   ('c, 's, 'k) Store \<Rightarrow> 'w \<Rightarrow> 'e list \<Rightarrow> bool" where
  "log_rep opened entries L st w evs \<longleftrightarrow>
     opened (events st) (states st) w \<and>
     log_entries L (key_box st) (entries (events st) w) evs \<and>
     event_counter st = of_nat (length evs - 1)"

definition snap_rep ::
  "('s \<Rightarrow> 'w \<Rightarrow> bytes option) \<Rightarrow> ('p, 'e, 'k) store_lib \<Rightarrow> ('c, 's, 'k) Store \<Rightarrow> 'w \<Rightarrow> 'p \<times> u64 \<Rightarrow>
   bool" where
  "snap_rep content L st w x \<longleftrightarrow>
     (\<exists>b. content (states st) w = Some b \<and> decode_state L (key_box st) b = Ok x)"

text \<open>The database holds \<open>p\<close>: the snapshot was taken at an event of the log, and replaying the
  events after it gives \<open>p\<close>.\<close>

definition durable ::
  "('c \<Rightarrow> 's \<Rightarrow> 'w \<Rightarrow> bool) \<Rightarrow> ('c \<Rightarrow> 'w \<Rightarrow> (string \<times> bytes) list) \<Rightarrow> ('s \<Rightarrow> 'w \<Rightarrow> bytes option) \<Rightarrow>
   ('p, 'e, 'k) store_lib \<Rightarrow> ('c, 's, 'k) Store \<Rightarrow> 'w \<Rightarrow> 'e list \<Rightarrow> 'p \<Rightarrow> bool" where
  "durable opened entries content L st w evs p \<longleftrightarrow>
     log_rep opened entries L st w evs \<and>
     (\<exists>p0 k. snap_rep content L st w (p0, k) \<and> unat k < length evs \<and>
        apply_all L p0 (drop (Suc (unat k)) evs) = Ok p)"

section \<open>The store over any backend\<close>

context store_backend
begin

lemma log_repD:
  assumes "log_rep opened entries L st w evs"
  shows "cvalid (events st) w" "svalid (states st) w" "bt_ok (entries (events st) w)"
    "log_entries L (key_box st) (entries (events st) w) evs" "length evs \<le> 2 ^ 64"
  using assms opened_valid entries_ok by (auto simp: log_rep_def log_entries_def)

lemma last_event_log:
  assumes "log_rep opened entries L st w evs"
  shows "last_event L C st w = Ok (if evs = [] then None else Some (last evs))"
proof (cases "evs = []")
  case True
  then have "entries (events st) w = []"
    using log_repD(4) [OF assms] log_entries_length by fastforce
  with True show ?thesis by (simp add: last_event_def last_law log_repD [OF assms])
next
  case False
  note l = log_entries_last [OF log_repD(4) [OF assms] False]
  with False show ?thesis
    by (cases "last (entries (events st) w)")
      (simp add: last_event_def last_law log_repD [OF assms])
qed

lemma next_event_number_log:
  assumes "log_rep opened entries L st w evs"
  shows "next_event_number L C st w = Ok (of_nat (length evs))"
proof -
  have ec: "event_counter st = of_nat (length evs - 1)" using assms by (simp add: log_rep_def)
  have "event_counter st = 0 \<longleftrightarrow> length evs \<le> 1"
    unfolding ec by (rule counter_cases [OF log_repD(5) [OF assms]])
  moreover have "event_counter st + 1 = of_nat (length evs)" if "evs \<noteq> []"
    using that ec by (cases evs) simp_all
  ultimately show ?thesis
    by (cases "evs = []") (auto simp: next_event_number_def last_event_log [OF assms])
qed

lemma persist_log:
  assumes rep: "log_rep opened entries L st w evs" and room: "length evs < 2 ^ 64"
    and laws: "lib_laws L" "length nonce = NONCE_SIZE"
    and enc: "encode_event L (key_box st) nonce e = Ok b"
  shows "\<exists>w'. persist L C nonce e (st, w) = (Ok (), st\<lparr>event_counter := of_nat (length evs)\<rparr>, w') \<and>
    log_rep opened entries L (st\<lparr>event_counter := of_nat (length evs)\<rparr>) w' (evs @ [e]) \<and>
    content (states st) w' = content (states st) w"
proof -
  let ?put = "coll_put C (events st) (fmt020 (of_nat (length evs))) b w"
  have op: "opened (events st) (states st) w" using rep by (simp add: log_rep_def)
  have res: "fst ?put = Ok ()" by (simp add: put_result log_repD [OF rep])
  then have "persist L C nonce e (st, w) =
      (Ok (), st\<lparr>event_counter := of_nat (length evs)\<rparr>, snd ?put)"
    by (simp add: persist_def enc next_event_number_log [OF rep] split_beta)
  moreover have "log_rep opened entries L (st\<lparr>event_counter := of_nat (length evs)\<rparr>) (snd ?put) (evs @ [e])"
    using log_entries_append [OF log_repD(4) [OF rep] room decode_encode [OF laws enc]]
    by (simp add: log_rep_def put_opened op put_entries log_repD [OF rep])
  moreover have "content (states st) (snd ?put) = content (states st) w" by (rule put_frame [OF op])
  ultimately show ?thesis by blast
qed

lemma persist_encode_error:
  "encode_event L (key_box st) nonce e = Err x \<Longrightarrow> persist L C nonce e (st, w) = (Err x, st, w)"
  by (simp add: persist_def)

lemma events_loop_log:
  assumes "log_rep opened entries L st w evs" "to < 2 ^ 64"
  shows "events_loop L C st w i to = Ok (take (Suc to - i) (drop i evs))"
  using assms(2)
proof (induction "Suc to - i" arbitrary: i)
  case 0
  then show ?case by (simp add: events_loop.simps)
next
  case (Suc d)
  then have i: "i \<le> to" "i < 2 ^ 64" and d: "Suc to - i = Suc (Suc to - Suc i)" by auto
  have IH: "events_loop L C st w (Suc i) to = Ok (take (Suc to - Suc i) (drop (Suc i) evs))"
    using Suc by (intro Suc.hyps(1)) auto
  note get = log_entries_get [OF log_repD(4,3) [OF assms(1)] i(2)]
  show ?case
  proof (cases "i < length evs")
    case True
    with get obtain b where "map_of (entries (events st) w) (fmt020 (of_nat i)) = Some b"
      "decode_event L (key_box st) b = Ok (evs ! i)" by auto
    with True i show ?thesis
      by (subst events_loop.simps)
        (simp add: get_law log_repD [OF assms(1)] IH d Cons_nth_drop_Suc [symmetric])
  next
    case False
    with get i show ?thesis
      by (subst events_loop.simps) (simp add: get_law log_repD [OF assms(1)])
  qed
qed

lemma events_range_log:
  assumes "log_rep opened entries L st w evs"
  shows "events_range L C st w from to = Ok (take (Suc (unat to) - unat from) (drop (unat from) evs))"
  using assms unat_less_u64 [of to] by (simp add: events_range_def events_loop_log)

lemma get_state_rep:
  assumes "opened (events st) (states st) w"
  shows "snap_rep content L st w x \<Longrightarrow> get_state L S st w = Ok (Some x)"
    and "content (states st) w = None \<Longrightarrow> get_state L S st w = Ok None"
  using opened_valid [OF assms] by (auto simp: get_state_eq snap_rep_def sget_law no_rows_def)

lemma snapshot_rep:
  assumes op: "opened (events st) (states st) w"
    and laws: "lib_laws L" "length nonce = NONCE_SIZE" "box_opens L (key_box st)"
    and enc: "encode_state L (key_box st) nonce (p, event_counter st) = Ok b"
  shows "\<exists>w'. snapshot L S nonce p (st, w) = (Ok (), st\<lparr>state_counter := event_counter st\<rparr>, w') \<and>
    opened (events st) (states st) w' \<and> entries (events st) w' = entries (events st) w \<and>
    snap_rep content L st w' (p, event_counter st)"
proof -
  let ?put = "state_put S (states st) b w"
  have sv: "svalid (states st) w" using opened_valid [OF op] by simp
  have "fst ?put = Ok ()" by (rule sput_result [OF sv])
  then have "snapshot L S nonce p (st, w) = (Ok (), st\<lparr>state_counter := event_counter st\<rparr>, snd ?put)"
    by (simp add: snapshot_eq enc split_beta Let_def)
  moreover have "snap_rep content L st (snd ?put) (p, event_counter st)"
    by (simp add: snap_rep_def sput_content [OF sv] decode_encode_state [OF laws enc])
  ultimately show ?thesis using sput_opened [OF op] sput_frame [OF op] by blast
qed

lemma recover_log:
  assumes rep: "log_rep opened entries L st w evs" and ne: "evs \<noteq> []"
    and snap: "snap_rep content L st w (p, k)"
    and k: "unat k < length evs"
    and app: "apply_all L p (drop (Suc (unat k)) evs) = Ok p'"
    and laws: "lib_laws L" "length nonce = NONCE_SIZE" "box_opens L (key_box st)"
    and enc: "encode_state L (key_box st) nonce (p', event_counter st) = Ok b"
  shows "\<exists>w'. recover L C S nonce (st, w) =
      (Ok (Some p'), st\<lparr>state_counter := event_counter st\<rparr>, w') \<and>
    log_rep opened entries L (st\<lparr>state_counter := event_counter st\<rparr>) w' evs \<and>
    snap_rep content L st w' (p', event_counter st)"
proof -
  let ?n = "event_counter st"
  note D = log_repD [OF rep]
  have n: "?n = of_nat (length evs - 1)" and op: "opened (events st) (states st) w"
    using rep by (auto simp: log_rep_def)
  have un: "unat ?n = length evs - 1" using D(5) ne by (simp add: n)
  note gs = get_state_rep(1) [OF op snap]
  obtain key v where l: "last (entries (events st) w) = (key, v)" by fastforce
  then have key: "key = fmt020 ?n" and ene: "entries (events st) w \<noteq> []"
    using log_entries_last [OF D(4) ne] n by auto
  show ?thesis
  proof (cases "k = ?n")
    case True
    then have "p' = p" using app un ne by simp
    with True gs l key ene have "recover L C S nonce (st, w) =
        (Ok (Some p'), st\<lparr>state_counter := ?n\<rparr>, w)"
      by (simp add: recover_def last_law D Let_def)
    moreover have "log_rep opened entries L (st\<lparr>state_counter := ?n\<rparr>) w evs"
      using rep by (simp add: log_rep_def)
    ultimately show ?thesis using snap True \<open>p' = p\<close> by blast
  next
    case False
    let ?st2 = "st\<lparr>state_counter := k\<rparr>"
    have "unat k \<noteq> unat ?n" using False by (simp add: word_unat_eq_iff)
    with k un have k1: "unat (k + 1) = Suc (unat k)" and le: "Suc (unat k) \<le> unat ?n"
      using unat_less_u64 [of ?n] by (simp_all add: unat_word_ariths)
    have rep2: "log_rep opened entries L ?st2 w evs" using rep by (simp add: log_rep_def)
    have ev: "events_range L C ?st2 w (k + 1) ?n = Ok (drop (Suc (unat k)) evs)"
      using events_range_log [OF rep2, of "k + 1" ?n] un ne k1 by simp
    obtain w' where sn: "snapshot L S nonce p' (?st2, w) =
        (Ok (), ?st2\<lparr>state_counter := ?n\<rparr>, w')"
      and w': "opened (events st) (states st) w'" "entries (events st) w' = entries (events st) w"
        "snap_rep content L ?st2 w' (p', ?n)"
      using snapshot_rep [of ?st2 w L nonce p' b] op laws enc by auto
    have "recover L C S nonce (st, w) = (Ok (Some p'), st\<lparr>state_counter := ?n\<rparr>, w')"
      using gs l key ene False ev app sn by (simp add: recover_def last_law D Let_def)
    moreover have "log_rep opened entries L (st\<lparr>state_counter := ?n\<rparr>) w' evs"
      using rep w' by (simp add: log_rep_def)
    moreover have "snap_rep content L st w' (p', ?n)" using w'(3) by (simp add: snap_rep_def)
    ultimately show ?thesis by blast
  qed
qed

lemma recover_apply_error:
  assumes rep: "log_rep opened entries L st w evs"
    and snap: "snap_rep content L st w (p, k)" and k: "Suc (unat k) < length evs"
    and app: "apply_all L p (drop (Suc (unat k)) evs) = Err x"
  shows "recover L C S nonce (st, w) = (Err x, st\<lparr>state_counter := k\<rparr>, w)"
proof -
  let ?n = "event_counter st" and ?st2 = "st\<lparr>state_counter := k\<rparr>"
  note D = log_repD [OF rep]
  have ne: "evs \<noteq> []" using k by auto
  have n: "?n = of_nat (length evs - 1)" and op: "opened (events st) (states st) w"
    using rep by (auto simp: log_rep_def)
  have un: "unat ?n = length evs - 1" using D(5) ne by (simp add: n)
  note gs = get_state_rep(1) [OF op snap]
  obtain key v where l: "last (entries (events st) w) = (key, v)" by fastforce
  then have key: "key = fmt020 ?n" and ene: "entries (events st) w \<noteq> []"
    using log_entries_last [OF D(4) ne] n by auto
  have neq: "k \<noteq> ?n" using k un by auto
  have k1: "unat (k + 1) = Suc (unat k)" using k D(5) by (simp add: unat_word_ariths)
  have rep2: "log_rep opened entries L ?st2 w evs" using rep by (simp add: log_rep_def)
  have "events_range L C ?st2 w (k + 1) ?n = Ok (drop (Suc (unat k)) evs)"
    using events_range_log [OF rep2, of "k + 1" ?n] un ne k1 by simp
  then show ?thesis
    using gs l key ene neq app by (simp add: recover_def last_law D Let_def)
qed

lemma recover_no_events:
  assumes "log_rep opened entries L st w []" "snap_rep content L st w (p, k)"
  shows "recover L C S nonce (st, w) = (Ok (Some p), st\<lparr>state_counter := k\<rparr>, w)"
proof -
  have "entries (events st) w = []" using log_repD(4) [OF assms(1)] log_entries_length by fastforce
  moreover have "get_state L S st w = Ok (Some (p, k))"
    by (rule get_state_rep(1)) (use assms in \<open>simp_all add: log_rep_def\<close>)
  ultimately show ?thesis
    using log_repD(1) [OF assms(1)] by (simp add: recover_def last_law Let_def)
qed

lemma recover_no_snapshot:
  assumes "opened (events st) (states st) w" "content (states st) w = None"
  shows "recover L C S nonce (st, w) = (Ok None, st, w)"
  by (simp add: recover_def get_state_rep(2) [OF assms])

section \<open>Durability\<close>

lemma apply_all_append:
  "apply_all L p (es @ fs) = and_then (apply_all L p es) (\<lambda>q. apply_all L q fs)"
  by (induction es arbitrary: p) (auto split: prod.split outcome.split)

lemma durable_persist:
  assumes dur: "durable opened entries content L st w evs p" and room: "length evs < 2 ^ 64"
    and laws: "lib_laws L" "length nonce = NONCE_SIZE"
    and enc: "encode_event L (key_box st) nonce e = Ok b"
    and app: "apply_event L p e = (Ok (), p')"
  shows "\<exists>w'. persist L C nonce e (st, w) = (Ok (), st\<lparr>event_counter := of_nat (length evs)\<rparr>, w') \<and>
    durable opened entries content L (st\<lparr>event_counter := of_nat (length evs)\<rparr>) w' (evs @ [e]) p'"
proof -
  have rep: "log_rep opened entries L st w evs" using dur by (simp add: durable_def)
  obtain p0 k where snap: "snap_rep content L st w (p0, k)" and k: "unat k < length evs"
    and all: "apply_all L p0 (drop (Suc (unat k)) evs) = Ok p"
    using dur by (auto simp: durable_def)
  obtain w' where w': "persist L C nonce e (st, w) = (Ok (), st\<lparr>event_counter := of_nat (length evs)\<rparr>, w')"
      "log_rep opened entries L (st\<lparr>event_counter := of_nat (length evs)\<rparr>) w' (evs @ [e])"
      "content (states st) w' = content (states st) w"
    using persist_log [OF rep room laws enc] by blast
  have "apply_all L p0 (drop (Suc (unat k)) (evs @ [e])) = Ok p'"
    using k all app by (simp add: apply_all_append)
  moreover have "snap_rep content L (st\<lparr>event_counter := of_nat (length evs)\<rparr>) w' (p0, k)"
    using snap w'(3) by (simp add: snap_rep_def)
  moreover have "unat k < length (evs @ [e])" using k by simp
  ultimately show ?thesis using w' by (auto simp: durable_def)
qed

lemma durable_snapshot:
  assumes rep: "log_rep opened entries L st w evs" and ne: "evs \<noteq> []"
    and laws: "lib_laws L" "length nonce = NONCE_SIZE" "box_opens L (key_box st)"
    and enc: "encode_state L (key_box st) nonce (p, event_counter st) = Ok b"
  shows "\<exists>w'. snapshot L S nonce p (st, w) = (Ok (), st\<lparr>state_counter := event_counter st\<rparr>, w') \<and>
    durable opened entries content L (st\<lparr>state_counter := event_counter st\<rparr>) w' evs p"
proof -
  have op: "opened (events st) (states st) w" and n: "event_counter st = of_nat (length evs - 1)"
    using rep by (auto simp: log_rep_def)
  have un: "unat (event_counter st) = length evs - 1" using log_repD(5) [OF rep] ne by (simp add: n)
  obtain w' where "snapshot L S nonce p (st, w) = (Ok (), st\<lparr>state_counter := event_counter st\<rparr>, w')"
      "opened (events st) (states st) w'" "entries (events st) w' = entries (events st) w"
      "snap_rep content L st w' (p, event_counter st)"
    using snapshot_rep [OF op laws enc] by blast
  moreover from this rep have "durable opened entries content L (st\<lparr>state_counter := event_counter st\<rparr>) w' evs p"
    using un ne
    by (auto simp: durable_def log_rep_def snap_rep_def intro!: exI [of _ p] exI [of _ "event_counter st"])
  ultimately show ?thesis by blast
qed

lemma recover_durable:
  assumes dur: "durable opened entries content L st w evs p"
    and laws: "lib_laws L" "length nonce = NONCE_SIZE" "box_opens L (key_box st)"
    and enc: "encode_state L (key_box st) nonce (p, event_counter st) = Ok b"
  shows "\<exists>w'. recover L C S nonce (st, w) =
      (Ok (Some p), st\<lparr>state_counter := event_counter st\<rparr>, w') \<and>
    durable opened entries content L (st\<lparr>state_counter := event_counter st\<rparr>) w' evs p"
proof -
  obtain p0 k where rep: "log_rep opened entries L st w evs" and
    snap: "snap_rep content L st w (p0, k)" and k: "unat k < length evs"
    and all: "apply_all L p0 (drop (Suc (unat k)) evs) = Ok p"
    using dur by (auto simp: durable_def)
  have ne: "evs \<noteq> []" using k by auto
  have un: "unat (event_counter st) = length evs - 1"
    using log_repD(5) [OF rep] ne rep by (simp add: log_rep_def)
  obtain w' where w': "recover L C S nonce (st, w) =
        (Ok (Some p), st\<lparr>state_counter := event_counter st\<rparr>, w')"
      "log_rep opened entries L (st\<lparr>state_counter := event_counter st\<rparr>) w' evs"
      "snap_rep content L st w' (p, event_counter st)"
    using recover_log [OF rep ne snap k all laws enc] by blast
  then have "durable opened entries content L (st\<lparr>state_counter := event_counter st\<rparr>) w' evs p"
    using un ne
    by (auto simp: durable_def snap_rep_def intro!: exI [of _ p] exI [of _ "event_counter st"])
  with w' show ?thesis by blast
qed

section \<open>Light persistence, purge, the first event\<close>

text \<open>\<open>persist_state\<close> writes the snapshot and replaces the last event of the log.\<close>

lemma persist_state_log:
  assumes rep: "log_rep opened entries L st w evs"
    and laws: "lib_laws L" "length (fst ns) = NONCE_SIZE" "length (snd ns) = NONCE_SIZE"
      "box_opens L (key_box st)"
    and enc: "encode_event L (key_box st) (fst ns) e = Ok b"
      "encode_state L (key_box st) (snd ns) (p, event_counter st) = Ok sb"
  shows "\<exists>w'. persist_state L C S ns e p (st, w) =
      (Ok (), st\<lparr>state_counter := event_counter st\<rparr>, w') \<and>
    durable opened entries content L (st\<lparr>state_counter := event_counter st\<rparr>) w' (butlast evs @ [e]) p"
proof -
  let ?st' = "st\<lparr>state_counter := event_counter st\<rparr>" and ?n = "event_counter st"
  have op: "opened (events st) (states st) w" and n: "?n = of_nat (length evs - 1)"
    using rep by (auto simp: log_rep_def)
  obtain w1 where sn: "snapshot L S (snd ns) p (st, w) = (Ok (), ?st', w1)"
    and op1: "opened (events st) (states st) w1"
    and en1: "entries (events st) w1 = entries (events st) w"
    and snap: "snap_rep content L st w1 (p, ?n)"
    using snapshot_rep [OF op laws(1,3,4) enc(2)] by blast
  note V = opened_valid [OF op1, THEN conjunct1]
  let ?put = "coll_put C (events st) (fmt020 ?n) b w1"
  have "fst ?put = Ok ()" by (rule put_result [OF V]) simp
  then have res: "persist_state L C S ns e p (st, w) = (Ok (), ?st', snd ?put)"
    by (simp add: persist_state_def enc(1) sn split_beta)
  have len: "length (butlast evs @ [e]) = length evs \<or> evs = []" by auto
  have ents: "log_entries L (key_box st) (bt_insert (fmt020 ?n) b (entries (events st) w))
      (butlast evs @ [e])"
    unfolding n using decode_encode [OF laws(1,2) enc(1)]
    by (rule log_entries_replace [OF log_repD(4,3) [OF rep]])
  have "log_rep opened entries L ?st' (snd ?put) (butlast evs @ [e])"
    using ents put_opened [OF op1] n len V by (auto simp: log_rep_def put_entries en1)
  moreover have "snap_rep content L ?st' (snd ?put) (p, ?n)"
    using snap by (simp add: snap_rep_def put_frame [OF op1])
  moreover have "unat ?n = length (butlast evs @ [e]) - 1"
    using log_repD(5) [OF rep] by (cases "evs = []") (simp_all add: n)
  ultimately show ?thesis
    using res by (auto simp: durable_def intro!: exI [of _ p] exI [of _ ?n])
qed

lemma purge_all:
  assumes op: "opened (events st) (states st) w"
  shows "\<exists>w'. purge C S (st, w) = (Ok (), st, w') \<and> opened (events st) (states st) w' \<and>
    entries (events st) w' = [] \<and> content (states st) w' = None"
proof -
  let ?w1 = "snd (coll_purge C (events st) w)"
  let ?w2 = "snd (state_purge S (states st) ?w1)"
  have V: "cvalid (events st) w" using opened_valid [OF op] by simp
  have op1: "opened (events st) (states st) ?w1" by (rule purge_opened [OF op])
  have V1: "svalid (states st) ?w1" using opened_valid [OF op1] by simp
  have "purge C S (st, w) = (Ok (), st, ?w2)"
    using purge_result [OF V] spurge_result [OF V1] by (simp add: purge_def split_beta Let_def)
  moreover have "entries (events st) ?w2 = []"
    by (simp add: spurge_frame [OF op1] purge_entries [OF V])
  ultimately show ?thesis using spurge_opened [OF op1] spurge_content [OF V1] by blast
qed

text \<open>After a purge the numbering of events goes on where it was.\<close>

lemma persist_at:
  assumes op: "opened (events st) (states st) w" and n: "next_event_number L C st w = Ok n"
    and enc: "encode_event L (key_box st) nonce e = Ok b"
  shows "\<exists>w'. persist L C nonce e (st, w) = (Ok (), st\<lparr>event_counter := n\<rparr>, w') \<and>
    opened (events st) (states st) w' \<and> entries (events st) w' = bt_insert (fmt020 n) b (entries (events st) w)"
proof -
  let ?put = "coll_put C (events st) (fmt020 n) b w"
  have V: "cvalid (events st) w" using opened_valid [OF op] by simp
  have "fst ?put = Ok ()" by (rule put_result [OF V]) simp
  then have "persist L C nonce e (st, w) = (Ok (), st\<lparr>event_counter := n\<rparr>, snd ?put)"
    by (simp add: persist_def enc n split_beta)
  moreover have "opened (events st) (states st) (snd ?put)" by (rule put_opened [OF op]) simp
  ultimately show ?thesis using put_entries [OF V] by (intro exI [of _ "snd ?put"]) simp
qed

lemma persist_numbered:
  assumes op: "opened (events st) (states st) w" and cnt: "event_counter st \<noteq> 0"
    and enc: "encode_event L (key_box st) nonce e = Ok b"
  shows "\<exists>w'. persist L C nonce e (st, w) = (Ok (), st\<lparr>event_counter := event_counter st + 1\<rparr>, w') \<and>
    opened (events st) (states st) w' \<and>
    entries (events st) w' = bt_insert (fmt020 (event_counter st + 1)) b (entries (events st) w)"
  by (rule persist_at [OF op _ enc]) (simp add: next_event_number_def cnt)

lemma persist_after_purge:
  assumes op: "opened (events st) (states st) w" and empty: "entries (events st) w = []"
    and cnt: "event_counter st + 1 \<noteq> 0"
    and enc: "encode_event L (key_box st) nonce e = Ok b" "decode_event L (key_box st) b = Ok e"
  defines "n \<equiv> if event_counter st = 0 then 0 else event_counter st + 1"
  shows "\<exists>w'. persist L C nonce e (st, w) = (Ok (), st\<lparr>event_counter := n\<rparr>, w') \<and>
    events_range L C (st\<lparr>event_counter := n\<rparr>) w' 0 to = Ok (if event_counter st = 0 then [e] else [])"
proof -
  have V: "cvalid (events st) w" using opened_valid [OF op] by simp
  have "next_event_number L C st w = Ok n"
    by (simp add: next_event_number_def n_def last_event_def last_law [OF V] empty)
  then obtain w' where w': "persist L C nonce e (st, w) = (Ok (), st\<lparr>event_counter := n\<rparr>, w')"
    "opened (events st) (states st) w'" "entries (events st) w' = bt_insert (fmt020 n) b (entries (events st) w)"
    using persist_at [OF op _ enc(1)] by blast
  have get: "coll_get C (events st) (fmt020 i) w' = (if i = n then Ok b else Err no_rows)" for i
    using opened_valid [OF w'(2)] by (simp add: get_law w'(3) empty)
  have "events_range L C (st\<lparr>event_counter := n\<rparr>) w' 0 to = Ok (if event_counter st = 0 then [e] else [])"
  proof (cases "event_counter st = 0")
    case True
    then show ?thesis
      using enc(2) get [of 0] get [of 1]
      by (simp add: events_range_def events_loop.simps [of L C _ _ 0] events_loop.simps [of L C _ _ "Suc 0"] n_def)
  next
    case False
    then show ?thesis
      using cnt get [of 0] by (simp add: events_range_def events_loop.simps [of L C _ _ 0] n_def)
  qed
  with w'(1) show ?thesis by blast
qed

text \<open>A snapshot taken before the first event has the counter of that event.\<close>

lemma first_event_skipped:
  assumes rep: "log_rep opened entries L st w []"
    and laws: "lib_laws L" "length n1 = NONCE_SIZE" "length n2 = NONCE_SIZE" "length n3 = NONCE_SIZE"
      "box_opens L (key_box st)"
    and enc: "encode_state L (key_box st) n1 (p, 0) = Ok sb"
      "encode_event L (key_box st) n2 e = Ok b"
  shows "\<exists>st1 w1 st2 w2 st3.
    snapshot L S n1 p (st, w) = (Ok (), st1, w1) \<and>
    persist L C n2 e (st1, w1) = (Ok (), st2, w2) \<and>
    log_rep opened entries L st2 w2 [e] \<and>
    recover L C S n3 (st2, w2) = (Ok (Some p), st3, w2)"
proof -
  have op: "opened (events st) (states st) w" and c0: "event_counter st = 0"
    using rep by (auto simp: log_rep_def)
  obtain w1 where sn: "snapshot L S n1 p (st, w) = (Ok (), st\<lparr>state_counter := 0\<rparr>, w1)"
    and w1: "opened (events st) (states st) w1" "entries (events st) w1 = entries (events st) w"
      "snap_rep content L st w1 (p, 0)"
    using snapshot_rep [OF op laws(1,2,5), of p sb] enc(1) c0 by auto
  let ?st1 = "st\<lparr>state_counter := 0\<rparr>"
  have rep1: "log_rep opened entries L ?st1 w1 []" using rep w1 by (simp add: log_rep_def)
  obtain w2 where p: "persist L C n2 e (?st1, w1) = (Ok (), ?st1\<lparr>event_counter := 0\<rparr>, w2)"
    and rep2: "log_rep opened entries L (?st1\<lparr>event_counter := 0\<rparr>) w2 [e]"
    and c2: "content (states st) w2 = content (states st) w1"
    using persist_log [OF rep1 _ laws(1,3), of e b] enc(2) by auto
  let ?st2 = "?st1\<lparr>event_counter := 0\<rparr>"
  have op2: "opened (events ?st2) (states ?st2) w2" using rep2 by (simp add: log_rep_def)
  have gs: "get_state L S ?st2 w2 = Ok (Some (p, 0))"
    using w1(3) c2 by (intro get_state_rep(1) [OF op2]) (simp add: snap_rep_def)
  obtain key v where l: "last (entries (events st) w2) = (key, v)" by fastforce
  have "key = fmt020 0" "entries (events st) w2 \<noteq> []"
    using log_entries_last [OF log_repD(4) [OF rep2]] l by auto
  then have "recover L C S n3 (?st2, w2) = (Ok (Some p), ?st2, w2)"
    using gs l log_repD(1) [OF rep2] by (simp add: recover_def last_law Let_def)
  with sn p rep2 show ?thesis by blast
qed

end

section \<open>Writes that fail\<close>

context unreliable_backend
begin

lemma same_number: "next_event_number L C st w = next_event_number L C0 st w"
  by (simp add: next_event_number_def last_event_def coll_last_def same_iter)

text \<open>Persisting an event works as over the lawful collection, or fails and leaves the store as it was.\<close>

lemma persist_attempt:
  "persist L C nonce e (st, w) = persist L C0 nonce e (st, w) \<or>
   (\<exists>x. persist L C nonce e (st, w) = (Err x, st, w))"
proof (cases "encode_event L (key_box st) nonce e")
  case (Ok b)
  show ?thesis
  proof (cases "next_event_number L C0 st w")
    case [simp]: (Ok n)
    from try_put [of "events st" "fmt020 n" b w] show ?thesis
      by (auto simp: persist_def \<open>encode_event L (key_box st) nonce e = Ok b\<close> same_number)
  qed (simp_all add: persist_def Ok same_number)
qed (simp_all add: persist_def)

lemma durable_attempt:
  assumes dur: "durable opened entries content L st w evs p" and room: "length evs < 2 ^ 64"
    and laws: "lib_laws L" "length nonce = NONCE_SIZE"
    and enc: "encode_event L (key_box st) nonce e = Ok b"
    and app: "apply_event L p e = (Ok (), p')"
  obtains st' w' where "persist L C nonce e (st, w) = (Ok (), st', w')" "key_box st' = key_box st"
      "durable opened entries content L st' w' (evs @ [e]) p'"
  | x where "persist L C nonce e (st, w) = (Err x, st, w)"
  using persist_attempt [of L nonce e st w] durable_persist [OF dur room laws enc app] by fastforce

text \<open>In light mode the snapshot comes first: when the event cannot be written, the new state has been
  stored already.\<close>

lemma persist_state_attempt:
  assumes rep: "log_rep opened entries L st w evs" and ne: "evs \<noteq> []"
    and laws: "lib_laws L" "length (fst ns) = NONCE_SIZE" "length (snd ns) = NONCE_SIZE" "box_opens L (key_box st)"
    and enc: "encode_event L (key_box st) (fst ns) e = Ok b"
      "encode_state L (key_box st) (snd ns) (p, event_counter st) = Ok sb"
    and same: "state_put S' (states st) = state_put S (states st)"
    and fail: "\<And>w. opened (events st) (states st) w \<Longrightarrow>
      \<exists>x. coll_put C (events st) (fmt020 (event_counter st)) b w = (Err x, w)"
  shows "\<exists>x w'. persist_state L C S' ns e p (st, w) = (Err x, st\<lparr>state_counter := event_counter st\<rparr>, w') \<and>
    durable opened entries content L (st\<lparr>state_counter := event_counter st\<rparr>) w' evs p"
proof -
  obtain w' where w': "snapshot L S (snd ns) p (st, w) = (Ok (), st\<lparr>state_counter := event_counter st\<rparr>, w')"
    "durable opened entries content L (st\<lparr>state_counter := event_counter st\<rparr>) w' evs p"
    using durable_snapshot [OF rep ne laws(1,3,4) enc(2)] by blast
  have "snapshot L S' (snd ns) p (st, w) = snapshot L S (snd ns) p (st, w)"
    by (simp add: snapshot_eq same)
  moreover obtain x where "coll_put C (events st) (fmt020 (event_counter st)) b w' = (Err x, w')"
    using fail [of w'] w'(2) by (auto simp: durable_def log_rep_def)
  ultimately show ?thesis using w' by (simp add: persist_state_def enc(1))
qed

end

section \<open>Opening a store again\<close>

context reopenable_backend
begin

lemma store_new_log:
  assumes op: "opened c s w" and ents: "log_entries L kb (entries c w) evs"
    and box: "case pw of None \<Rightarrow> kb = None | Some key \<Rightarrow> \<exists>k. mem_encrypt L key = Ok k \<and> kb = Some k"
  shows "store_new L C M name pfx pw w =
      (Ok \<lparr>event_counter = of_nat (length evs - 1), state_counter = 0, events = c, states = s,
           key_box = kb\<rparr>, w)"
proof -
  have V: "cvalid c w" using opened_valid [OF op] by simp
  have l: "(case (if entries c w = [] then None else Some (last (entries c w))) of
      Some (key, _) \<Rightarrow> (case parse_u64 key of Ok n \<Rightarrow> n | _ \<Rightarrow> 0) | None \<Rightarrow> 0) =
      (of_nat (length evs - 1) :: u64)"
  proof (cases "evs = []")
    case True
    then have "entries c w = []" using ents log_entries_length by fastforce
    with True show ?thesis by simp
  next
    case False
    obtain key v where lk: "last (entries c w) = (key, v)" by fastforce
    with log_entries_last [OF ents False] show ?thesis by simp
  qed
  show ?thesis
    using box l
    by (cases pw) (auto simp: store_new_def reopen_collection [OF op] reopen_state [OF op] last_law [OF V])
qed

end

end
