(* ===== verification/Persistent_Actor.thy ===== *)
theory Persistent_Actor
  imports Store_Log Handler
begin

text \<open>
  The trait \<open>PersistentActor\<close> (\<open>src/store/src/store.rs\<close>): the methods a persistent actor gets for
  its child \<open>store\<close>. The context holds what these methods reach: the path of the actor, the
  registered child (the store actor and its mailbox), the database world and the number of store
  commands handled so far, which indexes the random nonces \<open>rng\<close>.

  The child serves its mailbox in order (theory \<open>Handler\<close>); the actor is its only client, so an
  \<open>ask\<close> finds in the queue only what the actor told it before. A method returns \<open>None\<close> when it waits
  for ever.
\<close>

datatype PersistenceType = Light | Full

record ('p, 'e, 'k, 'c, 's, 'w) pctx =
  pc_path :: actor_path
  pc_store :: "(('c, 's, 'k) Store \<times> (('p, 'e) StoreCommand, ('p, 'e) StoreResponse) mailbox) option"
  pc_world :: 'w
  pc_rng :: nat

type_synonym ('c, 's, 'k, 'w) store_task = "(('c, 's, 'k) Store \<times> 'w) \<times> nat"

definition store_handler ::
  "('p, 'e, 'k) store_lib \<Rightarrow> ('w, 'c) collection \<Rightarrow> ('w, 's) state_storage \<Rightarrow>
   (nat \<Rightarrow> bytes \<times> bytes) \<Rightarrow>
   (('p, 'e) StoreCommand, ('p, 'e) StoreResponse, ('c, 's, 'k, 'w) store_task) handler" where
  "store_handler L C S rng sender cmd = (\<lambda>(sw, n).
     let (r, sw') = handle_message L C S (rng n) cmd sw in (r, sw', Suc n))"

definition store_path :: "('p, 'e, 'k, 'c, 's, 'w) pctx \<Rightarrow> actor_path" where
  "store_path ctx = path_div (pc_path ctx) ''store''"

definition set_store ::
  "('c, 's, 'k, 'w) store_task \<times> (('p, 'e) StoreCommand, ('p, 'e) StoreResponse) mailbox \<Rightarrow>
   ('p, 'e, 'k, 'c, 's, 'w) pctx \<Rightarrow> ('p, 'e, 'k, 'c, 's, 'w) pctx" where
  "set_store x ctx = (case x of (((st, w), n), mb) \<Rightarrow>
     ctx\<lparr>pc_world := w, pc_rng := n, pc_store := Some (st, mb)\<rparr>)"

text \<open>\<open>store.ask(cmd).await\<close> and \<open>store.tell(cmd).await\<close> on the registered child.\<close>

definition ask_store ::
  "('p, 'e, 'k) store_lib \<Rightarrow> ('w, 'c) collection \<Rightarrow> ('w, 's) state_storage \<Rightarrow>
   (nat \<Rightarrow> bytes \<times> bytes) \<Rightarrow> ('p, 'e) StoreCommand \<Rightarrow>
   ('c, 's, 'k) Store \<times> (('p, 'e) StoreCommand, ('p, 'e) StoreResponse) mailbox \<Rightarrow>
   ('p, 'e, 'k, 'c, 's, 'w) pctx \<Rightarrow>
   (('p, 'e) StoreResponse, actor_error) outcome option \<times> ('p, 'e, 'k, 'c, 's, 'w) pctx" where
  "ask_store L C S rng cmd = (\<lambda>(st, mb) ctx.
     let (r, x) = helper_ask (store_handler L C S rng) (store_path ctx) cmd
                    (((st, pc_world ctx), pc_rng ctx), mb)
     in (r, set_store x ctx))"

definition tell_store ::
  "('p, 'e) StoreCommand \<Rightarrow>
   ('c, 's, 'k) Store \<times> (('p, 'e) StoreCommand, ('p, 'e) StoreResponse) mailbox \<Rightarrow>
   ('p, 'e, 'k, 'c, 's, 'w) pctx \<Rightarrow>
   (unit, actor_error) outcome \<times> ('p, 'e, 'k, 'c, 's, 'w) pctx" where
  "tell_store cmd = (\<lambda>(st, mb) ctx.
     let (r, mb') = helper_tell (store_path ctx) cmd mb
     in (r, ctx\<lparr>pc_store := Some (st, mb')\<rparr>))"

text \<open>\<open>PersistentActor::update\<close>, as the trait defines it.\<close>

definition pa_update :: "'p \<Rightarrow> 'p \<Rightarrow> 'p" where
  "pa_update self state = state"

definition pa_persist ::
  "('p, 'e, 'k) store_lib \<Rightarrow> ('w, 'c) collection \<Rightarrow> ('w, 's) state_storage \<Rightarrow>
   (nat \<Rightarrow> bytes \<times> bytes) \<Rightarrow> PersistenceType \<Rightarrow> 'e \<Rightarrow> 'p \<times> ('p, 'e, 'k, 'c, 's, 'w) pctx \<Rightarrow>
   (unit, actor_error) outcome option \<times> 'p \<times> ('p, 'e, 'k, 'c, 's, 'w) pctx" where
  "pa_persist L C S rng persistence event = (\<lambda>(self, ctx).
     case pc_store ctx of
       None \<Rightarrow> (Some (Err (ActorErr_Store ''Can't get store actor'')), self, ctx)
     | Some store \<Rightarrow>
         (case apply_event L self event of
            (Err e, self') \<Rightarrow> (Some (Err e), pa_update self' self, ctx)
          | (Panic m, self') \<Rightarrow> (Some (Panic m), self', ctx)
          | (Ok _, self') \<Rightarrow>
              (let cmd = (case persistence of
                            Light \<Rightarrow> CmdPersistLight event self'
                          | Full \<Rightarrow> CmdPersist event);
                   (r, ctx') = ask_store L C S rng cmd store ctx
               in (map_option (\<lambda>response.
                     and_then
                       (map_err (\<lambda>e. ActorErr_Store (actor_error_display e)) response)
                       (\<lambda>resp. case resp of
                          RespPersisted \<Rightarrow> Ok ()
                        | RespError err \<Rightarrow> Err (ActorErr_Store (store_error_display err))
                        | _ \<Rightarrow> Err (ActorErr_UnexpectedResponse
                                 (path_from (path_display (pc_path ctx) @ ''/store''))
                                 ''StoreResponse::Persisted''))) r,
                   self', ctx'))))"

definition pa_snapshot ::
  "('p, 'e, 'k) store_lib \<Rightarrow> ('w, 'c) collection \<Rightarrow> ('w, 's) state_storage \<Rightarrow>
   (nat \<Rightarrow> bytes \<times> bytes) \<Rightarrow> 'p \<Rightarrow> ('p, 'e, 'k, 'c, 's, 'w) pctx \<Rightarrow>
   (unit, actor_error) outcome option \<times> ('p, 'e, 'k, 'c, 's, 'w) pctx" where
  "pa_snapshot L C S rng self ctx =
     (case pc_store ctx of
        None \<Rightarrow> (Some (Err (ActorErr_Store ''Can't get store actor'')), ctx)
      | Some store \<Rightarrow>
          (let (r, ctx') = ask_store L C S rng (CmdSnapshot self) store ctx
           in (map_option (\<lambda>response.
                 and_then (map_err (\<lambda>e. ActorErr_Store (actor_error_display e)) response)
                   (\<lambda>_. Ok ())) r, ctx')))"

text \<open>\<open>ctx.create_child("store", store)\<close>: refused when the path is registered; otherwise the new
  child is registered with an empty mailbox (the \<open>pre_start\<close> of \<open>Store\<close> is the default one and
  succeeds).\<close>

definition create_store_child ::
  "('c, 's, 'k) Store \<Rightarrow> ('p, 'e, 'k, 'c, 's, 'w) pctx \<Rightarrow>
   (('c, 's, 'k) Store \<times> (('p, 'e) StoreCommand, ('p, 'e) StoreResponse) mailbox, actor_error) outcome \<times>
   ('p, 'e, 'k, 'c, 's, 'w) pctx" where
  "create_store_child st ctx =
     (if pc_store ctx \<noteq> None then (Err (ActorErr_Exists (store_path ctx)), ctx)
      else (Ok (st, mailbox_new), ctx\<lparr>pc_store := Some (st, mailbox_new)\<rparr>))"

definition pa_start_store ::
  "('p, 'e, 'k) store_lib \<Rightarrow> ('w, 'c) collection \<Rightarrow> ('w, 's) state_storage \<Rightarrow> ('w, 'c, 's) db_manager \<Rightarrow>
   (nat \<Rightarrow> bytes \<times> bytes) \<Rightarrow> string \<Rightarrow> string option \<Rightarrow> bytes option \<Rightarrow>
   'p \<times> ('p, 'e, 'k, 'c, 's, 'w) pctx \<Rightarrow>
   (unit, actor_error) outcome option \<times> 'p \<times> ('p, 'e, 'k, 'c, 's, 'w) pctx" where
  "pa_start_store L C S M rng name pfx password = (\<lambda>(self, ctx).
     let pfx' = (case pfx of Some p \<Rightarrow> p | None \<Rightarrow> path_key (pc_path ctx));
         (new, w) = store_new L C M name pfx' password (pc_world ctx);
         ctx1 = ctx\<lparr>pc_world := w\<rparr>
     in case map_err (\<lambda>e. ActorErr_Store (store_error_display e)) new of
          Err e \<Rightarrow> (Some (Err e), self, ctx1)
        | Panic m \<Rightarrow> (Some (Panic m), self, ctx1)
        | Ok st \<Rightarrow>
            (case create_store_child st ctx1 of
               (Err e, ctx2) \<Rightarrow> (Some (Err e), self, ctx2)
             | (Panic m, ctx2) \<Rightarrow> (Some (Panic m), self, ctx2)
             | (Ok store, ctx2) \<Rightarrow>
                 (case ask_store L C S rng CmdRecover store ctx2 of
                    (None, ctx3) \<Rightarrow> (None, self, ctx3)
                  | (Some (Err e), ctx3) \<Rightarrow> (Some (Err e), self, ctx3)
                  | (Some (Panic m), ctx3) \<Rightarrow> (Some (Panic m), self, ctx3)
                  | (Some (Ok response), ctx3) \<Rightarrow>
                      (case response of
                         RespState (Some state) \<Rightarrow> (Some (Ok ()), pa_update self state, ctx3)
                       | _ \<Rightarrow>
                           (case pc_store ctx3 of
                              None \<Rightarrow> (Some (Err channel_closed), self, ctx3)
                            | Some store3 \<Rightarrow>
                                (let (r, ctx4) = tell_store (CmdSnapshot self) store3 ctx3
                                 in (Some r, self, ctx4)))))))"

text \<open>\<open>store.ask_stop().await\<close>. The child takes its stop request before, between or after the
  messages still queued: \<open>served\<close> of them are handled first. Then it leaves the registry and its
  mailbox is dropped. A child that is already gone (its stop channel is closed) counts as stopped.\<close>

definition stop_child ::
  "('p, 'e, 'k) store_lib \<Rightarrow> ('w, 'c) collection \<Rightarrow> ('w, 's) state_storage \<Rightarrow>
   (nat \<Rightarrow> bytes \<times> bytes) \<Rightarrow> nat \<Rightarrow>
   ('c, 's, 'k) Store \<times> (('p, 'e) StoreCommand, ('p, 'e) StoreResponse) mailbox \<Rightarrow>
   ('p, 'e, 'k, 'c, 's, 'w) pctx \<Rightarrow>
   (unit, actor_error) outcome \<times> ('p, 'e, 'k, 'c, 's, 'w) pctx" where
  "stop_child L C S rng served = (\<lambda>(st, mb) ctx.
     if mb_closed mb then (Ok (), ctx)
     else let x = ((deliver (store_handler L C S rng)) ^^ served) (((st, pc_world ctx), pc_rng ctx), mb);
              ctx' = set_store x ctx
          in if mb_closed (snd x) then (Err channel_closed, ctx')
             else (Ok (), ctx'\<lparr>pc_store := None\<rparr>))"

definition pa_stop_store ::
  "('p, 'e, 'k) store_lib \<Rightarrow> ('w, 'c) collection \<Rightarrow> ('w, 's) state_storage \<Rightarrow>
   (nat \<Rightarrow> bytes \<times> bytes) \<Rightarrow> nat \<Rightarrow> PersistenceType \<Rightarrow> 'p \<Rightarrow> ('p, 'e, 'k, 'c, 's, 'w) pctx \<Rightarrow>
   (unit, actor_error) outcome option \<times> ('p, 'e, 'k, 'c, 's, 'w) pctx" where
  "pa_stop_store L C S rng served persistence self ctx =
     (case pc_store ctx of
        None \<Rightarrow> (Some (Err (ActorErr_Store ''Can't get store'')), ctx)
      | Some store \<Rightarrow>
          (case persistence of
             Light \<Rightarrow> (let (r, ctx') = stop_child L C S rng served store ctx in (Some r, ctx'))
           | Full \<Rightarrow>
               (case ask_store L C S rng (CmdSnapshot self) store ctx of
                  (None, ctx1) \<Rightarrow> (None, ctx1)
                | (Some (Err e), ctx1) \<Rightarrow> (Some (Err e), ctx1)
                | (Some (Panic m), ctx1) \<Rightarrow> (Some (Panic m), ctx1)
                | (Some (Ok _), ctx1) \<Rightarrow>
                    (case pc_store ctx1 of
                       None \<Rightarrow> (Some (Ok ()), ctx1)
                     | Some store1 \<Rightarrow>
                         (let (r, ctx2) = stop_child L C S rng served store1 ctx1
                          in (Some r, ctx2))))))"

text \<open>A client that persists events one after the other and stops at the first failure.\<close>

fun pa_persist_all ::
  "('p, 'e, 'k) store_lib \<Rightarrow> ('w, 'c) collection \<Rightarrow> ('w, 's) state_storage \<Rightarrow>
   (nat \<Rightarrow> bytes \<times> bytes) \<Rightarrow> PersistenceType \<Rightarrow> 'e list \<Rightarrow> 'p \<times> ('p, 'e, 'k, 'c, 's, 'w) pctx \<Rightarrow>
   (unit, actor_error) outcome option \<times> 'p \<times> ('p, 'e, 'k, 'c, 's, 'w) pctx" where
  "pa_persist_all L C S rng persistence [] x = (Some (Ok ()), x)"
| "pa_persist_all L C S rng persistence (e # es) x =
     (case pa_persist L C S rng persistence e x of
        (Some (Ok _), y) \<Rightarrow> pa_persist_all L C S rng persistence es y
      | z \<Rightarrow> z)"

section \<open>Asking the child\<close>

definition rng_ok :: "(nat \<Rightarrow> bytes \<times> bytes) \<Rightarrow> bool" where
  "rng_ok rng \<longleftrightarrow> (\<forall>n. length (fst (rng n)) = NONCE_SIZE \<and> length (snd (rng n)) = NONCE_SIZE)"

text \<open>Serialisation and encryption succeed.\<close>

definition encodes :: "('p, 'e, 'k) store_lib \<Rightarrow> 'k option \<Rightarrow> bool" where
  "encodes L kb \<longleftrightarrow>
     (\<forall>nonce e. \<exists>b. encode_event L kb nonce e = Ok b) \<and>
     (\<forall>nonce x. \<exists>b. encode_state L kb nonce x = Ok b)"

definition idle :: "('m, 'r) mailbox \<Rightarrow> bool" where
  "idle mb \<longleftrightarrow> \<not> mb_closed mb \<and> mb_queue mb = []"

definition client_ok :: "('p, 'e, 'k) store_lib \<Rightarrow> 'k option \<Rightarrow> (nat \<Rightarrow> bytes \<times> bytes) \<Rightarrow> bool" where
  "client_ok L kb rng \<longleftrightarrow> lib_laws L \<and> box_opens L kb \<and> rng_ok rng \<and> encodes L kb"

lemma client_okD:
  assumes "client_ok L kb rng"
  shows "lib_laws L" "box_opens L kb" "length (fst (rng n)) = NONCE_SIZE"
    "length (snd (rng n)) = NONCE_SIZE" "\<exists>b. encode_event L kb nonce e = Ok b"
    "\<exists>b. encode_state L kb nonce x = Ok b"
  using assms unfolding client_ok_def rng_ok_def encodes_def by blast+

lemma ask_store_idle:
  assumes "idle mb" "handle_message L C S (rng (pc_rng ctx)) cmd (st, pc_world ctx) = (r, st', w')"
    "\<not> panics r"
  shows "\<exists>mb'. ask_store L C S rng cmd (st, mb) ctx =
      (Some r, ctx\<lparr>pc_world := w', pc_rng := Suc (pc_rng ctx), pc_store := Some (st', mb')\<rparr>) \<and> idle mb'"
proof -
  let ?h = "store_handler L C S rng" and ?a = "((st, pc_world ctx), pc_rng ctx)"
  have h: "?h p cmd ?a = (r, (st', w'), Suc (pc_rng ctx))" for p
    using assms(2) by (simp add: store_handler_def)
  have "\<exists>mb'. helper_ask ?h (store_path ctx) cmd (?a, mb) =
      (Some r, ((st', w'), Suc (pc_rng ctx)), mb') \<and> mb_queue mb' = [] \<and> \<not> mb_closed mb'"
    using assms(1,3) h
    by (intro helper_ask_reply) (simp_all add: idle_def no_panic_Cons ActorMessage_new_def)
  then show ?thesis by (auto simp: ask_store_def set_store_def idle_def)
qed

text \<open>An \<open>ask\<close> behind one told message.\<close>

lemma ask_store_behind:
  assumes "\<not> mb_closed mb" "mb_queue mb = [ActorMessage_new cmd0 p None]"
    "handle_message L C S (rng (pc_rng ctx)) cmd0 (st, pc_world ctx) = (r0, st0, w0)" "\<not> panics r0"
    "handle_message L C S (rng (Suc (pc_rng ctx))) cmd (st0, w0) = (r, st', w')" "\<not> panics r"
  shows "\<exists>mb'. ask_store L C S rng cmd (st, mb) ctx =
      (Some r, ctx\<lparr>pc_world := w', pc_rng := Suc (Suc (pc_rng ctx)), pc_store := Some (st', mb')\<rparr>) \<and>
      idle mb'"
proof -
  let ?h = "store_handler L C S rng" and ?a = "((st, pc_world ctx), pc_rng ctx)"
  have h: "?h q cmd0 ?a = (r0, (st0, w0), Suc (pc_rng ctx))"
    "?h q cmd ((st0, w0), Suc (pc_rng ctx)) = (r, (st', w'), Suc (Suc (pc_rng ctx)))" for q
    using assms(3,5) by (simp_all add: store_handler_def)
  have "\<exists>mb'. helper_ask ?h (store_path ctx) cmd (?a, mb) =
      (Some r, ((st', w'), Suc (Suc (pc_rng ctx))), mb') \<and> mb_queue mb' = [] \<and> \<not> mb_closed mb'"
    using assms h
    by (intro helper_ask_reply)
      (simp_all add: no_panic_Cons ActorMessage_new_def run_handler_def)
  then show ?thesis by (auto simp: ask_store_def set_store_def idle_def)
qed

text \<open>In full mode the result of \<open>persist\<close> is the result of the store's \<open>persist\<close>.\<close>

lemma pa_persist_full_eq:
  assumes "pc_store ctx = Some (st, mb)" "idle mb" "apply_event L p e = (Ok (), p')"
    and per: "persist L C (fst (rng (pc_rng ctx))) e (st, pc_world ctx) = (r, st', w')" and "\<not> panics r"
  shows "\<exists>mb'. pa_persist L C S rng Full e (p, ctx) =
      (Some (map_err (\<lambda>x. ActorErr_Store (store_error_display x)) r), p',
       ctx\<lparr>pc_world := w', pc_rng := Suc (pc_rng ctx), pc_store := Some (st', mb')\<rparr>) \<and> idle mb'"
proof -
  let ?r = "case r of Ok _ \<Rightarrow> Ok RespPersisted | Err x \<Rightarrow> Ok (RespError x) | Panic m \<Rightarrow> Panic m"
  have "handle_message L C S (rng (pc_rng ctx)) (CmdPersist e) (st, pc_world ctx) = (?r, st', w')"
    using per by (simp add: respond_def)
  from ask_store_idle [where rng = rng and ctx = ctx, OF assms(2) this] assms show ?thesis
    by (cases r) (auto simp: pa_persist_def)
qed

section \<open>Durability of the actor's state\<close>

text \<open>The child is idle and the database holds \<open>p\<close> (theory \<open>Store_Log\<close>).\<close>

definition pa_durable ::
  "('c \<Rightarrow> 's \<Rightarrow> 'w \<Rightarrow> bool) \<Rightarrow> ('c \<Rightarrow> 'w \<Rightarrow> (string \<times> bytes) list) \<Rightarrow> ('s \<Rightarrow> 'w \<Rightarrow> bytes option) \<Rightarrow>
   ('p, 'e, 'k) store_lib \<Rightarrow> 'k option \<Rightarrow> ('p, 'e, 'k, 'c, 's, 'w) pctx \<Rightarrow> 'e list \<Rightarrow> 'p \<Rightarrow> bool" where
  "pa_durable opened entries content L kb ctx evs p \<longleftrightarrow>
     (\<exists>st mb. pc_store ctx = Some (st, mb) \<and> idle mb \<and> key_box st = kb \<and>
        durable opened entries content L st (pc_world ctx) evs p)"

context store_backend
begin

lemma pa_persist_full:
  assumes dur: "pa_durable opened entries content L kb ctx evs p" and room: "length evs < 2 ^ 64"
    and ok: "client_ok L kb rng" and app: "apply_event L p e = (Ok (), p')"
  shows "\<exists>ctx'. pa_persist L C S rng Full e (p, ctx) = (Some (Ok ()), p', ctx') \<and>
    pa_durable opened entries content L kb ctx' (evs @ [e]) p' \<and> pc_path ctx' = pc_path ctx"
proof -
  obtain st mb where st: "pc_store ctx = Some (st, mb)" "idle mb" "key_box st = kb"
    and d: "durable opened entries content L st (pc_world ctx) evs p"
    using dur by (auto simp: pa_durable_def)
  let ?nonce = "fst (rng (pc_rng ctx))"
  obtain b where b: "encode_event L (key_box st) ?nonce e = Ok b" using client_okD(5) [OF ok] st by blast
  obtain w' where w': "persist L C ?nonce e (st, pc_world ctx) = (Ok (), st\<lparr>event_counter := of_nat (length evs)\<rparr>, w')"
    "durable opened entries content L (st\<lparr>event_counter := of_nat (length evs)\<rparr>) w' (evs @ [e]) p'"
    using durable_persist [OF d room client_okD(1,3) [OF ok] b app] by blast
  from pa_persist_full_eq [where rng = rng and ctx = ctx, OF st(1,2) app w'(1)] st w'(2) show ?thesis
    by (fastforce simp: pa_durable_def)
qed

lemma pa_persist_all_full:
  assumes "pa_durable opened entries content L kb ctx evs p" "length evs + length es < 2 ^ 64"
    "client_ok L kb rng" "apply_all L p es = Ok p'"
  shows "\<exists>ctx'. pa_persist_all L C S rng Full es (p, ctx) = (Some (Ok ()), p', ctx') \<and>
    pa_durable opened entries content L kb ctx' (evs @ es) p' \<and> pc_path ctx' = pc_path ctx"
  using assms
proof (induction es arbitrary: ctx evs p)
  case (Cons e es)
  from Cons.prems(4) obtain q where q: "apply_event L p e = (Ok (), q)" "apply_all L q es = Ok p'"
    by (auto split: prod.splits outcome.splits)
  obtain ctx1 where ctx1: "pa_persist L C S rng Full e (p, ctx) = (Some (Ok ()), q, ctx1)"
    "pa_durable opened entries content L kb ctx1 (evs @ [e]) q" "pc_path ctx1 = pc_path ctx"
    using pa_persist_full [OF Cons.prems(1) _ Cons.prems(3) q(1)] Cons.prems(2) by auto
  from Cons.IH [OF ctx1(2) _ Cons.prems(3) q(2)] Cons.prems(2) ctx1 show ?case by auto
qed auto

lemma pa_persist_light:
  assumes child: "pc_store ctx = Some (st, mb)" "idle mb"
    and rep: "log_rep opened entries L st (pc_world ctx) evs"
    and ok: "client_ok L (key_box st) rng" and app: "apply_event L p e = (Ok (), p')"
  shows "\<exists>ctx'. pa_persist L C S rng Light e (p, ctx) = (Some (Ok ()), p', ctx') \<and>
    pa_durable opened entries content L (key_box st) ctx' (butlast evs @ [e]) p'"
proof -
  let ?ns = "rng (pc_rng ctx)" and ?st' = "st\<lparr>state_counter := event_counter st\<rparr>"
  obtain b sb where enc: "encode_event L (key_box st) (fst ?ns) e = Ok b"
    "encode_state L (key_box st) (snd ?ns) (p', event_counter st) = Ok sb"
    using client_okD(5,6) [OF ok] by blast
  obtain w' where w': "persist_state L C S ?ns e p' (st, pc_world ctx) = (Ok (), ?st', w')"
    "durable opened entries content L ?st' w' (butlast evs @ [e]) p'"
    using persist_state_log [OF rep client_okD(1) [OF ok] client_okD(3,4) [OF ok]
      client_okD(2) [OF ok] enc] by blast
  have "handle_message L C S ?ns (CmdPersistLight e p') (st, pc_world ctx) = (Ok RespPersisted, ?st', w')"
    using w'(1) by (simp add: respond_def)
  from ask_store_idle [where rng = rng and ctx = ctx, OF child(2) this] obtain mb' where
    "ask_store L C S rng (CmdPersistLight e p') (st, mb) ctx = (Some (Ok RespPersisted),
      ctx\<lparr>pc_world := w', pc_rng := Suc (pc_rng ctx), pc_store := Some (?st', mb')\<rparr>)" "idle mb'" by auto
  then show ?thesis using child w'(2) app by (simp add: pa_persist_def pa_durable_def)
qed

lemma pa_snapshot_durable:
  assumes child: "pc_store ctx = Some (st, mb)" "idle mb"
    and rep: "log_rep opened entries L st (pc_world ctx) evs" "evs \<noteq> []"
    and ok: "client_ok L (key_box st) rng"
  shows "\<exists>ctx'. pa_snapshot L C S rng p ctx = (Some (Ok ()), ctx') \<and>
    pa_durable opened entries content L (key_box st) ctx' evs p"
proof -
  let ?ns = "rng (pc_rng ctx)" and ?st' = "st\<lparr>state_counter := event_counter st\<rparr>"
  obtain sb where enc: "encode_state L (key_box st) (fst ?ns) (p, event_counter st) = Ok sb"
    using client_okD(6) [OF ok] by blast
  obtain w' where w': "snapshot L S (fst ?ns) p (st, pc_world ctx) = (Ok (), ?st', w')"
    "durable opened entries content L ?st' w' evs p"
    using durable_snapshot [OF rep client_okD(1,3,2) [OF ok] enc] by blast
  have "handle_message L C S ?ns (CmdSnapshot p) (st, pc_world ctx) = (Ok RespSnapshotted, ?st', w')"
    using w'(1) by (simp add: respond_def)
  from ask_store_idle [where rng = rng and ctx = ctx, OF child(2) this] obtain mb' where
    "ask_store L C S rng (CmdSnapshot p) (st, mb) ctx = (Some (Ok RespSnapshotted),
      ctx\<lparr>pc_world := w', pc_rng := Suc (pc_rng ctx), pc_store := Some (?st', mb')\<rparr>)" "idle mb'" by auto
  then show ?thesis using child w'(2) by (simp add: pa_snapshot_def pa_durable_def)
qed

end

section \<open>Starting and stopping the child\<close>

lemma pa_start_eq:
  assumes "pc_store ctx = None"
    "store_new L C M name (case pf of Some p \<Rightarrow> p | None \<Rightarrow> path_key (pc_path ctx)) pw (pc_world ctx) = (Ok st, w1)"
    "recover L C S (fst (rng (pc_rng ctx))) (st, w1) = (r, st2, w2)"
  shows "r = Ok (Some p) \<Longrightarrow> \<exists>mb. idle mb \<and> pa_start_store L C S M rng name pf pw (self, ctx) =
      (Some (Ok ()), p, ctx\<lparr>pc_world := w2, pc_rng := Suc (pc_rng ctx), pc_store := Some (st2, mb)\<rparr>)"
    and "r = Ok None \<or> r = Err x \<Longrightarrow> \<exists>mb. \<not> mb_closed mb \<and>
      mb_queue mb = [ActorMessage_new (CmdSnapshot self) (store_path ctx) None] \<and>
      pa_start_store L C S M rng name pf pw (self, ctx) =
      (Some (Ok ()), self, ctx\<lparr>pc_world := w2, pc_rng := Suc (pc_rng ctx), pc_store := Some (st2, mb)\<rparr>)"
proof -
  let ?ctx = "ctx\<lparr>pc_world := w1, pc_store := Some (st, mailbox_new)\<rparr>"
  have h: "handle_message L C S (rng (pc_rng ?ctx)) CmdRecover (st, pc_world ?ctx) =
      (case r of Ok a \<Rightarrow> Ok (RespState a) | Err e \<Rightarrow> Ok (RespError e) | Panic m \<Rightarrow> Panic m, st2, w2)"
    using assms(3) by (simp add: respond_def)
  have new: "idle (mailbox_new :: ('x, 'y) mailbox)" by (simp add: idle_def mailbox_new_def)
  note ask = ask_store_idle [where rng = rng and ctx = ?ctx, OF new h]
  have start: "pa_start_store L C S M rng name pf pw (self, ctx) =
    (case ask_store L C S rng CmdRecover (st, mailbox_new) ?ctx of
       (None, ctx3) \<Rightarrow> (None, self, ctx3)
     | (Some (Err e), ctx3) \<Rightarrow> (Some (Err e), self, ctx3)
     | (Some (Panic m), ctx3) \<Rightarrow> (Some (Panic m), self, ctx3)
     | (Some (Ok response), ctx3) \<Rightarrow>
         (case response of
            RespState (Some state) \<Rightarrow> (Some (Ok ()), pa_update self state, ctx3)
          | _ \<Rightarrow>
              (case pc_store ctx3 of
                 None \<Rightarrow> (Some (Err channel_closed), self, ctx3)
               | Some store3 \<Rightarrow>
                   (let (r, ctx4) = tell_store (CmdSnapshot self) store3 ctx3 in (Some r, self, ctx4)))))"
    using assms(1,2) by (simp add: pa_start_store_def create_store_child_def Let_def)
  show "r = Ok (Some p) \<Longrightarrow> \<exists>mb. idle mb \<and> pa_start_store L C S M rng name pf pw (self, ctx) =
      (Some (Ok ()), p, ctx\<lparr>pc_world := w2, pc_rng := Suc (pc_rng ctx), pc_store := Some (st2, mb)\<rparr>)"
    using ask start by (auto simp: pa_update_def)
  assume r: "r = Ok None \<or> r = Err x"
  then obtain resp mb' where a: "ask_store L C S rng CmdRecover (st, mailbox_new) ?ctx =
      (Some (Ok resp), ctx\<lparr>pc_world := w2, pc_rng := Suc (pc_rng ctx), pc_store := Some (st2, mb')\<rparr>)"
    and resp: "resp = RespState None \<or> resp = RespError x" and mb': "idle mb'"
    using ask by auto
  let ?mb = "mb'\<lparr>mb_queue := [ActorMessage_new (CmdSnapshot self) (store_path ctx) None]\<rparr>"
  have "pa_start_store L C S M rng name pf pw (self, ctx) =
      (Some (Ok ()), self, ctx\<lparr>pc_world := w2, pc_rng := Suc (pc_rng ctx), pc_store := Some (st2, ?mb)\<rparr>)"
    using start a resp mb' by (auto simp: tell_store_def helper_tell_def idle_def store_path_def)
  then show "\<exists>mb. \<not> mb_closed mb \<and>
      mb_queue mb = [ActorMessage_new (CmdSnapshot self) (store_path ctx) None] \<and>
      pa_start_store L C S M rng name pf pw (self, ctx) =
      (Some (Ok ()), self, ctx\<lparr>pc_world := w2, pc_rng := Suc (pc_rng ctx), pc_store := Some (st2, mb)\<rparr>)"
    using mb' by (intro exI [of _ ?mb]) (simp add: idle_def)
qed

text \<open>The password gives the key box \<open>kb\<close>.\<close>

definition password_box :: "('p, 'e, 'k) store_lib \<Rightarrow> bytes option \<Rightarrow> 'k option \<Rightarrow> bool" where
  "password_box L pw kb \<longleftrightarrow>
     (case pw of None \<Rightarrow> kb = None | Some key \<Rightarrow> \<exists>k. mem_encrypt L key = Ok k \<and> kb = Some k)"

context reopenable_backend
begin

lemma store_new_durable:
  assumes "durable opened entries content L st w evs p" "password_box L pw (key_box st)"
  shows "\<exists>st'. store_new L C M name pfx pw w = (Ok st', w) \<and> key_box st' = key_box st \<and>
    events st' = events st \<and> states st' = states st \<and> event_counter st' = event_counter st \<and>
    durable opened entries content L st' w evs p"
proof -
  have rep: "opened (events st) (states st) w" "log_entries L (key_box st) (entries (events st) w) evs"
    "event_counter st = of_nat (length evs - 1)"
    using assms(1) by (auto simp: durable_def log_rep_def)
  note new = store_new_log [OF rep(1,2), of pw]
  show ?thesis
    using new assms rep(3) by (auto simp: password_box_def durable_def log_rep_def snap_rep_def)
qed

lemma pa_start_recovers:
  assumes none: "pc_store ctx = None"
    and pfx: "(case pf of Some p \<Rightarrow> p | None \<Rightarrow> path_key (pc_path ctx)) = pfx"
    and dur: "durable opened entries content L st (pc_world ctx) evs p"
    and box: "password_box L pw (key_box st)" and ok: "client_ok L (key_box st) rng"
  shows "\<exists>ctx'. pa_start_store L C S M rng name pf pw (self, ctx) = (Some (Ok ()), p, ctx') \<and>
    pa_durable opened entries content L (key_box st) ctx' evs p"
proof -
  obtain st' where st': "store_new L C M name pfx pw (pc_world ctx) = (Ok st', pc_world ctx)"
    "key_box st' = key_box st" and dur': "durable opened entries content L st' (pc_world ctx) evs p"
    using store_new_durable [OF dur box] by blast
  let ?nonce = "fst (rng (pc_rng ctx))"
  obtain b where b: "encode_state L (key_box st') ?nonce (p, event_counter st') = Ok b"
    using client_okD(6) [OF ok] unfolding st'(2) by blast
  obtain w' where w': "recover L C S ?nonce (st', pc_world ctx) =
      (Ok (Some p), st'\<lparr>state_counter := event_counter st'\<rparr>, w')"
    "durable opened entries content L (st'\<lparr>state_counter := event_counter st'\<rparr>) w' evs p"
    using recover_durable [OF dur' client_okD(1,3) [OF ok] _ b] client_okD(2) [OF ok] st' by auto
  from pa_start_eq(1) [where rng = rng, OF none _ w'(1)] st' pfx w'(2) show ?thesis
    by (fastforce simp: pa_durable_def)
qed

text \<open>Events persisted, the process gone, the actor started again over the same database.\<close>

lemma pa_crash_restart:
  assumes dur: "pa_durable opened entries content L kb ctx evs p"
    and room: "length evs + length es < 2 ^ 64" and ok: "client_ok L kb rng"
    and app: "apply_all L p es = Ok p'" and box: "password_box L pw kb"
    and pfx: "(case pf of Some p \<Rightarrow> p | None \<Rightarrow> path_key (pc_path ctx)) = pfx"
  shows "\<exists>ctx1 ctx2. pa_persist_all L C S rng Full es (p, ctx) = (Some (Ok ()), p', ctx1) \<and>
    pa_start_store L C S M rng name pf pw (self, ctx1\<lparr>pc_store := None\<rparr>) = (Some (Ok ()), p', ctx2) \<and>
    pa_durable opened entries content L kb ctx2 (evs @ es) p'"
proof -
  obtain ctx1 where ctx1: "pa_persist_all L C S rng Full es (p, ctx) = (Some (Ok ()), p', ctx1)"
    "pa_durable opened entries content L kb ctx1 (evs @ es) p'" "pc_path ctx1 = pc_path ctx"
    using pa_persist_all_full [OF dur room ok app] by blast
  then obtain st where st: "key_box st = kb"
    "durable opened entries content L st (pc_world ctx1) (evs @ es) p'"
    by (auto simp: pa_durable_def)
  let ?ctx = "ctx1\<lparr>pc_store := None\<rparr>"
  have pfx': "(case pf of Some p \<Rightarrow> p | None \<Rightarrow> path_key (pc_path ?ctx)) = pfx"
    using pfx ctx1(3) by (simp split: option.splits)
  have "\<exists>ctx2. pa_start_store L C S M rng name pf pw (self, ?ctx) = (Some (Ok ()), p', ctx2) \<and>
      pa_durable opened entries content L (key_box st) ctx2 (evs @ es) p'"
    by (rule pa_start_recovers [OF _ pfx']) (use st box ok in simp_all)
  with ctx1(1) st(1) show ?thesis by blast
qed

text \<open>A stop under full persistence snapshots the state; whatever was in memory comes back.\<close>

lemma pa_stop_full:
  assumes child: "pc_store ctx = Some (st, mb)" "idle mb"
    and rep: "log_rep opened entries L st (pc_world ctx) evs" "evs \<noteq> []"
    and ok: "client_ok L (key_box st) rng"
  shows "\<exists>ctx'. pa_stop_store L C S rng 0 Full p ctx = (Some (Ok ()), ctx') \<and> pc_store ctx' = None \<and>
    pc_path ctx' = pc_path ctx \<and>
    (\<exists>st'. key_box st' = key_box st \<and> durable opened entries content L st' (pc_world ctx') evs p)"
proof -
  let ?ns = "rng (pc_rng ctx)" and ?st' = "st\<lparr>state_counter := event_counter st\<rparr>"
  obtain sb where enc: "encode_state L (key_box st) (fst ?ns) (p, event_counter st) = Ok sb"
    using client_okD(6) [OF ok] by blast
  obtain w' where w': "snapshot L S (fst ?ns) p (st, pc_world ctx) = (Ok (), ?st', w')"
    "durable opened entries content L ?st' w' evs p"
    using durable_snapshot [OF rep client_okD(1,3,2) [OF ok] enc] by blast
  have "handle_message L C S ?ns (CmdSnapshot p) (st, pc_world ctx) = (Ok RespSnapshotted, ?st', w')"
    using w'(1) by (simp add: respond_def)
  from ask_store_idle [where rng = rng and ctx = ctx, OF child(2) this] obtain mb' where
    "ask_store L C S rng (CmdSnapshot p) (st, mb) ctx = (Some (Ok RespSnapshotted),
      ctx\<lparr>pc_world := w', pc_rng := Suc (pc_rng ctx), pc_store := Some (?st', mb')\<rparr>)" "idle mb'" by auto
  then show ?thesis
    using child w'(2)
    by (auto simp: pa_stop_store_def stop_child_def set_store_def idle_def intro!: exI [of _ ?st'])
qed

text \<open>A recovery that fails is taken for an empty database: the actor starts with its initial state
  and the next command finds the old snapshot replaced by that state.\<close>

lemma pa_failed_recovery_overwrites:
  assumes none: "pc_store ctx = None"
    and pfx: "(case pf of Some p \<Rightarrow> p | None \<Rightarrow> path_key (pc_path ctx)) = pfx"
    and rep: "log_rep opened entries L st (pc_world ctx) evs"
    and snap: "snap_rep content L st (pc_world ctx) (p, k)" and k: "Suc (unat k) < length evs"
    and app: "apply_all L p (drop (Suc (unat k)) evs) = Err x"
    and box: "password_box L pw (key_box st)" and ok: "client_ok L (key_box st) rng"
  shows "\<exists>ctx1 st1 mb1 ctx2 n. pa_start_store L C S M rng name pf pw (self, ctx) = (Some (Ok ()), self, ctx1) \<and>
    pc_store ctx1 = Some (st1, mb1) \<and>
    ask_store L C S rng CmdLastEventNumber (st1, mb1) ctx1 = (Some (Ok (RespLastEventNumber n)), ctx2) \<and>
    snap_rep content L st1 (pc_world ctx2) (self, n)"
proof -
  have op: "opened (events st) (states st) (pc_world ctx)"
    and le: "log_entries L (key_box st) (entries (events st) (pc_world ctx)) evs"
    and ec: "event_counter st = of_nat (length evs - 1)"
    using rep by (auto simp: log_rep_def)
  let ?st = "st\<lparr>state_counter := 0\<rparr>" and ?st1 = "st\<lparr>state_counter := k\<rparr>"
  have new: "store_new L C M name pfx pw (pc_world ctx) = (Ok ?st, pc_world ctx)"
    using store_new_log [OF op le, of pw] box ec by (simp add: password_box_def)
  have rec: "recover L C S (fst (rng (pc_rng ctx))) (?st, pc_world ctx) = (Err x, ?st1, pc_world ctx)"
    using recover_apply_error [of L ?st "pc_world ctx" evs p k x] rep snap k app
    by (simp add: log_rep_def snap_rep_def)
  obtain mb1 where mb1: "\<not> mb_closed mb1"
      "mb_queue mb1 = [ActorMessage_new (CmdSnapshot self) (store_path ctx) None]"
    and start: "pa_start_store L C S M rng name pf pw (self, ctx) =
      (Some (Ok ()), self, ctx\<lparr>pc_world := pc_world ctx, pc_rng := Suc (pc_rng ctx), pc_store := Some (?st1, mb1)\<rparr>)"
    using pa_start_eq(2) [where rng = rng and self = self, OF none _ rec] new pfx by blast
  let ?ctx1 = "ctx\<lparr>pc_world := pc_world ctx, pc_rng := Suc (pc_rng ctx), pc_store := Some (?st1, mb1)\<rparr>"
  let ?ns = "rng (pc_rng ?ctx1)" and ?st2 = "st\<lparr>state_counter := event_counter st\<rparr>"
  obtain sb where enc: "encode_state L (key_box ?st1) (fst ?ns) (self, event_counter ?st1) = Ok sb"
    using client_okD(6) [OF ok, of "fst ?ns" "(self, event_counter ?st1)"] by auto
  obtain w' where w': "snapshot L S (fst ?ns) self (?st1, pc_world ctx) = (Ok (), ?st2, w')"
    "snap_rep content L ?st1 w' (self, event_counter st)"
    using snapshot_rep [of ?st1 "pc_world ctx" L "fst ?ns" self sb] op client_okD(1,2,3) [OF ok] enc by auto
  have h: "handle_message L C S ?ns (CmdSnapshot self) (?st1, pc_world ?ctx1) = (Ok RespSnapshotted, ?st2, w')"
    using w'(1) by (simp add: respond_def)
  from ask_store_behind [where rng = rng and ctx = ?ctx1 and cmd = CmdLastEventNumber, OF mb1 h]
  have "\<exists>ctx2. ask_store L C S rng CmdLastEventNumber (?st1, mb1) ?ctx1 =
      (Some (Ok (RespLastEventNumber (event_counter st))), ctx2) \<and> pc_world ctx2 = w'"
    by (fastforce simp: mb1)
  with start w'(2) show ?thesis by fastforce
qed

text \<open>The first snapshot of a new actor is taken before its first event and has the number of that
  event: after a crash the first event is not replayed.\<close>

lemma pa_first_persist:
  assumes child: "pc_store ctx = Some (st, mb)" "\<not> mb_closed mb"
      "mb_queue mb = [ActorMessage_new (CmdSnapshot p) (store_path ctx) None]"
    and rep: "log_rep opened entries L st (pc_world ctx) []"
    and ok: "client_ok L (key_box st) rng"
    and app: "apply_event L p e = (Ok (), p')"
  shows "\<exists>ctx1. pa_persist L C S rng Full e (p, ctx) = (Some (Ok ()), p', ctx1) \<and>
    pa_durable opened entries content L (key_box st) ctx1 [e] p \<and> pc_path ctx1 = pc_path ctx"
proof -
  let ?n1 = "rng (pc_rng ctx)" and ?n2 = "rng (Suc (pc_rng ctx))"
  obtain sb b where enc: "encode_state L (key_box st) (fst ?n1) (p, 0) = Ok sb"
    "encode_event L (key_box st) (fst ?n2) e = Ok b"
    using client_okD(5,6) [OF ok] by blast
  have ec: "event_counter st = 0" and op: "opened (events st) (states st) (pc_world ctx)"
    using rep by (auto simp: log_rep_def)
  let ?st1 = "st\<lparr>state_counter := event_counter st\<rparr>"
  obtain w1 where sn: "snapshot L S (fst ?n1) p (st, pc_world ctx) = (Ok (), ?st1, w1)"
    and w1: "opened (events st) (states st) w1" "entries (events st) w1 = entries (events st) (pc_world ctx)"
      "snap_rep content L st w1 (p, 0)"
    using snapshot_rep [OF op client_okD(1,3,2) [OF ok], where p = p and b = sb] enc ec by auto
  have rep1: "log_rep opened entries L ?st1 w1 []" using rep w1 by (simp add: log_rep_def)
  let ?st2 = "?st1\<lparr>event_counter := 0\<rparr>"
  obtain w2 where pe: "persist L C (fst ?n2) e (?st1, w1) = (Ok (), ?st2, w2)"
    and rep2: "log_rep opened entries L ?st2 w2 [e]"
    and c2: "content (states st) w2 = content (states st) w1"
    using persist_log [OF rep1 _ client_okD(1,3) [OF ok], where e = e and b = b] enc(2) by auto
  have h1: "handle_message L C S ?n1 (CmdSnapshot p) (st, pc_world ctx) = (Ok RespSnapshotted, ?st1, w1)"
    using sn by (simp add: respond_def)
  have h2: "handle_message L C S ?n2 (CmdPersist e) (?st1, w1) = (Ok RespPersisted, ?st2, w2)"
    using pe by (simp add: respond_def)
  obtain mb' where ask: "ask_store L C S rng (CmdPersist e) (st, mb) ctx = (Some (Ok RespPersisted),
      ctx\<lparr>pc_world := w2, pc_rng := Suc (Suc (pc_rng ctx)), pc_store := Some (?st2, mb')\<rparr>)" and mb': "idle mb'"
    using ask_store_behind [where rng = rng and ctx = ctx, OF child(2,3) h1 _ h2] by auto
  let ?ctx1 = "ctx\<lparr>pc_world := w2, pc_rng := Suc (Suc (pc_rng ctx)), pc_store := Some (?st2, mb')\<rparr>"
  have p1: "pa_persist L C S rng Full e (p, ctx) = (Some (Ok ()), p', ?ctx1)"
    using child(1) ask app by (simp add: pa_persist_def)
  have dur: "durable opened entries content L ?st2 w2 [e] p"
    using rep2 w1(3) c2 by (auto simp: durable_def snap_rep_def intro!: exI [of _ p] exI [of _ 0])
  with p1 mb' show ?thesis by (auto simp: pa_durable_def)
qed

lemma pa_first_event_lost:
  assumes child: "pc_store ctx = Some (st, mb)" "\<not> mb_closed mb"
      "mb_queue mb = [ActorMessage_new (CmdSnapshot p) (store_path ctx) None]"
    and rep: "log_rep opened entries L st (pc_world ctx) []"
    and pfx: "(case pf of Some p \<Rightarrow> p | None \<Rightarrow> path_key (pc_path ctx)) = pfx"
    and box: "password_box L pw (key_box st)" and ok: "client_ok L (key_box st) rng"
    and app: "apply_event L p e = (Ok (), p')"
  shows "\<exists>ctx1 ctx2. pa_persist L C S rng Full e (p, ctx) = (Some (Ok ()), p', ctx1) \<and>
    pa_start_store L C S M rng name pf pw (self, ctx1\<lparr>pc_store := None\<rparr>) = (Some (Ok ()), p, ctx2)"
proof -
  obtain ctx1 where c: "pa_persist L C S rng Full e (p, ctx) = (Some (Ok ()), p', ctx1)"
    "pa_durable opened entries content L (key_box st) ctx1 [e] p" "pc_path ctx1 = pc_path ctx"
    using pa_first_persist [OF child rep ok app] by blast
  obtain st1 where st1: "key_box st1 = key_box st"
    "durable opened entries content L st1 (pc_world (ctx1\<lparr>pc_store := None\<rparr>)) [e] p"
    using c(2) by (auto simp: pa_durable_def)
  have "(case pf of Some p \<Rightarrow> p | None \<Rightarrow> path_key (pc_path (ctx1\<lparr>pc_store := None\<rparr>))) = pfx"
    using pfx c(3) by (simp split: option.splits)
  from pa_start_recovers [OF _ this st1(2), where rng = rng and self = self] st1(1) box ok c(1)
  show ?thesis by fastforce
qed

end

section \<open>A new actor over an empty database\<close>

text \<open>The state after a list of events that \<open>apply\<close> accepts in every state.\<close>

definition total_apply :: "('p, 'e, 'k) store_lib \<Rightarrow> bool" where
  "total_apply L \<longleftrightarrow> (\<forall>p e. fst (apply_event L p e) = Ok ())"

definition applied :: "('p, 'e, 'k) store_lib \<Rightarrow> 'p \<Rightarrow> 'e list \<Rightarrow> 'p" where
  "applied L = foldl (\<lambda>p e. snd (apply_event L p e))"

lemma applied_simps [simp]:
  "applied L p [] = p" "applied L p (e # es) = applied L (snd (apply_event L p e)) es"
  by (simp_all add: applied_def)

lemma total_applyD: "total_apply L \<Longrightarrow> apply_event L p e = (Ok (), snd (apply_event L p e))"
  unfolding total_apply_def by (metis prod.collapse)

context store_backend
begin

text \<open>An actor whose state \<open>p\<close> differs from the durable state \<open>q\<close> persists its events all the same.\<close>

lemma pa_persist_diverged:
  assumes dur: "pa_durable opened entries content L kb ctx evs q" and room: "length evs < 2 ^ 64"
    and ok: "client_ok L kb rng"
    and app: "apply_event L p e = (Ok (), p')" "apply_event L q e = (Ok (), q')"
  shows "\<exists>ctx'. pa_persist L C S rng Full e (p, ctx) = (Some (Ok ()), p', ctx') \<and>
    pa_durable opened entries content L kb ctx' (evs @ [e]) q' \<and> pc_path ctx' = pc_path ctx"
proof -
  obtain st mb where st: "pc_store ctx = Some (st, mb)" "idle mb" "key_box st = kb"
    and d: "durable opened entries content L st (pc_world ctx) evs q"
    using dur by (auto simp: pa_durable_def)
  let ?nonce = "fst (rng (pc_rng ctx))"
  obtain b where b: "encode_event L (key_box st) ?nonce e = Ok b" using client_okD(5) [OF ok] st by blast
  obtain w' where w': "persist L C ?nonce e (st, pc_world ctx) = (Ok (), st\<lparr>event_counter := of_nat (length evs)\<rparr>, w')"
    "durable opened entries content L (st\<lparr>event_counter := of_nat (length evs)\<rparr>) w' (evs @ [e]) q'"
    using durable_persist [OF d room client_okD(1,3) [OF ok] b app(2)] by blast
  from pa_persist_full_eq [where rng = rng and ctx = ctx, OF st(1,2) app(1) w'(1)] st w'(2) show ?thesis
    by (fastforce simp: pa_durable_def)
qed

lemma pa_persist_all_diverged:
  assumes "pa_durable opened entries content L kb ctx evs q" "length evs + length es < 2 ^ 64"
    "client_ok L kb rng" "total_apply L"
  shows "\<exists>ctx'. pa_persist_all L C S rng Full es (p, ctx) = (Some (Ok ()), applied L p es, ctx') \<and>
    pa_durable opened entries content L kb ctx' (evs @ es) (applied L q es) \<and> pc_path ctx' = pc_path ctx"
  using assms
proof (induction es arbitrary: ctx evs p q)
  case (Cons e es)
  obtain ctx1 where ctx1: "pa_persist L C S rng Full e (p, ctx) = (Some (Ok ()), snd (apply_event L p e), ctx1)"
    "pa_durable opened entries content L kb ctx1 (evs @ [e]) (snd (apply_event L q e))" "pc_path ctx1 = pc_path ctx"
    using pa_persist_diverged [OF Cons.prems(1) _ Cons.prems(3) total_applyD [OF Cons.prems(4)]
        total_applyD [OF Cons.prems(4)]] Cons.prems(2) by fastforce
  from Cons.IH [OF ctx1(2) _ Cons.prems(3,4), of "snd (apply_event L p e)"] Cons.prems(2) ctx1 show ?case by auto
qed auto

end

context fresh_backend
begin

lemma store_new_fresh:
  assumes "fresh w" and box: "password_box L pw kb"
  shows "\<exists>st w'. store_new L C M name pfx pw w = (Ok st, w') \<and> key_box st = kb \<and>
    log_rep opened entries L st w' [] \<and> content (states st) w' = None"
proof -
  obtain c s w1 w2 where c: "create_collection M (name @ ''_events'') pfx w = (Ok c, w1)"
    "create_state M (name @ ''_states'') pfx w1 = (Ok s, w2)" and op: "opened c s w2"
    and e: "entries c w2 = []" "content s w2 = None"
    using open_fresh [OF assms(1)] by blast
  have l: "coll_last C c w2 = Ok None" using last_law [of c w2] opened_valid [OF op] e(1) by simp
  let ?st = "\<lparr>event_counter = 0, state_counter = 0, events = c, states = s, key_box = kb\<rparr>"
  have "store_new L C M name pfx pw w = (Ok ?st, w2)"
    using box c l by (cases pw) (auto simp: store_new_def password_box_def)
  moreover have "log_rep opened entries L ?st w2 []" using op e by (simp add: log_rep_def)
  ultimately show ?thesis using e(2) by (intro exI [of _ ?st]) simp
qed

lemma pa_start_fresh:
  assumes "fresh (pc_world ctx)" and none: "pc_store ctx = None" and box: "password_box L pw kb"
    and pfx: "(case pf of Some q \<Rightarrow> q | None \<Rightarrow> path_key (pc_path ctx)) = pfx"
  shows "\<exists>ctx1 st mb. pa_start_store L C S M rng name pf pw (p, ctx) = (Some (Ok ()), p, ctx1) \<and>
    pc_path ctx1 = pc_path ctx \<and> pc_store ctx1 = Some (st, mb) \<and> \<not> mb_closed mb \<and>
    mb_queue mb = [ActorMessage_new (CmdSnapshot p) (store_path ctx1) None] \<and> key_box st = kb \<and>
    log_rep opened entries L st (pc_world ctx1) []"
proof -
  obtain st w' where new: "store_new L C M name pfx pw (pc_world ctx) = (Ok st, w')"
    and kb: "key_box st = kb" and rep: "log_rep opened entries L st w' []"
    and c: "content (states st) w' = None"
    using store_new_fresh [OF assms(1) box] by blast
  have "recover L C S (fst (rng (pc_rng ctx))) (st, w') = (Ok None, st, w')"
    using rep c by (intro recover_no_snapshot) (simp_all add: log_rep_def)
  from pa_start_eq(2) [where rng = rng and self = p, OF none _ this] new pfx obtain mb where
    "\<not> mb_closed mb" "mb_queue mb = [ActorMessage_new (CmdSnapshot p) (store_path ctx) None]"
    "pa_start_store L C S M rng name pf pw (p, ctx) =
      (Some (Ok ()), p, ctx\<lparr>pc_world := w', pc_rng := Suc (pc_rng ctx), pc_store := Some (st, mb)\<rparr>)"
    by blast
  then show ?thesis using kb rep by (auto simp: store_path_def)
qed

text \<open>A new actor: started, told any number of events, crashed, and started again.\<close>

lemma pa_new_actor_restart:
  assumes "fresh (pc_world ctx)" "pc_store ctx = None" and box: "password_box L pw kb"
    and pfx: "(case pf of Some q \<Rightarrow> q | None \<Rightarrow> path_key (pc_path ctx)) = pfx"
    and ok: "client_ok L kb rng" "total_apply L" and room: "Suc (length es) < 2 ^ 64"
  shows "\<exists>ctx1 ctx2 ctx3. pa_start_store L C S M rng name pf pw (p, ctx) = (Some (Ok ()), p, ctx1) \<and>
    pa_persist_all L C S rng Full (e # es) (p, ctx1) = (Some (Ok ()), applied L p (e # es), ctx2) \<and>
    pa_start_store L C S M rng name pf pw (self, ctx2\<lparr>pc_store := None\<rparr>) =
      (Some (Ok ()), applied L p es, ctx3)"
proof -
  obtain ctx1 st mb where s: "pa_start_store L C S M rng name pf pw (p, ctx) = (Some (Ok ()), p, ctx1)"
    "pc_path ctx1 = pc_path ctx" "pc_store ctx1 = Some (st, mb)" "\<not> mb_closed mb"
    "mb_queue mb = [ActorMessage_new (CmdSnapshot p) (store_path ctx1) None]" "key_box st = kb"
    "log_rep opened entries L st (pc_world ctx1) []"
    using pa_start_fresh [OF assms(1-2) box pfx, of rng p] by blast
  obtain ctx2 where f: "pa_persist L C S rng Full e (p, ctx1) = (Some (Ok ()), snd (apply_event L p e), ctx2)"
    "pa_durable opened entries content L kb ctx2 [e] p" "pc_path ctx2 = pc_path ctx1"
    using pa_first_persist [OF s(3-5,7) _ total_applyD [OF ok(2)], of rng] ok(1) s(6) by blast
  have "length [e] + length es < 2 ^ 64" using room by simp
  from pa_persist_all_diverged [OF f(2) this ok, of "snd (apply_event L p e)"] obtain ctx3 where
    g: "pa_persist_all L C S rng Full es (snd (apply_event L p e), ctx2) =
      (Some (Ok ()), applied L (snd (apply_event L p e)) es, ctx3)"
    "pa_durable opened entries content L kb ctx3 ([e] @ es) (applied L p es)" "pc_path ctx3 = pc_path ctx2" by blast
  obtain st3 where st3: "key_box st3 = kb"
    "durable opened entries content L st3 (pc_world (ctx3\<lparr>pc_store := None\<rparr>)) ([e] @ es) (applied L p es)"
    using g(2) by (auto simp: pa_durable_def)
  have "(case pf of Some q \<Rightarrow> q | None \<Rightarrow> path_key (pc_path (ctx3\<lparr>pc_store := None\<rparr>))) = pfx"
    using pfx g(3) f(3) s(2) by (simp split: option.splits)
  from pa_start_recovers [OF _ this st3(2), where rng = rng and self = self] st3(1) box ok(1) s(1) f(1) g(1)
  show ?thesis by fastforce
qed

end

section \<open>Errors of the store\<close>

lemma persist_store_error:
  assumes "pc_store ctx = Some (st, mb)" "idle mb" "apply_event L p e = (Ok (), p')"
    and enc: "encode_event L (key_box st) (fst (rng (pc_rng ctx))) e = Err x"
  shows "\<exists>ctx'. pa_persist L C S rng Full e (p, ctx) =
      (Some (Err (ActorErr_Store (store_error_display x))), p', ctx') \<and> pc_world ctx' = pc_world ctx"
  using pa_persist_full_eq [where rng = rng and ctx = ctx, OF assms(1-3), of C "Err x" st "pc_world ctx" S] enc
  by (fastforce simp: persist_def)

lemma snapshot_store_error:
  assumes "pc_store ctx = Some (st, mb)" "idle mb" and enc: "enc_state L (p, event_counter st) = Err x"
  shows "\<exists>ctx'. pa_snapshot L C S rng p ctx = (Some (Ok ()), ctx') \<and> pc_world ctx' = pc_world ctx"
proof -
  have "handle_message L C S (rng (pc_rng ctx)) (CmdSnapshot p) (st, pc_world ctx) =
      (Ok (RespError (StoreErr_Store (''Can't encode actor: '' @ x))),
       st\<lparr>state_counter := event_counter st\<rparr>, pc_world ctx)"
    using enc by (simp add: respond_def snapshot_def)
  from ask_store_idle [where rng = rng and ctx = ctx, OF assms(2) this] assms(1) show ?thesis
    by (fastforce simp: pa_snapshot_def)
qed

end
