(* ===== verification/Store_Example.thy ===== *)
theory Store_Example
  imports Persistent_Actor
begin

text \<open>
  A persistent actor over a memory database, after the counter actor of the tests of
  \<open>src/store/src/store.rs\<close>: the state and the events are bytes, an event is added to the state and
  the event \<open>0\<close> is refused. The codec, the cipher and the key memory are concrete functions that
  satisfy what the store relies on; the world is what a manager holds after two events.
\<close>

section \<open>Libraries\<close>

definition byte_of_char :: "char \<Rightarrow> u8" where
  "byte_of_char c = of_nat (of_char c)"

definition char_of_byte :: "u8 \<Rightarrow> char" where
  "char_of_byte b = char_of (unat b)"

definition example_enc_state :: "u8 \<times> u64 \<Rightarrow> (bytes, string) outcome" where
  "example_enc_state = (\<lambda>(p, n). Ok (p # map byte_of_char (fmt020 n)))"

definition example_dec_state :: "bytes \<Rightarrow> (u8 \<times> u64, string) outcome" where
  "example_dec_state bs =
     (case bs of
        [] \<Rightarrow> Err ''UnexpectedEnd''
      | p # cs \<Rightarrow> and_then (parse_u64 (map char_of_byte cs)) (\<lambda>n. Ok (p, n)))"

definition example_lib :: "(u8, u8, bytes) store_lib" where
  "example_lib =
     \<lparr>enc_event = (\<lambda>e. Ok [e]),
      dec_event = (\<lambda>bs. case bs of [e] \<Rightarrow> Ok e | _ \<Rightarrow> Err ''UnexpectedEnd''),
      enc_state = example_enc_state,
      dec_state = example_dec_state,
      aead_encrypt = (\<lambda>key nonce m. Ok (m @ [7])),
      aead_decrypt = (\<lambda>key nonce c.
        if c \<noteq> [] \<and> last c = 7 then Ok (butlast c) else Err ''aead::Error''),
      mem_encrypt = Ok, mem_decrypt = Ok,
      apply_event = (\<lambda>p e. if e = 0 then (Err (ActorErr_Functional ''zero''), p) else (Ok (), p + e))\<rparr>"

definition example_rng :: "nat \<Rightarrow> bytes \<times> bytes" where
  "example_rng n = (replicate 12 1, replicate 12 2)"

section \<open>A memory world with two events\<close>

definition example_events :: MemoryStore where
  "example_events = \<lparr>ms_name = ''acc_events'', ms_prefix = ''a'', ms_data = 0\<rparr>"

definition example_states :: MemoryStore where
  "example_states = \<lparr>ms_name = ''acc_states'', ms_prefix = ''a'', ms_data = 1\<rparr>"

definition example_world :: "u8 \<Rightarrow> u8 \<Rightarrow> mem_world" where
  "example_world e0 e1 =
     \<lparr>mm_data = [(''acc_events'', ''a'') \<mapsto> 0, (''acc_states'', ''a'') \<mapsto> 1],
      mm_poisoned = False,
      heap = (\<lambda>_. empty_cell)
        (0 := \<lparr>cell_data = [(''a.'' @ fmt020 0, [e0]), (''a.'' @ fmt020 1, [e1])], cell_poisoned = False\<rparr>,
         1 := \<lparr>cell_data = [(''a'', 5 # map byte_of_char (fmt020 0))], cell_poisoned = False\<rparr>),
      next_addr = 2\<rparr>"

definition example_store :: "(MemoryStore, MemoryStore, bytes) Store" where
  "example_store =
     \<lparr>event_counter = 1, state_counter = 0, events = example_events, states = example_states,
      key_box = None\<rparr>"

definition example_ctx ::
  "mem_world \<Rightarrow> (u8, u8, bytes, MemoryStore, MemoryStore, mem_world) pctx" where
  "example_ctx w =
     \<lparr>pc_path = [''user'', ''a''], pc_store = Some (example_store, mailbox_new), pc_world = w,
      pc_rng = 0\<rparr>"

lemma example_lib_sel [simp]:
  "enc_event example_lib e = Ok [e]" "enc_state example_lib = example_enc_state"
  "dec_event example_lib bs = (case bs of [e] \<Rightarrow> Ok e | _ \<Rightarrow> Err ''UnexpectedEnd'')"
  "dec_state example_lib = example_dec_state"
  "aead_encrypt example_lib key nonce m = Ok (m @ [7])"
  "aead_decrypt example_lib key nonce c =
     (if c \<noteq> [] \<and> last c = 7 then Ok (butlast c) else Err ''aead::Error'')"
  "mem_encrypt example_lib = Ok" "mem_decrypt example_lib = Ok"
  "apply_event example_lib p e =
     (if e = 0 then (Err (ActorErr_Functional ''zero''), p) else (Ok (), p + e))"
  by (simp_all add: example_lib_def)

lemmas example_defs = example_events_def example_states_def example_world_def
  example_store_def example_ctx_def

section \<open>The instance satisfies the contracts\<close>

lemma char_of_byte_of_char [simp]: "char_of_byte (byte_of_char c) = c"
proof -
  have "(of_char c :: nat) < 256" by simp
  then have "unat (of_nat (of_char c) :: u8) = of_char c" by (simp add: unat_of_nat)
  then show ?thesis by (simp add: char_of_byte_def byte_of_char_def)
qed

lemma example_state_roundtrip: "example_enc_state x = Ok b \<Longrightarrow> example_dec_state b = Ok x"
  by (auto simp: example_enc_state_def example_dec_state_def comp_def split_beta)

lemma example_lib_laws: "lib_laws example_lib"
  by (auto simp: lib_laws_def codec_laws_def cipher_laws_def box_laws_def
      example_state_roundtrip)

lemma example_client_ok: "client_ok example_lib None example_rng"
  by (auto simp: client_ok_def example_lib_laws box_opens_def rng_ok_def example_rng_def NONCE_SIZE_def
      encodes_def encode_event_def encode_state_def example_enc_state_def)

lemma example_client_ok_key: "client_ok example_lib (Some key) example_rng"
  by (auto simp: client_ok_def example_lib_laws box_opens_def rng_ok_def example_rng_def NONCE_SIZE_def
      encodes_def encode_event_def encode_state_def example_enc_state_def encrypt_def)

lemma fmt020_0_less_1: "fmt020 0 < fmt020 1"
  by (simp add: fmt020_less_iff)

lemma example_opened: "mem_opened ''acc'' ''a'' example_events example_states (example_world e0 e1)"
  using fmt020_0_less_1
  by (auto simp: mem_opened_def mem_cvalid_def mem_svalid_def example_defs full_key_def)

lemma example_entries:
  "mem_entries example_events (example_world e0 e1) = [(fmt020 0, [e0]), (fmt020 1, [e1])]"
  "mem_content example_states (example_world e0 e1) = Some (5 # map byte_of_char (fmt020 0))"
  by (simp_all add: mem_entries_def mem_content_def example_defs)

lemma example_log:
  "log_rep (mem_opened ''acc'' ''a'') mem_entries example_lib example_store (example_world e0 e1) [e0, e1]"
proof -
  have "events example_store = example_events" "states example_store = example_states"
    "key_box example_store = None" "event_counter example_store = 1"
    by (simp_all add: example_store_def)
  then show ?thesis
    by (simp add: log_rep_def example_opened log_entries_def example_entries decode_event_def)
qed

lemma example_snap: "snap_rep mem_content example_lib example_store (example_world e0 e1) (5, 0)"
proof -
  have "states example_store = example_states" "key_box example_store = None"
    by (simp_all add: example_store_def)
  then show ?thesis
    using example_state_roundtrip [of "(5, 0)"]
    by (simp add: snap_rep_def example_entries decode_state_def example_enc_state_def)
qed

lemma example_durable:
  "e1 \<noteq> 0 \<Longrightarrow>
   durable (mem_opened ''acc'' ''a'') mem_entries mem_content example_lib example_store
     (example_world e0 e1) [e0, e1] (5 + e1)"
  using example_log [of e0 e1] example_snap [of e0 e1]
  by (auto simp: durable_def intro!: exI [of _ "5 :: u8"] exI [of _ "0 :: u64"])

lemma example_pa_durable:
  "e1 \<noteq> 0 \<Longrightarrow>
   pa_durable (mem_opened ''acc'' ''a'') mem_entries mem_content example_lib None
     (example_ctx (example_world e0 e1)) [e0, e1] (5 + e1)"
  using example_durable [of e1 e0]
  by (auto simp: pa_durable_def example_ctx_def idle_def mailbox_new_def example_store_def)

end
