(* ===== verification/Rocksdb_Store.thy ===== *)
theory Rocksdb_Store
  imports Database
begin

text \<open>
  The RocksDB backend (\<open>src/databases/rocksdb_db/src/rocksdb.rs\<close>). The engine is a parameter: the
  record \<open>rocks_engine\<close> of the calls the code makes on \<open>DB\<close>, over an abstract world. What the code
  relies on is \<open>rocks_laws\<close>: a column family is a map of byte strings that is iterated in byte order,
  over a snapshot taken when the iterator is created, and its calls do not fail.

  One column family holds the data of many actors, told apart by a prefix of the key. Under
  \<open>rocks_laws\<close> the methods satisfy the contracts of \<open>Database\<close> as long as no other key of the column
  family begins with the prefix; without that they do not.
\<close>

record 'w rocks_engine =
  rk_cf_handle :: "string \<Rightarrow> 'w \<Rightarrow> bool"
  rk_create_cf :: "string \<Rightarrow> 'w \<Rightarrow> (unit, string) outcome \<times> 'w"
  rk_get_cf :: "string \<Rightarrow> string \<Rightarrow> 'w \<Rightarrow> (bytes option, string) outcome"
  rk_put_cf :: "string \<Rightarrow> string \<Rightarrow> bytes \<Rightarrow> 'w \<Rightarrow> (unit, string) outcome \<times> 'w"
  rk_delete_cf :: "string \<Rightarrow> string \<Rightarrow> 'w \<Rightarrow> (unit, string) outcome \<times> 'w"
  rk_flush_cf :: "string \<Rightarrow> 'w \<Rightarrow> (unit, string) outcome \<times> 'w"
  rk_iterator_cf :: "string \<Rightarrow> bool \<Rightarrow> 'w \<Rightarrow> (string \<times> bytes, string) outcome list"

record RocksDbStore =
  rs_name :: string
  rs_prefix :: string

definition no_column :: store_error where
  "no_column = StoreErr_Store ''RocksDB column for the store does not exist.''"

definition rocks_key :: "RocksDbStore \<Rightarrow> string \<Rightarrow> string" where
  "rocks_key h key = rs_prefix h @ ''.'' @ key"

section \<open>RocksDbManager\<close>

text \<open>\<open>RocksDbManager::new\<close>: the file system and the calls that open a database are parameters; \<open>'w\<close> is the
  opened database.\<close>

record ('f, 'w) rocks_opener =
  ro_exists :: "string \<Rightarrow> 'f \<Rightarrow> bool"
  ro_create_dir_all :: "string \<Rightarrow> 'f \<Rightarrow> (unit, string) outcome \<times> 'f"
  ro_list_cf :: "string \<Rightarrow> 'f \<Rightarrow> (string list, string) outcome"
  ro_open_cf_descriptors :: "string \<Rightarrow> string list \<Rightarrow> 'f \<Rightarrow> ('w, string) outcome \<times> 'f"

definition rocks_manager_new ::
  "('f, 'w) rocks_opener \<Rightarrow> string \<Rightarrow> 'f \<Rightarrow> ('w, store_error) outcome \<times> 'f" where
  "rocks_manager_new fsys path fs =
     then_in
       (if ro_exists fsys path fs then (Ok (), fs)
        else apfst (map_err (\<lambda>e. StoreErr_CreateStore (''fail RockDB create directory: '' @ e)))
               (ro_create_dir_all fsys path fs))
       (\<lambda>_ fs'.
          let cfs = (case ro_list_cf fsys path fs' of Ok cf_names \<Rightarrow> cf_names | _ \<Rightarrow> [''default''])
          in apfst (map_err (\<lambda>e. StoreErr_CreateStore (''Can not open RockDB: '' @ e)))
               (ro_open_cf_descriptors fsys path cfs fs'))"

definition rocks_create ::
  "'w rocks_engine \<Rightarrow> string \<Rightarrow> string \<Rightarrow> 'w \<Rightarrow> (RocksDbStore, store_error) outcome \<times> 'w" where
  "rocks_create E name pfx w =
     then_in
       (if rk_cf_handle E name w then (Ok (), w)
        else apfst (map_err StoreErr_CreateStore) (rk_create_cf E name w))
       (\<lambda>_ w'. (Ok \<lparr>rs_name = name, rs_prefix = pfx\<rparr>, w'))"

section \<open>State\<close>

definition rocks_get ::
  "'w rocks_engine \<Rightarrow> RocksDbStore \<Rightarrow> string \<Rightarrow> 'w \<Rightarrow> (bytes, store_error) outcome" where
  "rocks_get E h key w =
     (if rk_cf_handle E (rs_name h) w then
        and_then (map_err StoreErr_Get (rk_get_cf E (rs_name h) key w)) (\<lambda>result.
          case result of
            Some value \<Rightarrow> Ok value
          | None \<Rightarrow> Err (StoreErr_EntryNotFound ''Query returned no rows''))
      else Err no_column)"

definition rocks_put ::
  "'w rocks_engine \<Rightarrow> RocksDbStore \<Rightarrow> string \<Rightarrow> bytes \<Rightarrow> 'w \<Rightarrow> (unit, store_error) outcome \<times> 'w" where
  "rocks_put E h key data w =
     (if rk_cf_handle E (rs_name h) w
      then apfst (map_err StoreErr_Get) (rk_put_cf E (rs_name h) key data w)
      else (Err no_column, w))"

definition rocks_del ::
  "'w rocks_engine \<Rightarrow> RocksDbStore \<Rightarrow> string \<Rightarrow> 'w \<Rightarrow> (unit, store_error) outcome \<times> 'w" where
  "rocks_del E h key w =
     (if rk_cf_handle E (rs_name h) w
      then apfst (map_err StoreErr_Get) (rk_delete_cf E (rs_name h) key w)
      else (Err no_column, w))"

definition rocks_state_get where
  "rocks_state_get E h = rocks_get E h (rs_prefix h)"

definition rocks_state_put where
  "rocks_state_put E h = rocks_put E h (rs_prefix h)"

definition rocks_state_del where
  "rocks_state_del E h = rocks_del E h (rs_prefix h)"

text \<open>The loop of \<open>purge\<close> over the entries of the iterator; \<open>flatten\<close> skips those that failed.\<close>

fun rocks_purge_loop ::
  "'w rocks_engine \<Rightarrow> RocksDbStore \<Rightarrow> (string \<times> bytes, string) outcome list \<Rightarrow> 'w \<Rightarrow>
   (unit, store_error) outcome \<times> 'w" where
  "rocks_purge_loop E h [] w = (Ok (), w)"
| "rocks_purge_loop E h (Ok (key, v) # items) w =
     (if \<not> utf8_ok key then (Err (StoreErr_Store ''Can not convert key to string: ''), w)
      else if starts_with key (rs_prefix h) then
        then_in (apfst (map_err StoreErr_Get) (rk_delete_cf E (rs_name h) key w))
          (\<lambda>_ w'. rocks_purge_loop E h items w')
      else rocks_purge_loop E h items w)"
| "rocks_purge_loop E h (Err e # items) w = rocks_purge_loop E h items w"
| "rocks_purge_loop E h (Panic m # items) w = (Panic m, w)"

definition rocks_purge ::
  "'w rocks_engine \<Rightarrow> RocksDbStore \<Rightarrow> 'w \<Rightarrow> (unit, store_error) outcome \<times> 'w" where
  "rocks_purge E h w =
     (if rk_cf_handle E (rs_name h) w
      then rocks_purge_loop E h (rk_iterator_cf E (rs_name h) False w) w
      else (Err no_column, w))"

definition rocks_flush ::
  "'w rocks_engine \<Rightarrow> RocksDbStore \<Rightarrow> 'w \<Rightarrow> (unit, store_error) outcome \<times> 'w" where
  "rocks_flush E h w =
     (if rk_cf_handle E (rs_name h) w
      then apfst (map_err StoreErr_Get) (rk_flush_cf E (rs_name h) w)
      else (Err no_column, w))"

section \<open>Collection\<close>

definition rocks_coll_get where
  "rocks_coll_get E h key = rocks_get E h (rocks_key h key)"

definition rocks_coll_put where
  "rocks_coll_put E h key = rocks_put E h (rocks_key h key)"

definition rocks_coll_del where
  "rocks_coll_del E h key = rocks_del E h (rocks_key h key)"

text \<open>\<open>RocksDbIterator\<close>: the engine's iterator, opened at the first \<open>next\<close>; keys without the prefix are
  skipped, an entry that failed ends the iteration.\<close>

fun rocks_iter_items ::
  "RocksDbStore \<Rightarrow> (string \<times> bytes, string) outcome list \<Rightarrow> (string \<times> bytes) rust_iter" where
  "rocks_iter_items h [] = Done"
| "rocks_iter_items h (Ok (key, v) # items) =
     (if \<not> utf8_ok key then Crash ''Can not convert key to string.''
      else if starts_with key (rs_prefix h) then
        (case (slice_from key (length (rs_prefix h) + 1) :: (string, store_error) outcome) of
           Ok k \<Rightarrow> Yield (k, v) (rocks_iter_items h items)
         | _ \<Rightarrow> Crash ''byte index out of bounds'')
      else rocks_iter_items h items)"
| "rocks_iter_items h (Err e # items) = Done"
| "rocks_iter_items h (Panic m # items) = Crash m"

definition rocks_iter ::
  "'w rocks_engine \<Rightarrow> RocksDbStore \<Rightarrow> bool \<Rightarrow> 'w \<Rightarrow> (string \<times> bytes) rust_iter" where
  "rocks_iter E h reverse w =
     (if rk_cf_handle E (rs_name h) w
      then rocks_iter_items h (rk_iterator_cf E (rs_name h) reverse w)
      else Crash ''RocksDB column for the store does not exist.'')"

definition rocks_collection :: "'w rocks_engine \<Rightarrow> ('w, RocksDbStore) collection" where
  "rocks_collection E =
     \<lparr>coll_name = rs_name, coll_get = rocks_coll_get E, coll_put = rocks_coll_put E, coll_del = rocks_coll_del E,
      coll_purge = rocks_purge E, coll_iter = rocks_iter E\<rparr>"

definition rocks_state :: "'w rocks_engine \<Rightarrow> ('w, RocksDbStore) state_storage" where
  "rocks_state E =
     \<lparr>state_name = rs_name, state_get = rocks_state_get E, state_put = rocks_state_put E, state_del = rocks_state_del E,
      state_purge = rocks_purge E\<rparr>"

definition rocks_manager :: "'w rocks_engine \<Rightarrow> ('w, RocksDbStore, RocksDbStore) db_manager" where
  "rocks_manager E = \<lparr>create_collection = rocks_create E, create_state = rocks_create E\<rparr>"

section \<open>What the code relies on in the engine\<close>

definition rocks_cf_laws :: "'w rocks_engine \<Rightarrow> (string \<Rightarrow> 'w \<Rightarrow> (string \<times> bytes) list) \<Rightarrow> bool" where
  "rocks_cf_laws E rows \<longleftrightarrow>
     (\<forall>cf w. rk_cf_handle E cf w \<longrightarrow>
        bt_ok (rows cf w) \<and>
        (\<forall>k. rk_get_cf E cf k w = Ok (map_of (rows cf w) k)) \<and>
        (\<forall>r. rk_iterator_cf E cf r w = map Ok (if r then rev (rows cf w) else rows cf w)) \<and>
        (\<forall>k v. fst (rk_put_cf E cf k v w) = Ok () \<and>
           rows cf (snd (rk_put_cf E cf k v w)) = bt_insert k v (rows cf w)) \<and>
        (\<forall>k. fst (rk_delete_cf E cf k w) = Ok () \<and>
           rows cf (snd (rk_delete_cf E cf k w)) = bt_remove k (rows cf w)) \<and>
        (\<forall>k v cf'. rk_cf_handle E cf' (snd (rk_put_cf E cf k v w)) = rk_cf_handle E cf' w \<and>
           rk_cf_handle E cf' (snd (rk_delete_cf E cf k w)) = rk_cf_handle E cf' w \<and>
           (cf' \<noteq> cf \<longrightarrow> rows cf' (snd (rk_put_cf E cf k v w)) = rows cf' w \<and>
              rows cf' (snd (rk_delete_cf E cf k w)) = rows cf' w)))"

definition rocks_create_laws :: "'w rocks_engine \<Rightarrow> (string \<Rightarrow> 'w \<Rightarrow> (string \<times> bytes) list) \<Rightarrow> bool" where
  "rocks_create_laws E rows \<longleftrightarrow>
     (\<forall>cf w. \<not> rk_cf_handle E cf w \<longrightarrow>
        fst (rk_create_cf E cf w) = Ok () \<and>
        rows cf (snd (rk_create_cf E cf w)) = [] \<and>
        (\<forall>cf'. rk_cf_handle E cf' (snd (rk_create_cf E cf w)) = (rk_cf_handle E cf' w \<or> cf' = cf) \<and>
           (cf' \<noteq> cf \<longrightarrow> rows cf' (snd (rk_create_cf E cf w)) = rows cf' w)))"

definition rocks_laws :: "'w rocks_engine \<Rightarrow> (string \<Rightarrow> 'w \<Rightarrow> (string \<times> bytes) list) \<Rightarrow> bool" where
  "rocks_laws E rows \<longleftrightarrow> rocks_cf_laws E rows \<and> rocks_create_laws E rows"

lemma rocks_lawsD:
  assumes "rocks_laws E rows" "rk_cf_handle E cf w"
  shows "bt_ok (rows cf w)" "rk_get_cf E cf k w = Ok (map_of (rows cf w) k)"
    "rk_iterator_cf E cf r w = map Ok (if r then rev (rows cf w) else rows cf w)"
    "fst (rk_put_cf E cf k v w) = Ok ()" "rows cf (snd (rk_put_cf E cf k v w)) = bt_insert k v (rows cf w)"
    "fst (rk_delete_cf E cf k w) = Ok ()" "rows cf (snd (rk_delete_cf E cf k w)) = bt_remove k (rows cf w)"
    "rk_cf_handle E cf' (snd (rk_put_cf E cf k v w)) = rk_cf_handle E cf' w"
    "rk_cf_handle E cf' (snd (rk_delete_cf E cf k w)) = rk_cf_handle E cf' w"
    "cf' \<noteq> cf \<Longrightarrow> rows cf' (snd (rk_put_cf E cf k v w)) = rows cf' w"
    "cf' \<noteq> cf \<Longrightarrow> rows cf' (snd (rk_delete_cf E cf k w)) = rows cf' w"
  using assms(1) [unfolded rocks_laws_def, THEN conjunct1] assms(2) unfolding rocks_cf_laws_def by blast+

lemma rocks_lawsD_create:
  assumes "rocks_laws E rows" "\<not> rk_cf_handle E cf w"
  shows "fst (rk_create_cf E cf w) = Ok ()" "rows cf (snd (rk_create_cf E cf w)) = []"
    "rk_cf_handle E cf' (snd (rk_create_cf E cf w)) = (rk_cf_handle E cf' w \<or> cf' = cf)"
    "cf' \<noteq> cf \<Longrightarrow> rows cf' (snd (rk_create_cf E cf w)) = rows cf' w"
  using assms(1) [unfolded rocks_laws_def, THEN conjunct2] assms(2) unfolding rocks_create_laws_def by blast+

section \<open>The entries of one prefix\<close>

definition own_rows :: "RocksDbStore \<Rightarrow> (string \<times> bytes) list \<Rightarrow> (string \<times> bytes) list" where
  "own_rows h rs = filter (\<lambda>p. starts_with (fst p) (rs_prefix h)) rs"

definition rocks_entries ::
  "(string \<Rightarrow> 'w \<Rightarrow> (string \<times> bytes) list) \<Rightarrow> RocksDbStore \<Rightarrow> 'w \<Rightarrow> (string \<times> bytes) list" where
  "rocks_entries rows h w =
     map (apfst (drop (Suc (length (rs_prefix h))))) (own_rows h (rows (rs_name h) w))"

definition rocks_cvalid ::
  "'w rocks_engine \<Rightarrow> (string \<Rightarrow> 'w \<Rightarrow> (string \<times> bytes) list) \<Rightarrow> RocksDbStore \<Rightarrow> 'w \<Rightarrow> bool" where
  "rocks_cvalid E rows h w \<longleftrightarrow>
     rk_cf_handle E (rs_name h) w \<and> utf8_ok (rs_prefix h) \<and>
     (\<forall>p \<in> set (rows (rs_name h) w). utf8_ok (fst p) \<and>
        (starts_with (fst p) (rs_prefix h) \<longrightarrow> (\<exists>j. key_ok j \<and> fst p = rocks_key h j)))"

definition rocks_svalid ::
  "'w rocks_engine \<Rightarrow> (string \<Rightarrow> 'w \<Rightarrow> (string \<times> bytes) list) \<Rightarrow> RocksDbStore \<Rightarrow> 'w \<Rightarrow> bool" where
  "rocks_svalid E rows h w \<longleftrightarrow>
     rk_cf_handle E (rs_name h) w \<and> utf8_ok (rs_prefix h) \<and> (\<forall>p \<in> set (rows (rs_name h) w). utf8_ok (fst p))"

definition rocks_content ::
  "(string \<Rightarrow> 'w \<Rightarrow> (string \<times> bytes) list) \<Rightarrow> RocksDbStore \<Rightarrow> 'w \<Rightarrow> bytes option" where
  "rocks_content rows h w = map_of (rows (rs_name h) w) (rs_prefix h)"

lemma rocks_key_less [simp]: "rocks_key h a < rocks_key h b \<longleftrightarrow> a < b"
  by (simp add: rocks_key_def Cons_less_Cons_iff)

lemma inj_rocks_key [simp]: "inj (rocks_key h)"
  by (rule injI) (simp add: rocks_key_def)

lemma starts_with_rocks_key [simp]: "starts_with (rocks_key h k) (rs_prefix h)"
  by (simp add: rocks_key_def)

lemma drop_rocks_key [simp]: "drop (Suc (length (rs_prefix h))) (rocks_key h k) = k"
  by (simp add: rocks_key_def)

lemma utf8_ok_rocks_key: "utf8_ok (rs_prefix h) \<Longrightarrow> key_ok k \<Longrightarrow> utf8_ok (rocks_key h k)"
  unfolding rocks_key_def key_ok_def by (intro utf8_ok_append) (simp_all add: utf8_ok_ascii)

lemma slice_rocks_key:
  "key_ok k \<Longrightarrow> slice_from (rocks_key h k) (Suc (length (rs_prefix h))) = Ok k"
  by (cases k) (auto simp: rocks_key_def slice_from_def key_ok_def nth_append dest: utf8_head)

lemma own_rows_entries:
  assumes "rocks_cvalid E rows h w"
  shows "own_rows h (rows (rs_name h) w) = map (apfst (rocks_key h)) (rocks_entries rows h w)"
proof -
  have "rocks_key h (drop (Suc (length (rs_prefix h))) (fst p)) = fst p" if "p \<in> set (own_rows h (rows (rs_name h) w))" for p
  proof -
    from that assms obtain j where "fst p = rocks_key h j" by (auto simp: own_rows_def rocks_cvalid_def)
    then show ?thesis by simp
  qed
  then show ?thesis by (auto simp: rocks_entries_def comp_def intro!: map_idI [symmetric])
qed

lemma rocks_entries_keys:
  "rocks_cvalid E rows h w \<Longrightarrow> p \<in> set (rocks_entries rows h w) \<Longrightarrow> key_ok (fst p)"
proof -
  assume v: "rocks_cvalid E rows h w" and "p \<in> set (rocks_entries rows h w)"
  then obtain q where q: "q \<in> set (own_rows h (rows (rs_name h) w))"
    "fst p = drop (Suc (length (rs_prefix h))) (fst q)" by (auto simp: rocks_entries_def)
  from q(1) v obtain j where "key_ok j" "fst q = rocks_key h j" by (auto simp: own_rows_def rocks_cvalid_def)
  with q(2) show "key_ok (fst p)" by simp
qed

lemma own_rows_insert:
  assumes "bt_ok rs" "starts_with k (rs_prefix h)"
  shows "own_rows h (bt_insert k v rs) = bt_insert k v (own_rows h rs)"
  using assms(1)
proof (induction rs)
  case Nil
  show ?case using assms(2) by (simp add: own_rows_def)
next
  case (Cons p rs)
  then have "bt_ok (own_rows h (p # rs))" "bt_ok (own_rows h rs)"
    by (simp_all add: own_rows_def bt_ok_filter)
  moreover have "k < fst p \<Longrightarrow> bt_insert k v (own_rows h rs) = (k, v) # own_rows h rs"
    using Cons.prems by (intro bt_insert_first) (auto simp: own_rows_def)
  ultimately show ?case
    using Cons assms(2) by (cases p) (auto simp: own_rows_def bt_insert_Cons)
qed

lemma own_rows_remove: "own_rows h (bt_remove k rs) = bt_remove k (own_rows h rs)"
  by (simp add: own_rows_def bt_remove_def conj_commute)

lemma map_of_own_rows: "starts_with k (rs_prefix h) \<Longrightarrow> map_of (own_rows h rs) k = map_of rs k"
  by (induction rs) (auto simp: own_rows_def)

section \<open>The methods under the laws of the engine\<close>

lemma rocks_get_eq:
  "rocks_laws E rows \<Longrightarrow> rk_cf_handle E (rs_name h) w \<Longrightarrow>
   rocks_get E h k w = (case map_of (rows (rs_name h) w) k of Some v \<Rightarrow> Ok v | None \<Rightarrow> Err no_rows)"
  by (simp add: rocks_get_def rocks_lawsD no_rows_def split: option.split)

lemma rocks_put_eq:
  "rocks_laws E rows \<Longrightarrow> rk_cf_handle E (rs_name h) w \<Longrightarrow>
   rocks_put E h k v w = (Ok (), snd (rk_put_cf E (rs_name h) k v w))"
  using rocks_lawsD(4) [of E rows "rs_name h" w k v] by (simp add: rocks_put_def prod_eq_iff)

lemma rocks_del_eq:
  "rocks_laws E rows \<Longrightarrow> rk_cf_handle E (rs_name h) w \<Longrightarrow>
   rocks_del E h k w = (Ok (), snd (rk_delete_cf E (rs_name h) k w))"
  using rocks_lawsD(6) [of E rows "rs_name h" w k] by (simp add: rocks_del_def prod_eq_iff)

lemma rocks_purge_loop_eq:
  assumes laws: "rocks_laws E rows"
    and "rk_cf_handle E (rs_name h) w" "\<forall>p \<in> set items. utf8_ok (fst p)"
  shows "\<exists>w'. rocks_purge_loop E h (map Ok items) w = (Ok (), w') \<and>
    (\<forall>cf. rk_cf_handle E cf w' = rk_cf_handle E cf w) \<and>
    rows (rs_name h) w' = filter (\<lambda>p. fst p \<notin> fst ` set (own_rows h items)) (rows (rs_name h) w) \<and>
    (\<forall>cf. cf \<noteq> rs_name h \<longrightarrow> rows cf w' = rows cf w)"
  using assms(2,3)
proof (induction items arbitrary: w)
  case Nil
  show ?case by (simp add: own_rows_def)
next
  case (Cons p items)
  obtain k v where p: "p = (k, v)" by fastforce
  show ?case
  proof (cases "starts_with k (rs_prefix h)")
    case False
    with Cons.IH [OF Cons.prems(1)] Cons.prems(2) p show ?thesis by (simp add: own_rows_def)
  next
    case True
    let ?w = "snd (rk_delete_cf E (rs_name h) k w)"
    note D = rocks_lawsD [OF laws Cons.prems(1)]
    have del: "apfst (map_err StoreErr_Get) (rk_delete_cf E (rs_name h) k w) = (Ok (), ?w)"
      using D(6) [of k] by (simp add: prod_eq_iff)
    have "rk_cf_handle E (rs_name h) ?w" using Cons.prems(1) by (simp add: D(9))
    from Cons.IH [OF this] Cons.prems(2) obtain w' where
      w': "rocks_purge_loop E h (map Ok items) ?w = (Ok (), w')"
      "\<forall>cf. rk_cf_handle E cf w' = rk_cf_handle E cf ?w"
      "rows (rs_name h) w' = filter (\<lambda>p. fst p \<notin> fst ` set (own_rows h items)) (rows (rs_name h) ?w)"
      "\<forall>cf. cf \<noteq> rs_name h \<longrightarrow> rows cf w' = rows cf ?w"
      by auto
    have "rows (rs_name h) w' = filter (\<lambda>p. fst p \<notin> fst ` set (own_rows h ((k, v) # items))) (rows (rs_name h) w)"
      unfolding w'(3) D(7) bt_remove_def using True by (simp add: own_rows_def)
    with w' True Cons.prems(2) p del D(9,11) show ?thesis by simp
  qed
qed

lemma rocks_purge_eq:
  assumes laws: "rocks_laws E rows" and valid: "rocks_svalid E rows h w"
  shows "\<exists>w'. rocks_purge E h w = (Ok (), w') \<and> (\<forall>cf. rk_cf_handle E cf w' = rk_cf_handle E cf w) \<and>
    rows (rs_name h) w' = filter (\<lambda>p. \<not> starts_with (fst p) (rs_prefix h)) (rows (rs_name h) w) \<and>
    (\<forall>cf. cf \<noteq> rs_name h \<longrightarrow> rows cf w' = rows cf w)"
proof -
  have cf: "rk_cf_handle E (rs_name h) w" and u: "\<forall>p \<in> set (rows (rs_name h) w). utf8_ok (fst p)"
    using valid by (auto simp: rocks_svalid_def)
  have "filter (\<lambda>p. fst p \<notin> fst ` set (own_rows h (rows (rs_name h) w))) (rows (rs_name h) w) =
      filter (\<lambda>p. \<not> starts_with (fst p) (rs_prefix h)) (rows (rs_name h) w)"
    by (rule filter_cong) (auto simp: own_rows_def)
  with rocks_purge_loop_eq [OF laws cf u] cf show ?thesis
    by (simp add: rocks_purge_def rocks_lawsD(3) [OF laws cf])
qed

lemma rocks_iter_items_eq:
  assumes "\<forall>p \<in> set items. utf8_ok (fst p) \<and>
    (starts_with (fst p) (rs_prefix h) \<longrightarrow> (\<exists>j. key_ok j \<and> fst p = rocks_key h j))"
  shows "rocks_iter_items h (map Ok items) =
    iter_of_list (map (apfst (drop (Suc (length (rs_prefix h))))) (own_rows h items))"
  using assms
proof (induction items)
  case (Cons p items)
  obtain k v where p: "p = (k, v)" by fastforce
  show ?case
  proof (cases "starts_with k (rs_prefix h)")
    case True
    with Cons.prems p obtain j where "key_ok j" "k = rocks_key h j" by auto
    with Cons True p show ?thesis by (simp add: own_rows_def slice_rocks_key)
  qed (use Cons p in \<open>simp add: own_rows_def\<close>)
qed (simp add: own_rows_def)

lemma rocks_iter_eq:
  assumes laws: "rocks_laws E rows" and valid: "rocks_cvalid E rows h w"
  shows "rocks_iter E h r w = iter_of_list (if r then rev (rocks_entries rows h w) else rocks_entries rows h w)"
proof -
  have cf: "rk_cf_handle E (rs_name h) w" using valid by (simp add: rocks_cvalid_def)
  have "own_rows h (rev rs) = rev (own_rows h rs)" for rs by (simp add: own_rows_def rev_filter)
  with rocks_iter_items_eq [of "if r then rev (rows (rs_name h) w) else rows (rs_name h) w" h] valid show ?thesis
    by (simp add: rocks_iter_def cf rocks_lawsD(3) [OF laws cf] rocks_entries_def rocks_cvalid_def rev_map)
qed

section \<open>The contracts\<close>

lemmas rocks_ops = rocks_collection_def rocks_state_def rocks_manager_def rocks_coll_get_def
  rocks_coll_put_def rocks_coll_del_def rocks_state_get_def rocks_state_put_def rocks_state_del_def

lemma rocks_cvalid_svalid: "rocks_cvalid E rows h w \<Longrightarrow> rocks_svalid E rows h w"
  by (auto simp: rocks_cvalid_def rocks_svalid_def)

lemma rocks_entries_ok:
  assumes "rocks_laws E rows" "rocks_cvalid E rows h w"
  shows "bt_ok (rocks_entries rows h w)"
proof -
  have "bt_ok (own_rows h (rows (rs_name h) w))"
    using assms rocks_lawsD(1) [of E rows "rs_name h" w] by (simp add: own_rows_def bt_ok_filter rocks_cvalid_def)
  then show ?thesis by (simp add: own_rows_entries [OF assms(2)] bt_ok_map_key)
qed

lemma rocks_entries_from:
  "own_rows h (rows (rs_name h) w') = map (apfst (rocks_key h)) es \<Longrightarrow> rocks_entries rows h w' = es"
  by (auto simp: rocks_entries_def comp_def intro: map_idI)

lemma rocks_put_facts:
  fixes v :: bytes
  assumes laws: "rocks_laws E rows" and valid: "rocks_cvalid E rows h w" and k: "key_ok k"
  defines "w' \<equiv> snd (rk_put_cf E (rs_name h) (rocks_key h k) v w)"
  shows "rocks_cvalid E rows h w'" "rocks_entries rows h w' = bt_insert k v (rocks_entries rows h w)"
proof -
  have cf: "rk_cf_handle E (rs_name h) w" and pf: "utf8_ok (rs_prefix h)"
    using valid by (auto simp: rocks_cvalid_def)
  note D = rocks_lawsD [OF laws cf]
  have rows: "rows (rs_name h) w' = bt_insert (rocks_key h k) v (rows (rs_name h) w)" by (simp add: w'_def D(5))
  have "rk_cf_handle E (rs_name h) w'" by (simp add: w'_def D(8) cf)
  with valid show "rocks_cvalid E rows h w'"
    using utf8_ok_rocks_key [OF pf k] k
    by (auto simp: rocks_cvalid_def rows set_bt_insert [OF D(1)])
  have "own_rows h (rows (rs_name h) w') = bt_insert (rocks_key h k) v (own_rows h (rows (rs_name h) w))"
    unfolding rows by (rule own_rows_insert [OF D(1)]) simp
  also have "\<dots> = map (apfst (rocks_key h)) (bt_insert k v (rocks_entries rows h w))"
    unfolding own_rows_entries [OF valid] by (rule bt_insert_map_key) (simp_all add: rocks_entries_ok [OF laws valid])
  finally show "rocks_entries rows h w' = bt_insert k v (rocks_entries rows h w)" by (rule rocks_entries_from)
qed

lemma rocks_del_facts:
  fixes k :: string
  assumes laws: "rocks_laws E rows" and valid: "rocks_cvalid E rows h w"
  defines "w' \<equiv> snd (rk_delete_cf E (rs_name h) (rocks_key h k) w)"
  shows "rocks_cvalid E rows h w'" "rocks_entries rows h w' = bt_remove k (rocks_entries rows h w)"
proof -
  have cf: "rk_cf_handle E (rs_name h) w" using valid by (auto simp: rocks_cvalid_def)
  note D = rocks_lawsD [OF laws cf]
  have rows: "rows (rs_name h) w' = bt_remove (rocks_key h k) (rows (rs_name h) w)" by (simp add: w'_def D(7))
  have "rk_cf_handle E (rs_name h) w'" by (simp add: w'_def D(9) cf)
  with valid show "rocks_cvalid E rows h w'" by (auto simp: rocks_cvalid_def rows bt_remove_def)
  have "own_rows h (rows (rs_name h) w') = map (apfst (rocks_key h)) (bt_remove k (rocks_entries rows h w))"
    unfolding rows own_rows_remove own_rows_entries [OF valid] by (rule bt_remove_map_key) simp
  then show "rocks_entries rows h w' = bt_remove k (rocks_entries rows h w)" by (rule rocks_entries_from)
qed

lemma rocks_sput_facts:
  fixes v :: bytes
  assumes laws: "rocks_laws E rows" and valid: "rocks_svalid E rows h w"
  defines "w' \<equiv> snd (rk_put_cf E (rs_name h) (rs_prefix h) v w)"
  shows "rocks_svalid E rows h w'" "rocks_content rows h w' = Some v"
proof -
  have cf: "rk_cf_handle E (rs_name h) w" and pf: "utf8_ok (rs_prefix h)"
    using valid by (auto simp: rocks_svalid_def)
  note D = rocks_lawsD [OF laws cf]
  have rows: "rows (rs_name h) w' = bt_insert (rs_prefix h) v (rows (rs_name h) w)" by (simp add: w'_def D(5))
  have "rk_cf_handle E (rs_name h) w'" by (simp add: w'_def D(8) cf)
  with valid pf show "rocks_svalid E rows h w'" by (auto simp: rocks_svalid_def rows set_bt_insert [OF D(1)])
  show "rocks_content rows h w' = Some v" by (simp add: rocks_content_def rows map_of_bt_insert D(1))
qed

lemma rocks_sdel_facts:
  assumes laws: "rocks_laws E rows" and valid: "rocks_svalid E rows h w"
  defines "w' \<equiv> snd (rk_delete_cf E (rs_name h) (rs_prefix h) w)"
  shows "rocks_svalid E rows h w'" "rocks_content rows h w' = None"
proof -
  have cf: "rk_cf_handle E (rs_name h) w" using valid by (auto simp: rocks_svalid_def)
  note D = rocks_lawsD [OF laws cf]
  have rows: "rows (rs_name h) w' = bt_remove (rs_prefix h) (rows (rs_name h) w)" by (simp add: w'_def D(7))
  have "rk_cf_handle E (rs_name h) w'" by (simp add: w'_def D(9) cf)
  with valid show "rocks_svalid E rows h w'" by (auto simp: rocks_svalid_def rows bt_remove_def)
  show "rocks_content rows h w' = None" by (auto simp: rocks_content_def rows bt_remove_def map_of_eq_None_iff)
qed

lemma rocks_purge_facts:
  assumes "rocks_laws E rows" "rocks_svalid E rows h w"
  shows "fst (rocks_purge E h w) = Ok ()" "rocks_svalid E rows h (snd (rocks_purge E h w))"
    "rocks_cvalid E rows h w \<Longrightarrow> rocks_cvalid E rows h (snd (rocks_purge E h w))"
    "rocks_entries rows h (snd (rocks_purge E h w)) = []"
    "rocks_content rows h (snd (rocks_purge E h w)) = None"
    "rk_cf_handle E cf (snd (rocks_purge E h w)) = rk_cf_handle E cf w"
    "cf \<noteq> rs_name h \<Longrightarrow> rows cf (snd (rocks_purge E h w)) = rows cf w"
proof -
  obtain w' where w': "rocks_purge E h w = (Ok (), w')" "\<And>cf. rk_cf_handle E cf w' = rk_cf_handle E cf w"
    "rows (rs_name h) w' = filter (\<lambda>p. \<not> starts_with (fst p) (rs_prefix h)) (rows (rs_name h) w)"
    "\<And>cf. cf \<noteq> rs_name h \<Longrightarrow> rows cf w' = rows cf w"
    using rocks_purge_eq [OF assms] by blast
  show "fst (rocks_purge E h w) = Ok ()" using w'(1) by simp
  show "rocks_svalid E rows h (snd (rocks_purge E h w))" using w'(1-3) assms(2) by (auto simp: rocks_svalid_def)
  show "rocks_cvalid E rows h w \<Longrightarrow> rocks_cvalid E rows h (snd (rocks_purge E h w))"
    using w'(1-3) by (auto simp: rocks_cvalid_def)
  show "rocks_entries rows h (snd (rocks_purge E h w)) = []"
    using w'(1,3) by (simp add: rocks_entries_def own_rows_def)
  show "rocks_content rows h (snd (rocks_purge E h w)) = None"
    using w'(1,3) by (auto simp: rocks_content_def map_of_eq_None_iff starts_with_def)
  show "rk_cf_handle E cf (snd (rocks_purge E h w)) = rk_cf_handle E cf w" using w'(1,2) by simp
  show "cf \<noteq> rs_name h \<Longrightarrow> rows cf (snd (rocks_purge E h w)) = rows cf w" using w'(1,4) by simp
qed

lemma rocks_valid_cong:
  assumes "rows (rs_name h) w' = rows (rs_name h) w" "rk_cf_handle E (rs_name h) w' = rk_cf_handle E (rs_name h) w"
  shows "rocks_cvalid E rows h w' = rocks_cvalid E rows h w" "rocks_svalid E rows h w' = rocks_svalid E rows h w"
  using assms by (simp_all add: rocks_cvalid_def rocks_svalid_def)

text \<open>The handles of one actor: the column families of its events and of its snapshots.\<close>

definition rocks_opened ::
  "'w rocks_engine \<Rightarrow> (string \<Rightarrow> 'w \<Rightarrow> (string \<times> bytes) list) \<Rightarrow> string \<Rightarrow> string \<Rightarrow>
   RocksDbStore \<Rightarrow> RocksDbStore \<Rightarrow> 'w \<Rightarrow> bool" where
  "rocks_opened E rows name pfx c s w \<longleftrightarrow>
     c = \<lparr>rs_name = name @ ''_events'', rs_prefix = pfx\<rparr> \<and>
     s = \<lparr>rs_name = name @ ''_states'', rs_prefix = pfx\<rparr> \<and>
     rocks_cvalid E rows c w \<and> rocks_svalid E rows s w"

lemma rocks_collection_laws:
  assumes laws: "rocks_laws E rows"
  shows "collection_laws (rocks_collection E) (rocks_cvalid E rows) (rocks_entries rows)"
proof
  fix h w assume v: "rocks_cvalid E rows h w"
  then have cf: "rk_cf_handle E (rs_name h) w" by (simp add: rocks_cvalid_def)
  note purge = rocks_purge_facts [OF laws rocks_cvalid_svalid [OF v]]
  show "bt_ok (rocks_entries rows h w)" by (rule rocks_entries_ok [OF laws v])
  show "coll_get (rocks_collection E) h k w =
      (case map_of (rocks_entries rows h w) k of None \<Rightarrow> Err no_rows | Some v \<Rightarrow> Ok v)" for k
  proof -
    have "map_of (rows (rs_name h) w) (rocks_key h k) = map_of (rocks_entries rows h w) k"
      using map_of_own_rows [of "rocks_key h k" h "rows (rs_name h) w"]
      by (simp add: own_rows_entries [OF v] map_of_map_key)
    then show ?thesis by (simp add: rocks_ops rocks_get_eq [OF laws cf])
  qed
  show "fst (coll_put (rocks_collection E) h k u w) = Ok ()" for k u
    by (simp add: rocks_ops rocks_put_eq [OF laws cf])
  show "rocks_cvalid E rows h (snd (coll_put (rocks_collection E) h k u w))" if "key_ok k" for k u
    using rocks_put_facts(1) [OF laws v that] by (simp add: rocks_ops rocks_put_eq [OF laws cf])
  show "rocks_entries rows h (snd (coll_put (rocks_collection E) h k u w)) =
      bt_insert k u (rocks_entries rows h w)" if "key_ok k" for k u
    using rocks_put_facts(2) [OF laws v that] by (simp add: rocks_ops rocks_put_eq [OF laws cf])
  show "fst (coll_del (rocks_collection E) h k w) = Ok ()" for k
    by (simp add: rocks_ops rocks_del_eq [OF laws cf])
  show "rocks_cvalid E rows h (snd (coll_del (rocks_collection E) h k w))" for k
    using rocks_del_facts(1) [OF laws v] by (simp add: rocks_ops rocks_del_eq [OF laws cf])
  show "rocks_entries rows h (snd (coll_del (rocks_collection E) h k w)) =
      bt_remove k (rocks_entries rows h w)" for k
    using rocks_del_facts(2) [OF laws v] by (simp add: rocks_ops rocks_del_eq [OF laws cf])
  show "fst (coll_purge (rocks_collection E) h w) = Ok ()"
    "rocks_cvalid E rows h (snd (coll_purge (rocks_collection E) h w))"
    "rocks_entries rows h (snd (coll_purge (rocks_collection E) h w)) = []"
    using purge(1,3,4) v by (simp_all add: rocks_ops)
  show "coll_iter (rocks_collection E) h r w =
      iter_of_list (if r then rev (rocks_entries rows h w) else rocks_entries rows h w)" for r
    by (simp add: rocks_ops rocks_iter_eq [OF laws v])
qed

lemma rocks_state_laws:
  assumes laws: "rocks_laws E rows"
  shows "state_laws (rocks_state E) (rocks_svalid E rows) (rocks_content rows)"
proof
  fix h w assume v: "rocks_svalid E rows h w"
  then have cf: "rk_cf_handle E (rs_name h) w" by (simp add: rocks_svalid_def)
  note put = rocks_sput_facts [OF laws v] and del = rocks_sdel_facts [OF laws v]
    and purge = rocks_purge_facts [OF laws v]
  show "state_get (rocks_state E) h w =
      (case rocks_content rows h w of None \<Rightarrow> Err no_rows | Some v \<Rightarrow> Ok v)"
    by (simp add: rocks_ops rocks_get_eq [OF laws cf] rocks_content_def)
  show "fst (state_put (rocks_state E) h u w) = Ok ()"
    "rocks_svalid E rows h (snd (state_put (rocks_state E) h u w))"
    "rocks_content rows h (snd (state_put (rocks_state E) h u w)) = Some u" for u
    using put by (simp_all add: rocks_ops rocks_put_eq [OF laws cf])
  show "rocks_svalid E rows h (snd (state_del (rocks_state E) h w))"
    "rocks_content rows h (snd (state_del (rocks_state E) h w)) = None"
    using del by (simp_all add: rocks_ops rocks_del_eq [OF laws cf])
  show "fst (state_purge (rocks_state E) h w) = Ok ()"
    "rocks_svalid E rows h (snd (state_purge (rocks_state E) h w))"
    "rocks_content rows h (snd (state_purge (rocks_state E) h w)) = None"
    using purge(1,2,5) by (simp_all add: rocks_ops)
qed

text \<open>Opened side by side, the two storages of an actor do not interfere, and opening them again finds
  the same data.\<close>

lemma rocks_opened_frame:
  assumes "rocks_opened E rows name pfx c s w"
    and "rocks_cvalid E rows c w'" "rows (rs_name s) w' = rows (rs_name s) w"
    "rk_cf_handle E (rs_name s) w' = rk_cf_handle E (rs_name s) w"
  shows "rocks_opened E rows name pfx c s w'" "rocks_content rows s w' = rocks_content rows s w"
  using assms rocks_valid_cong(2) [of rows s w' w E, OF assms(3,4)] by (auto simp: rocks_opened_def rocks_content_def)

lemma rocks_opened_sframe:
  assumes "rocks_opened E rows name pfx c s w"
    and "rocks_svalid E rows s w'" "rows (rs_name c) w' = rows (rs_name c) w"
    "rk_cf_handle E (rs_name c) w' = rk_cf_handle E (rs_name c) w"
  shows "rocks_opened E rows name pfx c s w'" "rocks_entries rows c w' = rocks_entries rows c w"
  using assms rocks_valid_cong(1) [of rows c w' w E, OF assms(3,4)] by (auto simp: rocks_opened_def rocks_entries_def)

lemma rocks_openedD:
  assumes "rocks_opened E rows name pfx c s w"
  shows "rocks_cvalid E rows c w" "rocks_svalid E rows s w" "rk_cf_handle E (rs_name c) w"
    "rk_cf_handle E (rs_name s) w" "rs_name c \<noteq> rs_name s" "rs_name s \<noteq> rs_name c"
proof -
  show "rocks_cvalid E rows c w" "rocks_svalid E rows s w" "rs_name c \<noteq> rs_name s" "rs_name s \<noteq> rs_name c"
    using assms by (auto simp: rocks_opened_def)
  then show "rk_cf_handle E (rs_name c) w" "rk_cf_handle E (rs_name s) w"
    by (simp_all add: rocks_cvalid_def rocks_svalid_def)
qed

lemma rocks_coll_put_frame:
  assumes laws: "rocks_laws E rows" and op: "rocks_opened E rows name pfx c s w"
  shows "key_ok k \<Longrightarrow> rocks_opened E rows name pfx c s (snd (coll_put (rocks_collection E) c k v w))"
    "rocks_content rows s (snd (coll_put (rocks_collection E) c k v w)) = rocks_content rows s w"
proof -
  note o = rocks_openedD [OF op]
  show "rocks_opened E rows name pfx c s (snd (coll_put (rocks_collection E) c k v w))" if "key_ok k"
    using rocks_opened_frame(1) [OF op rocks_put_facts(1) [OF laws o(1) that, of v]]
    by (simp add: rocks_ops rocks_put_eq [OF laws o(3)] rocks_lawsD [OF laws o(3)] o(6))
  show "rocks_content rows s (snd (coll_put (rocks_collection E) c k v w)) = rocks_content rows s w"
    by (simp add: rocks_ops rocks_put_eq [OF laws o(3)] rocks_content_def rocks_lawsD [OF laws o(3)] o(6))
qed

lemma rocks_coll_purge_frame:
  assumes laws: "rocks_laws E rows" and op: "rocks_opened E rows name pfx c s w"
  shows "rocks_opened E rows name pfx c s (snd (coll_purge (rocks_collection E) c w))"
    "rocks_content rows s (snd (coll_purge (rocks_collection E) c w)) = rocks_content rows s w"
proof -
  note o = rocks_openedD [OF op]
  note purge = rocks_purge_facts [OF laws rocks_cvalid_svalid [OF o(1)]]
  from rocks_opened_frame [OF op purge(3) [OF o(1)] purge(7) [OF o(6)] purge(6)]
  show "rocks_opened E rows name pfx c s (snd (coll_purge (rocks_collection E) c w))"
    "rocks_content rows s (snd (coll_purge (rocks_collection E) c w)) = rocks_content rows s w"
    by (simp_all add: rocks_ops)
qed

lemma rocks_state_put_frame:
  assumes laws: "rocks_laws E rows" and op: "rocks_opened E rows name pfx c s w"
  shows "rocks_opened E rows name pfx c s (snd (state_put (rocks_state E) s v w))"
    "rocks_entries rows c (snd (state_put (rocks_state E) s v w)) = rocks_entries rows c w"
proof -
  note o = rocks_openedD [OF op]
  from rocks_opened_sframe [OF op rocks_sput_facts(1) [OF laws o(2), of v]]
  show "rocks_opened E rows name pfx c s (snd (state_put (rocks_state E) s v w))"
    "rocks_entries rows c (snd (state_put (rocks_state E) s v w)) = rocks_entries rows c w"
    by (simp_all add: rocks_ops rocks_put_eq [OF laws o(4)] rocks_lawsD [OF laws o(4)] o(5))
qed

lemma rocks_state_purge_frame:
  assumes laws: "rocks_laws E rows" and op: "rocks_opened E rows name pfx c s w"
  shows "rocks_opened E rows name pfx c s (snd (state_purge (rocks_state E) s w))"
    "rocks_entries rows c (snd (state_purge (rocks_state E) s w)) = rocks_entries rows c w"
proof -
  note o = rocks_openedD [OF op]
  note purge = rocks_purge_facts [OF laws o(2)]
  from rocks_opened_sframe [OF op purge(2) purge(7) [OF o(5)] purge(6)]
  show "rocks_opened E rows name pfx c s (snd (state_purge (rocks_state E) s w))"
    "rocks_entries rows c (snd (state_purge (rocks_state E) s w)) = rocks_entries rows c w"
    by (simp_all add: rocks_ops)
qed

lemma rocks_reopen:
  assumes "rocks_opened E rows name pfx c s w"
  shows "create_collection (rocks_manager E) (name @ ''_events'') pfx w = (Ok c, w)"
    "create_state (rocks_manager E) (name @ ''_states'') pfx w = (Ok s, w)"
  using assms by (auto simp: rocks_opened_def rocks_cvalid_def rocks_svalid_def rocks_ops rocks_create_def)

lemma rocks_backend:
  assumes laws: "rocks_laws E rows"
  shows "reopenable_backend (rocks_collection E) (rocks_cvalid E rows) (rocks_entries rows)
    (rocks_state E) (rocks_svalid E rows) (rocks_content rows) (rocks_opened E rows name pfx)
    (rocks_manager E) name pfx"
  by (intro reopenable_backend.intro store_backend.intro store_backend_axioms.intro
      reopenable_backend_axioms.intro rocks_collection_laws [OF laws] rocks_state_laws [OF laws])
    (simp_all add: rocks_openedD(1,2) rocks_coll_put_frame [OF laws] rocks_coll_purge_frame [OF laws]
      rocks_state_put_frame [OF laws] rocks_state_purge_frame [OF laws] rocks_reopen)

text \<open>The first opening of an actor's storages: a column family is created unless another actor has done
  that, and no key is one of the new actor.\<close>

definition rocks_fresh ::
  "'w rocks_engine \<Rightarrow> (string \<Rightarrow> 'w \<Rightarrow> (string \<times> bytes) list) \<Rightarrow> string \<Rightarrow> string \<Rightarrow> 'w \<Rightarrow> bool" where
  "rocks_fresh E rows name pfx w \<longleftrightarrow> utf8_ok pfx \<and>
     (rk_cf_handle E (name @ ''_events'') w \<longrightarrow>
        (\<forall>p \<in> set (rows (name @ ''_events'') w). utf8_ok (fst p) \<and> \<not> starts_with (fst p) pfx)) \<and>
     (rk_cf_handle E (name @ ''_states'') w \<longrightarrow>
        (\<forall>p \<in> set (rows (name @ ''_states'') w). utf8_ok (fst p) \<and> fst p \<noteq> pfx))"

lemma rocks_create_rows:
  assumes laws: "rocks_laws E rows"
  obtains w' where "rocks_create E n pfx w = (Ok \<lparr>rs_name = n, rs_prefix = pfx\<rparr>, w')" "rk_cf_handle E n w'"
    "rows n w' = (if rk_cf_handle E n w then rows n w else [])"
    "\<And>cf. cf \<noteq> n \<Longrightarrow> rk_cf_handle E cf w' = rk_cf_handle E cf w" "\<And>cf. cf \<noteq> n \<Longrightarrow> rows cf w' = rows cf w"
proof (cases "rk_cf_handle E n w")
  case True
  then show ?thesis by (intro that [of w]) (simp_all add: rocks_create_def)
next
  case False
  note D = rocks_lawsD_create [OF laws False]
  have "rocks_create E n pfx w = (Ok \<lparr>rs_name = n, rs_prefix = pfx\<rparr>, snd (rk_create_cf E n w))"
    using D(1) False by (cases "rk_create_cf E n w") (simp add: rocks_create_def)
  then show ?thesis using False D by (intro that [of "snd (rk_create_cf E n w)"]) simp_all
qed

lemma rocks_open_fresh:
  assumes laws: "rocks_laws E rows" and fresh: "rocks_fresh E rows name pfx w"
  shows "\<exists>c s w1 w2. create_collection (rocks_manager E) (name @ ''_events'') pfx w = (Ok c, w1) \<and>
    create_state (rocks_manager E) (name @ ''_states'') pfx w1 = (Ok s, w2) \<and>
    rocks_opened E rows name pfx c s w2 \<and> rocks_entries rows c w2 = [] \<and> rocks_content rows s w2 = None"
proof -
  let ?e = "name @ ''_events''" and ?s = "name @ ''_states''"
  obtain w1 where w1: "rocks_create E ?e pfx w = (Ok \<lparr>rs_name = ?e, rs_prefix = pfx\<rparr>, w1)" "rk_cf_handle E ?e w1"
    "rows ?e w1 = (if rk_cf_handle E ?e w then rows ?e w else [])"
    "rk_cf_handle E ?s w1 = rk_cf_handle E ?s w" "rows ?s w1 = rows ?s w"
    by (rule rocks_create_rows [OF laws, of ?e pfx w]) simp_all
  obtain w2 where w2: "rocks_create E ?s pfx w1 = (Ok \<lparr>rs_name = ?s, rs_prefix = pfx\<rparr>, w2)" "rk_cf_handle E ?s w2"
    "rows ?s w2 = (if rk_cf_handle E ?s w1 then rows ?s w1 else [])"
    "rk_cf_handle E ?e w2 = rk_cf_handle E ?e w1" "rows ?e w2 = rows ?e w1"
    by (rule rocks_create_rows [OF laws, of ?s pfx w1]) simp_all
  have e: "\<forall>p \<in> set (rows ?e w2). utf8_ok (fst p) \<and> \<not> starts_with (fst p) pfx"
    and s: "\<forall>p \<in> set (rows ?s w2). utf8_ok (fst p) \<and> fst p \<noteq> pfx" and pfx: "utf8_ok pfx"
    using fresh w1(3-5) w2(3,5) by (auto simp: rocks_fresh_def split: if_splits)
  have "rocks_opened E rows name pfx \<lparr>rs_name = ?e, rs_prefix = pfx\<rparr> \<lparr>rs_name = ?s, rs_prefix = pfx\<rparr> w2"
    using e s pfx w1(2) w2(2,4) by (simp add: rocks_opened_def rocks_cvalid_def rocks_svalid_def)
  moreover have "own_rows \<lparr>rs_name = ?e, rs_prefix = pfx\<rparr> (rows ?e w2) = []" "map_of (rows ?s w2) pfx = None"
    using e s by (auto simp: own_rows_def filter_empty_conv map_of_eq_None_iff)
  ultimately show ?thesis
    using w1(1) w2(1) by (simp add: rocks_manager_def rocks_entries_def rocks_content_def)
qed

lemma rocks_new_backend:
  assumes laws: "rocks_laws E rows"
  shows "fresh_backend (rocks_collection E) (rocks_cvalid E rows) (rocks_entries rows)
    (rocks_state E) (rocks_svalid E rows) (rocks_content rows) (rocks_opened E rows name pfx)
    (rocks_manager E) name pfx (rocks_fresh E rows name pfx)"
  by (intro fresh_backend.intro fresh_backend_axioms.intro rocks_backend [OF laws] rocks_open_fresh [OF laws])

end
