(* ===== verification/Sql_Tables.thy ===== *)
theory Sql_Tables
  imports Rush_Errors "HOL-Library.Multiset"
begin

text \<open>
  The fragment of SQL that a client of SQLite may send to a table whose key columns are texts and which
  has one more column \<open>value\<close>: the text of a statement for any table, any key columns and any
  condition \<open>c1 = ?1 AND c2 = ?2\<close> on them, and its meaning on the rows of the table. Nothing here
  knows which statements \<open>sqlite.rs\<close> sends; a statement with a condition fewer is as good a statement
  and has another meaning.

  The engine is the record of the calls made on a \<open>Connection\<close>; \<open>sqlite_laws\<close> says that it executes the
  fragment with that meaning. Of the order of rows it promises only what \<open>ORDER BY\<close> asks for, and of a
  query for one row only that the row satisfies the condition.
\<close>

datatype sql_value = SqlText string | SqlBlob bytes

record 'd sqlite_engine =
  sq_execute :: "string \<Rightarrow> sql_value list \<Rightarrow> 'd \<Rightarrow> (nat, string) outcome \<times> 'd"
  sq_query_row :: "string \<Rightarrow> sql_value list \<Rightarrow> 'd \<Rightarrow> (bytes, string) outcome"
  sq_query :: "string \<Rightarrow> sql_value list \<Rightarrow> 'd \<Rightarrow> ((string \<times> bytes, string) outcome list, string) outcome"

section \<open>The texts\<close>

fun separated :: "string \<Rightarrow> string list \<Rightarrow> string" where
  "separated s [] = []"
| "separated s [x] = x"
| "separated s (x # y # xs) = x @ s @ separated s (y # xs)"

definition placeholders :: "string list" where
  "placeholders = [''?1'', ''?2'', ''?3'']"

definition where_text :: "string list \<Rightarrow> string" where
  "where_text cs =
     (if cs = [] then []
      else '' WHERE '' @ separated '' AND '' (map (\<lambda>(c, q). c @ '' = '' @ q) (zip cs placeholders)))"

definition order_text :: "string \<Rightarrow> bool \<Rightarrow> string" where
  "order_text c reverse = '' ORDER BY '' @ c @ (if reverse then '' DESC'' else '' ASC'')"

definition select_text :: "string list \<Rightarrow> string \<Rightarrow> string list \<Rightarrow> string" where
  "select_text cols t cs = ''SELECT '' @ separated '', '' cols @ '' FROM '' @ t @ where_text cs"

definition delete_text :: "string \<Rightarrow> string list \<Rightarrow> string" where
  "delete_text t cs = ''DELETE FROM '' @ t @ where_text cs"

definition insert_text :: "string \<Rightarrow> string list \<Rightarrow> string" where
  "insert_text t cols =
     ''INSERT OR REPLACE INTO '' @ t @ '' ('' @ separated '', '' cols @ '') VALUES ('' @
     separated '', '' (take (length cols) placeholders) @ '')''"

definition create_text :: "string \<Rightarrow> string list \<Rightarrow> string" where
  "create_text t keys =
     ''CREATE TABLE IF NOT EXISTS '' @ t @ '' ('' @ concat (map (\<lambda>c. c @ '' TEXT NOT NULL, '') keys) @
     ''value BLOB NOT NULL, PRIMARY KEY ('' @ separated '', '' keys @ ''))''"

lemmas sql_texts = where_text_def order_text_def select_text_def delete_text_def insert_text_def
  create_text_def placeholders_def

section \<open>The meaning\<close>

text \<open>A row is the values of the key columns and the value; the rows of a table are sorted by the key, which
  is unique.\<close>

type_synonym sql_row = "string list \<times> bytes"

definition rows_ok :: "string list \<Rightarrow> sql_row list \<Rightarrow> bool" where
  "rows_ok keys rows \<longleftrightarrow> bt_ok rows \<and> (\<forall>r \<in> set rows. length (fst r) = length keys)"

definition column :: "string list \<Rightarrow> string \<Rightarrow> sql_row \<Rightarrow> string option" where
  "column keys c r = map_of (zip keys (fst r)) c"

text \<open>The condition that each column of \<open>cs\<close> has the value in \<open>vs\<close>.\<close>

definition satisfies :: "string list \<Rightarrow> string list \<Rightarrow> string list \<Rightarrow> sql_row \<Rightarrow> bool" where
  "satisfies keys cs vs r \<longleftrightarrow> map (\<lambda>c. column keys c r) cs = map Some vs"

definition condition_ok :: "string list \<Rightarrow> string list \<Rightarrow> string list \<Rightarrow> bool" where
  "condition_ok keys cs vs \<longleftrightarrow> distinct cs \<and> set cs \<subseteq> set keys \<and> length vs = length cs"

text \<open>A view of the database: the key columns of a table (\<open>None\<close> if there is no table of that name) and its
  rows.\<close>

record 'd sql_view =
  v_keys :: "string \<Rightarrow> 'd \<Rightarrow> string list option"
  v_rows :: "string \<Rightarrow> 'd \<Rightarrow> sql_row list"

definition table_becomes :: "'d sql_view \<Rightarrow> string \<Rightarrow> sql_row list \<Rightarrow> 'd \<Rightarrow> 'd \<Rightarrow> bool" where
  "table_becomes V t rows d d' \<longleftrightarrow>
     (\<forall>t'. v_keys V t' d' = v_keys V t' d) \<and> v_rows V t d' = rows \<and>
     (\<forall>t'. t' \<noteq> t \<longrightarrow> v_rows V t' d' = v_rows V t' d)"

definition executes :: "'d sqlite_engine \<Rightarrow> string \<Rightarrow> sql_value list \<Rightarrow> 'd \<Rightarrow> ('d \<Rightarrow> bool) \<Rightarrow> bool" where
  "executes E stmt params d post \<longleftrightarrow> (\<exists>n d'. sq_execute E stmt params d = (Ok n, d') \<and> post d')"

definition one_row :: "bytes option \<Rightarrow> (bytes, string) outcome" where
  "one_row x = (case x of Some v \<Rightarrow> Ok v | None \<Rightarrow> Err ''Query returned no rows'')"

definition answers_one :: "sql_row list \<Rightarrow> (bytes, string) outcome \<Rightarrow> bool" where
  "answers_one rows res \<longleftrightarrow> (if rows = [] then res = one_row None else \<exists>r \<in> set rows. res = one_row (Some (snd r)))"

definition answers_ordered ::
  "string list \<Rightarrow> string \<Rightarrow> bool \<Rightarrow> sql_row list \<Rightarrow> ((string \<times> bytes, string) outcome list, string) outcome \<Rightarrow> bool"
where
  "answers_ordered keys c reverse rows res \<longleftrightarrow>
     (\<exists>rs. res = Ok (map (\<lambda>r. Ok (the (column keys c r), snd r)) rs) \<and> mset rs = mset rows \<and>
        sorted (map (\<lambda>r. the (column keys c r)) (if reverse then rev rs else rs)))"

definition sqlite_laws :: "'d sqlite_engine \<Rightarrow> 'd sql_view \<Rightarrow> bool" where
  "sqlite_laws E V \<longleftrightarrow>
     (\<forall>t keys d. v_keys V t d = Some keys \<longrightarrow>
        rows_ok keys (v_rows V t d) \<and>
        (\<forall>cs vs. condition_ok keys cs vs \<longrightarrow>
           answers_one (filter (satisfies keys cs vs) (v_rows V t d))
             (sq_query_row E (select_text [''value''] t cs) (map SqlText vs) d) \<and>
           (\<forall>c \<in> set keys. \<forall>reverse.
              answers_ordered keys c reverse (filter (satisfies keys cs vs) (v_rows V t d))
                (sq_query E (select_text [c, ''value''] t cs @ order_text c reverse) (map SqlText vs) d)) \<and>
           executes E (delete_text t cs) (map SqlText vs) d
             (table_becomes V t (filter (\<lambda>r. \<not> satisfies keys cs vs r) (v_rows V t d)) d)) \<and>
        (\<forall>ks v. length ks = length keys \<longrightarrow>
           executes E (insert_text t (keys @ [''value''])) (map SqlText ks @ [SqlBlob v]) d
             (table_becomes V t (bt_insert ks v (v_rows V t d)) d)) \<and>
        executes E (create_text t keys) [] d ((=) d))"

text \<open>What \<open>CREATE TABLE\<close> does when there is no table of that name.\<close>

definition sqlite_creates :: "'d sqlite_engine \<Rightarrow> 'd sql_view \<Rightarrow> string \<Rightarrow> string list \<Rightarrow> bool" where
  "sqlite_creates E V t keys \<longleftrightarrow>
     (\<forall>d. v_keys V t d = None \<longrightarrow>
        executes E (create_text t keys) [] d (\<lambda>d'. v_keys V t d' = Some keys \<and> v_rows V t d' = []))"

lemma sqlite_lawsD:
  assumes "sqlite_laws E V" "v_keys V t d = Some keys"
  shows "rows_ok keys (v_rows V t d)"
    "condition_ok keys cs vs \<Longrightarrow> answers_one (filter (satisfies keys cs vs) (v_rows V t d))
       (sq_query_row E (select_text [''value''] t cs) (map SqlText vs) d)"
    "condition_ok keys cs vs \<Longrightarrow> c \<in> set keys \<Longrightarrow>
       answers_ordered keys c reverse (filter (satisfies keys cs vs) (v_rows V t d))
         (sq_query E (select_text [c, ''value''] t cs @ order_text c reverse) (map SqlText vs) d)"
    "condition_ok keys cs vs \<Longrightarrow> executes E (delete_text t cs) (map SqlText vs) d
       (table_becomes V t (filter (\<lambda>r. \<not> satisfies keys cs vs r) (v_rows V t d)) d)"
    "length ks = length keys \<Longrightarrow>
       executes E (insert_text t (keys @ [''value''])) (map SqlText ks @ [SqlBlob v]) d
         (table_becomes V t (bt_insert ks v (v_rows V t d)) d)"
    "executes E (create_text t keys) [] d ((=) d)"
  using assms unfolding sqlite_laws_def by blast+

section \<open>Rows\<close>

lemma filter_bt_insert:
  "bt_ok m \<Longrightarrow> filter (\<lambda>p. Q (fst p)) (bt_insert k v m) =
     (if Q k then bt_insert k v (filter (\<lambda>p. Q (fst p)) m) else filter (\<lambda>p. Q (fst p)) m)"
proof (induction m)
  case (Cons p m)
  let ?f = "filter (\<lambda>p. Q (fst p))"
  obtain k' v' where p: "p = (k', v')" by fastforce
  have ok: "bt_ok (?f (p # m))" "bt_ok (?f m)" using Cons.prems by (simp_all add: bt_ok_filter del: filter.simps)
  have "k < k' \<Longrightarrow> bt_insert k v (?f m) = (k, v) # ?f m"
    using Cons.prems p by (intro bt_insert_first) auto
  then show ?case using Cons ok by (cases "Q k'") (auto simp: p bt_insert_Cons)
qed simp

lemma answers_one_key:
  assumes "bt_ok rows" "answers_one (filter (\<lambda>r. fst r = k) rows) res"
  shows "res = one_row (map_of rows k)"
proof (cases "filter (\<lambda>r. fst r = k) rows")
  case Nil
  then have "map_of rows k = None" by (auto simp: filter_empty_conv map_of_eq_None_iff)
  with Nil assms(2) show ?thesis by (simp add: answers_one_def)
next
  case (Cons p ps)
  then have "filter (\<lambda>r. fst r = k) rows \<noteq> []" by simp
  with assms(2) have "\<exists>r \<in> set (filter (\<lambda>r. fst r = k) rows). res = one_row (Some (snd r))"
    by (simp only: answers_one_def if_False)
  then obtain r where r: "r \<in> set rows" "fst r = k" "res = one_row (Some (snd r))" by auto
  then have "map_of rows k = Some (snd r)"
    using bt_ok_distinct [OF assms(1)] by (intro map_of_is_SomeI) (auto simp: prod_eq_iff)
  with r(3) show ?thesis by simp
qed

text \<open>Two lists of the same rows, both sorted by a column that tells the rows apart.\<close>

lemma sorted_rows_unique:
  fixes f :: "'a \<Rightarrow> 'k::linorder"
  assumes "mset xs = mset ys" "sorted (map f xs)" "sorted (map f ys)" "distinct (map f ys)"
  shows "xs = ys"
proof -
  have s: "set xs = set ys" using assms(1) by (metis set_mset_mset)
  have "mset (map f xs) = mset (map f ys)" using assms(1) by simp
  with assms(4) have "distinct (map f xs)" using mset_eq_imp_distinct_iff by blast
  moreover have "inj_on f (set xs \<union> set ys)" using assms(4) s by (simp add: distinct_map)
  ultimately show ?thesis using assms(2-4) s by (metis map_sorted_distinct_set_unique)
qed

end
