(* ===== verification/Sqlite_Store.thy ===== *)
theory Sqlite_Store
  imports Database Sql_Tables
begin

text \<open>
  The SQLite backend (\<open>src/databases/sqlite_db/src/sqlite.rs\<close>), with the SQL text the code formats and its
  parameters, over the engine of \<open>Sql_Tables\<close>. The connection is shared behind a mutex; \<open>conn_poisoned\<close>
  says that a thread panicked while it held the lock, which makes every later \<open>lock\<close> fail.

  \<open>event_tableD\<close> and \<open>state_tableD\<close> derive what each statement of the code does from the meaning of SQL:
  which rows belong to a prefix, and that the storages of different actors in one table do not meet,
  follows from the conditions that the code writes into its statements.
\<close>

record 'd sqlite_world =
  conn_poisoned :: bool
  conn :: 'd

record SqliteCollection =
  sc_table :: string
  sc_prefix :: string

section \<open>Connection\<close>

text \<open>\<open>open\<close> and \<open>SqliteManager::new\<close>; the file system and the calls that open a connection are
  parameters, and the two pragmas are one batch.\<close>

record ('f, 'd) sqlite_opener =
  so_exists :: "string \<Rightarrow> 'f \<Rightarrow> bool"
  so_create_dir_all :: "string \<Rightarrow> 'f \<Rightarrow> (unit, string) outcome \<times> 'f"
  so_open_with_flags :: "string \<Rightarrow> 'f \<Rightarrow> ('d, string) outcome \<times> 'f"
  so_execute_batch :: "'d \<Rightarrow> (unit, string) outcome \<times> 'd"

definition sqlite_open ::
  "('f, 'd) sqlite_opener \<Rightarrow> string \<Rightarrow> 'f \<Rightarrow> ('d, store_error) outcome \<times> 'f" where
  "sqlite_open fsys path fs =
     then_in
       (apfst (map_err (\<lambda>e. StoreErr_Store (''SQLite failed to open connection: '' @ e)))
         (so_open_with_flags fsys path fs))
       (\<lambda>c fs'.
          case so_execute_batch fsys c of
            (Ok _, c') \<Rightarrow> (Ok c', fs')
          | (Err e, c') \<Rightarrow> (Err (StoreErr_Store (''SQLite failed to execute batch: '' @ e)), fs')
          | (Panic m, c') \<Rightarrow> (Panic m, fs'))"

definition sqlite_manager_new ::
  "('f, 'd) sqlite_opener \<Rightarrow> string \<Rightarrow> 'f \<Rightarrow> ('d sqlite_world, store_error) outcome \<times> 'f" where
  "sqlite_manager_new fsys path fs =
     then_in
       (if so_exists fsys path fs then (Ok (), fs)
        else apfst (map_err (\<lambda>e. StoreErr_CreateStore (''fail SQLite create directory: '' @ e)))
               (so_create_dir_all fsys path fs))
       (\<lambda>_ fs1.
     then_in
       (apfst (map_err (\<lambda>e. StoreErr_CreateStore (''fail SQLite open connection: '' @ store_error_display e)))
         (sqlite_open fsys (path @ ''/database.db'') fs1))
       (\<lambda>c fs2. (Ok \<lparr>conn_poisoned = False, conn = c\<rparr>, fs2)))"

section \<open>SqliteManager\<close>

definition create_state_sql :: "string \<Rightarrow> string" where
  "create_state_sql t = ''CREATE TABLE IF NOT EXISTS '' @ t @
     '' (prefix TEXT NOT NULL, value BLOB NOT NULL, PRIMARY KEY (prefix))''"

definition create_collection_sql :: "string \<Rightarrow> string" where
  "create_collection_sql t = ''CREATE TABLE IF NOT EXISTS '' @ t @
     '' (prefix TEXT NOT NULL, sn TEXT NOT NULL, value BLOB NOT NULL, PRIMARY KEY (prefix, sn))''"

definition sqlite_create ::
  "'d sqlite_engine \<Rightarrow> string \<Rightarrow> string \<Rightarrow> string \<Rightarrow> 'd sqlite_world \<Rightarrow>
   (SqliteCollection, store_error) outcome \<times> 'd sqlite_world" where
  "sqlite_create E stmt identifier pfx w =
     (if conn_poisoned w then (Panic ''open connection'', w)
      else case sq_execute E stmt [] (conn w) of
             (Ok _, d) \<Rightarrow> (Ok \<lparr>sc_table = identifier, sc_prefix = pfx\<rparr>, w\<lparr>conn := d\<rparr>)
           | (Err e, d) \<Rightarrow> (Err (StoreErr_CreateStore (''fail SQLite create table: '' @ e)), w\<lparr>conn := d\<rparr>)
           | (Panic m, d) \<Rightarrow> (Panic m, w\<lparr>conn := d, conn_poisoned := True\<rparr>))"

definition sqlite_create_state where
  "sqlite_create_state E identifier = sqlite_create E (create_state_sql identifier) identifier"

definition sqlite_create_collection where
  "sqlite_create_collection E identifier = sqlite_create E (create_collection_sql identifier) identifier"

section \<open>Statements under the lock\<close>

definition locked_query ::
  "'d sqlite_engine \<Rightarrow> string \<Rightarrow> sql_value list \<Rightarrow> 'd sqlite_world \<Rightarrow> (bytes, store_error) outcome" where
  "locked_query E query params w =
     (if conn_poisoned w then Err (StoreErr_Store (''sqlite open connection: '' @ poison_message))
      else map_err StoreErr_EntryNotFound (sq_query_row E query params (conn w)))"

definition locked_execute ::
  "'d sqlite_engine \<Rightarrow> string \<Rightarrow> (string \<Rightarrow> store_error) \<Rightarrow> string \<Rightarrow> sql_value list \<Rightarrow> 'd sqlite_world \<Rightarrow>
   (unit, store_error) outcome \<times> 'd sqlite_world" where
  "locked_execute E lock_error sql_error stmt params w =
     (if conn_poisoned w then (Err (StoreErr_Store (lock_error @ poison_message)), w)
      else case sq_execute E stmt params (conn w) of
             (Ok _, d) \<Rightarrow> (Ok (), w\<lparr>conn := d\<rparr>)
           | (Err e, d) \<Rightarrow> (Err (sql_error e), w\<lparr>conn := d\<rparr>)
           | (Panic m, d) \<Rightarrow> (Panic m, w\<lparr>conn := d, conn_poisoned := True\<rparr>))"

section \<open>State\<close>

definition select_state_sql :: "string \<Rightarrow> string" where
  "select_state_sql t = ''SELECT value FROM '' @ t @ '' WHERE prefix = ?1''"

definition insert_state_sql :: "string \<Rightarrow> string" where
  "insert_state_sql t = ''INSERT OR REPLACE INTO '' @ t @ '' (prefix, value) VALUES (?1, ?2)''"

definition delete_prefix_sql :: "string \<Rightarrow> string" where
  "delete_prefix_sql t = ''DELETE FROM '' @ t @ '' WHERE prefix = ?1''"

definition sqlite_state_get where
  "sqlite_state_get E h = locked_query E (select_state_sql (sc_table h)) [SqlText (sc_prefix h)]"

definition sqlite_state_put where
  "sqlite_state_put E h data =
     locked_execute E ''sqlite open connection: '' (\<lambda>e. StoreErr_Store (''sqlite insert error: '' @ e))
       (insert_state_sql (sc_table h)) [SqlText (sc_prefix h), SqlBlob data]"

definition sqlite_state_del where
  "sqlite_state_del E h =
     locked_execute E ''SQLITE open connection: '' StoreErr_EntryNotFound
       (delete_prefix_sql (sc_table h)) [SqlText (sc_prefix h)]"

definition sqlite_purge where
  "sqlite_purge E h =
     locked_execute E ''SQLITE open connection: '' (\<lambda>e. StoreErr_Store (''SQLITE purge error: '' @ e))
       (delete_prefix_sql (sc_table h)) [SqlText (sc_prefix h)]"

section \<open>Collection\<close>

definition select_event_sql :: "string \<Rightarrow> string" where
  "select_event_sql t = ''SELECT value FROM '' @ t @ '' WHERE prefix = ?1 AND sn = ?2''"

definition insert_event_sql :: "string \<Rightarrow> string" where
  "insert_event_sql t = ''INSERT OR REPLACE INTO '' @ t @ '' (prefix, sn, value) VALUES (?1, ?2, ?3)''"

definition delete_event_sql :: "string \<Rightarrow> string" where
  "delete_event_sql t = ''DELETE FROM '' @ t @ '' WHERE prefix = ?1 AND sn = ?2''"

definition select_events_sql :: "string \<Rightarrow> bool \<Rightarrow> string" where
  "select_events_sql t reverse =
     ''SELECT sn, value FROM '' @ t @ '' WHERE prefix = ?1 ORDER BY sn '' @ (if reverse then ''DESC'' else ''ASC'')"

definition sqlite_coll_get where
  "sqlite_coll_get E h key =
     locked_query E (select_event_sql (sc_table h)) [SqlText (sc_prefix h), SqlText key]"

definition sqlite_coll_put where
  "sqlite_coll_put E h key data =
     locked_execute E ''sqlite open connection: '' (\<lambda>e. StoreErr_Store (''sqlite insert error: '' @ e))
       (insert_event_sql (sc_table h)) [SqlText (sc_prefix h), SqlText key, SqlBlob data]"

definition sqlite_coll_del where
  "sqlite_coll_del E h key =
     locked_execute E ''SQLITE open connection: '' StoreErr_EntryNotFound
       (delete_event_sql (sc_table h)) [SqlText (sc_prefix h), SqlText key]"

text \<open>\<open>make_iter\<close> reads every row before it returns; a row that cannot be read ends it with an error,
  for which \<open>iter\<close> returns an empty iterator.\<close>

fun sqlite_rows :: "(string \<times> bytes, string) outcome list \<Rightarrow> ((string \<times> bytes) list, string) outcome" where
  "sqlite_rows [] = Ok []"
| "sqlite_rows (Ok row # rows) = and_then (sqlite_rows rows) (\<lambda>values. Ok (row # values))"
| "sqlite_rows (Err e # rows) = Err e"
| "sqlite_rows (Panic m # rows) = Panic m"

definition make_iter ::
  "'d sqlite_engine \<Rightarrow> SqliteCollection \<Rightarrow> bool \<Rightarrow> 'd sqlite_world \<Rightarrow> ((string \<times> bytes) list, string) outcome" where
  "make_iter E h reverse w =
     (if conn_poisoned w then Panic ''open connection''
      else and_then (sq_query E (select_events_sql (sc_table h) reverse) [SqlText (sc_prefix h)] (conn w)) sqlite_rows)"

definition sqlite_iter ::
  "'d sqlite_engine \<Rightarrow> SqliteCollection \<Rightarrow> bool \<Rightarrow> 'd sqlite_world \<Rightarrow> (string \<times> bytes) rust_iter" where
  "sqlite_iter E h reverse w =
     (case make_iter E h reverse w of
        Ok values \<Rightarrow> iter_of_list values
      | Err e \<Rightarrow> Done
      | Panic m \<Rightarrow> Crash m)"

definition sqlite_collection :: "'d sqlite_engine \<Rightarrow> ('d sqlite_world, SqliteCollection) collection" where
  "sqlite_collection E =
     \<lparr>coll_name = sc_table, coll_get = sqlite_coll_get E, coll_put = sqlite_coll_put E, coll_del = sqlite_coll_del E,
      coll_purge = sqlite_purge E, coll_iter = sqlite_iter E\<rparr>"

definition sqlite_state :: "'d sqlite_engine \<Rightarrow> ('d sqlite_world, SqliteCollection) state_storage" where
  "sqlite_state E =
     \<lparr>state_name = sc_table, state_get = sqlite_state_get E, state_put = sqlite_state_put E,
      state_del = sqlite_state_del E, state_purge = sqlite_purge E\<rparr>"

definition sqlite_manager :: "'d sqlite_engine \<Rightarrow> ('d sqlite_world, SqliteCollection, SqliteCollection) db_manager" where
  "sqlite_manager E = \<lparr>create_collection = sqlite_create_collection E, create_state = sqlite_create_state E\<rparr>"

section \<open>What the statements of the code do\<close>

text \<open>The two schemas of the code; the events of a prefix \<open>(sn, value)\<close> in the order of \<open>sn\<close>, and the value
  of a prefix.\<close>

definition event_keys :: "string list" where
  "event_keys = [''prefix'', ''sn'']"

definition state_keys :: "string list" where
  "state_keys = [''prefix'']"

definition v_event_table :: "'d sql_view \<Rightarrow> string \<Rightarrow> 'd \<Rightarrow> bool" where
  "v_event_table V t d \<longleftrightarrow> v_keys V t d = Some event_keys"

definition v_state_table :: "'d sql_view \<Rightarrow> string \<Rightarrow> 'd \<Rightarrow> bool" where
  "v_state_table V t d \<longleftrightarrow> v_keys V t d = Some state_keys"

definition prefix_rows :: "string \<Rightarrow> sql_row list \<Rightarrow> (string \<times> bytes) list" where
  "prefix_rows p rows = map (apfst (\<lambda>k. k ! 1)) (filter (\<lambda>r. hd (fst r) = p) rows)"

definition v_events :: "'d sql_view \<Rightarrow> string \<Rightarrow> string \<Rightarrow> 'd \<Rightarrow> (string \<times> bytes) list" where
  "v_events V t p d = (if v_event_table V t d then prefix_rows p (v_rows V t d) else [])"

definition v_state :: "'d sql_view \<Rightarrow> string \<Rightarrow> string \<Rightarrow> 'd \<Rightarrow> bytes option" where
  "v_state V t p d = (if v_state_table V t d then map_of (v_rows V t d) [p] else None)"

definition same_tables :: "'d sql_view \<Rightarrow> 'd \<Rightarrow> 'd \<Rightarrow> bool" where
  "same_tables V d d' \<longleftrightarrow>
     (\<forall>t. v_event_table V t d' = v_event_table V t d \<and> v_state_table V t d' = v_state_table V t d)"

definition events_become :: "'d sql_view \<Rightarrow> string \<Rightarrow> string \<Rightarrow> (string \<times> bytes) list \<Rightarrow> 'd \<Rightarrow> 'd \<Rightarrow> bool" where
  "events_become V t p es d d' \<longleftrightarrow>
     same_tables V d d' \<and> v_events V t p d' = es \<and>
     (\<forall>t' p'. (t', p') \<noteq> (t, p) \<longrightarrow> v_events V t' p' d' = v_events V t' p' d) \<and>
     (\<forall>t' p'. v_state V t' p' d' = v_state V t' p' d)"

definition state_becomes :: "'d sql_view \<Rightarrow> string \<Rightarrow> string \<Rightarrow> bytes option \<Rightarrow> 'd \<Rightarrow> 'd \<Rightarrow> bool" where
  "state_becomes V t p x d d' \<longleftrightarrow>
     same_tables V d d' \<and> v_state V t p d' = x \<and>
     (\<forall>t' p'. (t', p') \<noteq> (t, p) \<longrightarrow> v_state V t' p' d' = v_state V t' p' d) \<and>
     (\<forall>t' p'. v_events V t' p' d' = v_events V t' p' d)"

text \<open>The statements of the code as texts of the fragment.\<close>

lemma code_texts:
  "create_state_sql t = create_text t state_keys"
  "create_collection_sql t = create_text t event_keys"
  "select_state_sql t = select_text [''value''] t [''prefix'']"
  "insert_state_sql t = insert_text t (state_keys @ [''value''])"
  "delete_prefix_sql t = delete_text t [''prefix'']"
  "select_event_sql t = select_text [''value''] t [''prefix'', ''sn'']"
  "insert_event_sql t = insert_text t (event_keys @ [''value''])"
  "delete_event_sql t = delete_text t [''prefix'', ''sn'']"
  "select_events_sql t r = select_text [''sn'', ''value''] t [''prefix''] @ order_text ''sn'' r"
  by (simp_all add: create_state_sql_def create_collection_sql_def select_state_sql_def insert_state_sql_def
      delete_prefix_sql_def select_event_sql_def insert_event_sql_def delete_event_sql_def select_events_sql_def
      sql_texts event_keys_def state_keys_def)

lemma code_conditions:
  "condition_ok event_keys [''prefix''] [p]" "condition_ok event_keys [''prefix'', ''sn''] [p, k]"
  "condition_ok state_keys [''prefix''] [p]"
  by (simp_all add: condition_ok_def event_keys_def state_keys_def)

lemma satisfies_event:
  assumes "length (fst r) = length event_keys"
  shows "satisfies event_keys [''prefix''] [p] r \<longleftrightarrow> hd (fst r) = p"
    "satisfies event_keys [''prefix'', ''sn''] [p, k] r \<longleftrightarrow> fst r = [p, k]"
    "column event_keys ''sn'' r = Some (fst r ! 1)"
proof -
  obtain x y where "fst r = [x, y]" using assms by (auto simp: event_keys_def numeral_2_eq_2 length_Suc_conv)
  then show "satisfies event_keys [''prefix''] [p] r \<longleftrightarrow> hd (fst r) = p"
    "satisfies event_keys [''prefix'', ''sn''] [p, k] r \<longleftrightarrow> fst r = [p, k]"
    "column event_keys ''sn'' r = Some (fst r ! 1)"
    by (simp_all add: satisfies_def column_def event_keys_def)
qed

lemma satisfies_state:
  "length (fst r) = length state_keys \<Longrightarrow> satisfies state_keys [''prefix''] [p] r \<longleftrightarrow> fst r = [p]"
  by (cases "fst r") (auto simp: satisfies_def column_def state_keys_def)

lemma prefix_rows_own:
  assumes "rows_ok event_keys rows"
  shows "filter (\<lambda>r. hd (fst r) = p) rows = map (apfst (\<lambda>s. [p, s])) (prefix_rows p rows)"
proof -
  have "[p, fst r ! 1] = fst r" if "r \<in> set rows" "hd (fst r) = p" for r
  proof -
    have "length (fst r) = Suc (Suc 0)" using assms that(1) by (simp add: rows_ok_def event_keys_def)
    then show ?thesis using that(2) by (auto simp: length_Suc_conv)
  qed
  then show ?thesis by (auto simp: prefix_rows_def comp_def intro!: map_idI [symmetric])
qed

lemma pair_key [simp]: "([p, a] < [p, b]) = (a < b)" "inj (\<lambda>s. [p, s])" for a b p :: string
  by (simp_all add: Cons_less_Cons_iff inj_def)

lemma prefix_rows_ok: "rows_ok event_keys rows \<Longrightarrow> bt_ok (prefix_rows p rows)"
  using bt_ok_map_key [of "\<lambda>s. [p, s]" "prefix_rows p rows"] prefix_rows_own [of rows p]
  by (simp add: rows_ok_def flip: bt_ok_filter) (metis bt_ok_filter)

lemma prefix_rows_from:
  "filter (\<lambda>r. hd (fst r) = p) rows' = map (apfst (\<lambda>s. [p, s])) es \<Longrightarrow> prefix_rows p rows' = es"
  by (auto simp: prefix_rows_def comp_def intro: map_idI)

lemma map_of_prefix_rows:
  assumes "rows_ok event_keys rows"
  shows "map_of rows [p, k] = map_of (prefix_rows p rows) k"
proof -
  have "map_of rows [p, k] = map_of (filter (\<lambda>r. hd (fst r) = p) rows) [p, k]"
    by (induction rows) auto
  then show ?thesis using map_of_map_key [of "\<lambda>s. [p, s]"] by (simp add: prefix_rows_own [OF assms])
qed

lemma prefix_rows_insert:
  assumes "rows_ok event_keys rows"
  shows "prefix_rows p (bt_insert [p, k] v rows) = bt_insert k v (prefix_rows p rows)"
    "q \<noteq> p \<Longrightarrow> prefix_rows q (bt_insert [p, k] v rows) = prefix_rows q rows"
proof -
  have ok: "bt_ok rows" using assms by (simp add: rows_ok_def)
  show "prefix_rows p (bt_insert [p, k] v rows) = bt_insert k v (prefix_rows p rows)"
    by (rule prefix_rows_from)
      (simp add: filter_bt_insert [OF ok, of "\<lambda>k. hd k = p"] prefix_rows_own [OF assms]
        bt_insert_map_key [where f = "\<lambda>s. [p, s]"] prefix_rows_ok [OF assms])
  show "q \<noteq> p \<Longrightarrow> prefix_rows q (bt_insert [p, k] v rows) = prefix_rows q rows"
    using filter_bt_insert [OF ok, of "\<lambda>k. hd k = q" "[p, k]" v] by (simp add: prefix_rows_def)
qed

lemma prefix_rows_remove:
  assumes "rows_ok event_keys rows"
  shows "prefix_rows p (bt_remove [p, k] rows) = bt_remove k (prefix_rows p rows)"
    "q \<noteq> p \<Longrightarrow> prefix_rows q (bt_remove [p, k] rows) = prefix_rows q rows"
proof -
  have c: "filter P (bt_remove x rows) = bt_remove x (filter P rows)" for P and x :: "string list"
    by (simp add: bt_remove_def conj_commute)
  show "prefix_rows p (bt_remove [p, k] rows) = bt_remove k (prefix_rows p rows)"
    by (rule prefix_rows_from)
      (simp add: c prefix_rows_own [OF assms] bt_remove_map_key [where f = "\<lambda>s. [p, s]"])
  show "q \<noteq> p \<Longrightarrow> prefix_rows q (bt_remove [p, k] rows) = prefix_rows q rows"
    by (auto simp: prefix_rows_def bt_remove_def intro!: arg_cong [where f = "map _"] filter_cong)
qed

lemma prefix_rows_delete:
  "prefix_rows p (filter (\<lambda>r. hd (fst r) \<noteq> p) rows) = []"
  "q \<noteq> p \<Longrightarrow> prefix_rows q (filter (\<lambda>r. hd (fst r) \<noteq> p) rows) = prefix_rows q rows"
  by (auto simp: prefix_rows_def filter_empty_conv intro!: arg_cong [where f = "map _"] filter_cong)

lemma table_events:
  assumes "table_becomes V t rows d d'" "v_event_table V t d" "prefix_rows p rows = es"
    and "\<And>q. q \<noteq> p \<Longrightarrow> prefix_rows q rows = prefix_rows q (v_rows V t d)"
  shows "events_become V t p es d d'"
proof -
  have "v_events V t' q d' = v_events V t' q d" if "(t', q) \<noteq> (t, p)" for t' q
    using assms(1,4) that by (cases "t' = t") (auto simp: table_becomes_def v_events_def v_event_table_def)
  moreover have "v_state V t' q d' = v_state V t' q d" for t' q
    using assms(1,2) by (cases "t' = t") (auto simp: table_becomes_def v_state_def v_state_table_def v_event_table_def
        event_keys_def state_keys_def)
  ultimately show ?thesis
    using assms(1-3) by (auto simp: table_becomes_def events_become_def same_tables_def v_event_table_def
        v_state_table_def v_events_def)
qed

lemma table_state:
  assumes "table_becomes V t rows d d'" "v_state_table V t d" "map_of rows [p] = x"
    and "\<And>q. q \<noteq> p \<Longrightarrow> map_of rows [q] = map_of (v_rows V t d) [q]"
  shows "state_becomes V t p x d d'"
proof -
  have "v_state V t' q d' = v_state V t' q d" if "(t', q) \<noteq> (t, p)" for t' q
    using assms(1,4) that by (cases "t' = t") (auto simp: table_becomes_def v_state_def v_state_table_def)
  moreover have "v_events V t' q d' = v_events V t' q d" for t' q
    using assms(1,2) by (cases "t' = t") (auto simp: table_becomes_def v_events_def v_state_table_def v_event_table_def
        event_keys_def state_keys_def)
  ultimately show ?thesis
    using assms(1-3) by (auto simp: table_becomes_def state_becomes_def same_tables_def v_event_table_def
        v_state_table_def v_state_def)
qed

lemma executes_mono: "executes E stmt params d P \<Longrightarrow> (\<And>d'. P d' \<Longrightarrow> Q d') \<Longrightarrow> executes E stmt params d Q"
  by (auto simp: executes_def)

lemma event_tableD:
  assumes laws: "sqlite_laws E V" and t: "v_event_table V t d"
  shows "bt_ok (v_events V t p d)"
    "sq_query_row E (select_event_sql t) [SqlText p, SqlText k] d = one_row (map_of (v_events V t p d) k)"
    "sq_query E (select_events_sql t r) [SqlText p] d =
       Ok (map Ok (if r then rev (v_events V t p d) else v_events V t p d))"
    "executes E (insert_event_sql t) [SqlText p, SqlText k, SqlBlob v] d
       (events_become V t p (bt_insert k v (v_events V t p d)) d)"
    "executes E (delete_event_sql t) [SqlText p, SqlText k] d
       (events_become V t p (bt_remove k (v_events V t p d)) d)"
    "executes E (delete_prefix_sql t) [SqlText p] d (events_become V t p [] d)"
    "executes E (create_collection_sql t) [] d ((=) d)"
proof -
  note D = sqlite_lawsD [OF laws t [unfolded v_event_table_def]]
  let ?rows = "v_rows V t d"
  have len: "\<And>r. r \<in> set ?rows \<Longrightarrow> length (fst r) = length event_keys" and ok: "bt_ok ?rows"
    using D(1) by (simp_all add: rows_ok_def)
  have ev: "v_events V t p d = prefix_rows p ?rows" for p using t by (simp add: v_events_def)
  have own: "filter (satisfies event_keys [''prefix''] [p]) ?rows = filter (\<lambda>r. hd (fst r) = p) ?rows"
    "filter (\<lambda>r. \<not> satisfies event_keys [''prefix''] [p] r) ?rows = filter (\<lambda>r. hd (fst r) \<noteq> p) ?rows"
    "filter (satisfies event_keys [''prefix'', ''sn''] [p, k]) ?rows = filter (\<lambda>r. fst r = [p, k]) ?rows"
    "filter (\<lambda>r. \<not> satisfies event_keys [''prefix'', ''sn''] [p, k] r) ?rows = bt_remove [p, k] ?rows"
    unfolding bt_remove_def by (rule filter_cong [OF refl]; simp add: satisfies_event len)+
  show "bt_ok (v_events V t p d)" by (simp add: ev prefix_rows_ok [OF D(1)])
  show "sq_query_row E (select_event_sql t) [SqlText p, SqlText k] d = one_row (map_of (v_events V t p d) k)"
    using answers_one_key [OF ok D(2) [OF code_conditions(2) [of p k], unfolded own]]
    by (simp add: code_texts ev map_of_prefix_rows [OF D(1)])
  show "executes E (insert_event_sql t) [SqlText p, SqlText k, SqlBlob v] d
       (events_become V t p (bt_insert k v (v_events V t p d)) d)"
  proof (rule executes_mono)
    show "executes E (insert_event_sql t) [SqlText p, SqlText k, SqlBlob v] d
        (table_becomes V t (bt_insert [p, k] v ?rows) d)"
      using D(5) [of "[p, k]" v] by (simp add: code_texts event_keys_def)
  qed (auto simp: ev prefix_rows_insert [OF D(1)] intro: table_events [OF _ t])
  show "executes E (delete_event_sql t) [SqlText p, SqlText k] d
       (events_become V t p (bt_remove k (v_events V t p d)) d)"
  proof (rule executes_mono)
    show "executes E (delete_event_sql t) [SqlText p, SqlText k] d (table_becomes V t (bt_remove [p, k] ?rows) d)"
      using D(4) [OF code_conditions(2) [of p k]] by (simp add: code_texts own)
  qed (auto simp: ev prefix_rows_remove [OF D(1)] intro: table_events [OF _ t])
  show "executes E (delete_prefix_sql t) [SqlText p] d (events_become V t p [] d)"
  proof (rule executes_mono)
    show "executes E (delete_prefix_sql t) [SqlText p] d
        (table_becomes V t (filter (\<lambda>r. hd (fst r) \<noteq> p) ?rows) d)"
      using D(4) [OF code_conditions(1) [of p]] by (simp add: code_texts own)
  qed (auto simp: prefix_rows_delete intro: table_events [OF _ t])
  show "executes E (create_collection_sql t) [] d ((=) d)" using D(6) by (simp add: code_texts)
  have "''sn'' \<in> set event_keys" by (simp add: event_keys_def)
  from D(3) [OF code_conditions(1) [of p] this, of r, unfolded own] obtain rs where
    rs: "sq_query E (select_events_sql t r) [SqlText p] d =
        Ok (map Ok (map (\<lambda>r. (the (column event_keys ''sn'' r), snd r)) rs))"
      "mset rs = mset (filter (\<lambda>r. hd (fst r) = p) ?rows)"
      "sorted (map (\<lambda>r. the (column event_keys ''sn'' r)) (if r then rev rs else rs))"
    by (auto simp: answers_ordered_def code_texts comp_def)
  let ?es = "prefix_rows p ?rows" and ?it = "map (\<lambda>r. (the (column event_keys ''sn'' r), snd r)) rs"
  have "set rs \<subseteq> set ?rows" using rs(2) by (metis filter_is_subset set_mset_mset)
  then have it: "?it = map (apfst (\<lambda>k. k ! 1)) rs" using len satisfies_event(3) by (auto simp: prod_eq_iff)
  have m: "mset ?it = mset ?es" unfolding it using rs(2) by (simp add: prefix_rows_def)
  have ek: "sorted (map fst ?es)" "distinct (map fst ?es)"
    using prefix_rows_ok [OF D(1), of p] by (simp_all add: bt_ok_def strict_sorted_iff)
  have "(if r then rev ?it else ?it) = ?es"
    by (rule sorted_rows_unique [where f = fst]) (use m rs(3) ek in \<open>simp_all add: comp_def rev_map split: if_splits\<close>)
  then have "?it = (if r then rev ?es else ?es)" by (cases r) (simp_all only: if_True if_False rev_swap rev_rev_ident)
  then show "sq_query E (select_events_sql t r) [SqlText p] d =
       Ok (map Ok (if r then rev (v_events V t p d) else v_events V t p d))"
    unfolding rs(1) ev by (simp only:)
qed

lemma state_tableD:
  assumes laws: "sqlite_laws E V" and t: "v_state_table V t d"
  shows "sq_query_row E (select_state_sql t) [SqlText p] d = one_row (v_state V t p d)"
    "executes E (insert_state_sql t) [SqlText p, SqlBlob v] d (state_becomes V t p (Some v) d)"
    "executes E (delete_prefix_sql t) [SqlText p] d (state_becomes V t p None d)"
    "executes E (create_state_sql t) [] d ((=) d)"
proof -
  note D = sqlite_lawsD [OF laws t [unfolded v_state_table_def]]
  let ?rows = "v_rows V t d"
  have len: "\<And>r. r \<in> set ?rows \<Longrightarrow> length (fst r) = length state_keys" and ok: "bt_ok ?rows"
    using D(1) by (simp_all add: rows_ok_def)
  have st: "v_state V t p d = map_of ?rows [p]" for p using t by (simp add: v_state_def)
  have own: "filter (satisfies state_keys [''prefix''] [p]) ?rows = filter (\<lambda>r. fst r = [p]) ?rows"
    "filter (\<lambda>r. \<not> satisfies state_keys [''prefix''] [p] r) ?rows = bt_remove [p] ?rows"
    unfolding bt_remove_def by (rule filter_cong [OF refl]; simp add: satisfies_state len)+
  show "sq_query_row E (select_state_sql t) [SqlText p] d = one_row (v_state V t p d)"
    using answers_one_key [OF ok D(2) [OF code_conditions(3) [of p], unfolded own]] by (simp add: code_texts st)
  show "executes E (insert_state_sql t) [SqlText p, SqlBlob v] d (state_becomes V t p (Some v) d)"
  proof (rule executes_mono)
    show "executes E (insert_state_sql t) [SqlText p, SqlBlob v] d (table_becomes V t (bt_insert [p] v ?rows) d)"
      using D(5) [of "[p]" v] by (simp add: code_texts state_keys_def)
  qed (auto simp: map_of_bt_insert ok intro: table_state [OF _ t])
  show "executes E (delete_prefix_sql t) [SqlText p] d (state_becomes V t p None d)"
  proof (rule executes_mono)
    show "executes E (delete_prefix_sql t) [SqlText p] d (table_becomes V t (bt_remove [p] ?rows) d)"
      using D(4) [OF code_conditions(3) [of p]] by (simp add: code_texts own)
  qed (auto simp: map_of_bt_remove intro: table_state [OF _ t])
  show "executes E (create_state_sql t) [] d ((=) d)" using D(6) by (simp add: code_texts)
qed

section \<open>The methods under the laws of the engine\<close>

lemma sqlite_rows_Ok [simp]: "sqlite_rows (map Ok es) = Ok es"
  by (induction es) auto

lemma locked_execute_ok:
  assumes "\<not> conn_poisoned w" "executes E stmt params (conn w) post"
  shows "\<exists>d. locked_execute E le se stmt params w = (Ok (), w\<lparr>conn := d\<rparr>) \<and> post d"
  using assms by (auto simp: locked_execute_def executes_def)

lemma locked_query_row:
  assumes "\<not> conn_poisoned w" "sq_query_row E query params (conn w) = one_row x"
  shows "locked_query E query params w = (case x of Some v \<Rightarrow> Ok v | None \<Rightarrow> Err no_rows)"
  using assms by (simp add: locked_query_def one_row_def no_rows_def split: option.split)

definition sqlite_cvalid :: "'d sql_view \<Rightarrow> SqliteCollection \<Rightarrow> 'd sqlite_world \<Rightarrow> bool" where
  "sqlite_cvalid V h w \<longleftrightarrow> \<not> conn_poisoned w \<and> v_event_table V (sc_table h) (conn w)"

definition sqlite_svalid :: "'d sql_view \<Rightarrow> SqliteCollection \<Rightarrow> 'd sqlite_world \<Rightarrow> bool" where
  "sqlite_svalid V h w \<longleftrightarrow> \<not> conn_poisoned w \<and> v_state_table V (sc_table h) (conn w)"

definition sqlite_entries :: "'d sql_view \<Rightarrow> SqliteCollection \<Rightarrow> 'd sqlite_world \<Rightarrow> (string \<times> bytes) list" where
  "sqlite_entries V h w = v_events V (sc_table h) (sc_prefix h) (conn w)"

definition sqlite_content :: "'d sql_view \<Rightarrow> SqliteCollection \<Rightarrow> 'd sqlite_world \<Rightarrow> bytes option" where
  "sqlite_content V h w = v_state V (sc_table h) (sc_prefix h) (conn w)"

lemmas sqlite_ops = sqlite_collection_def sqlite_state_def sqlite_manager_def
lemmas sqlite_views = sqlite_cvalid_def sqlite_svalid_def sqlite_entries_def sqlite_content_def

text \<open>What a write through a collection (or a state) leaves: the mutex free, the own entries changed
  and everything else as it was.\<close>

definition writes_entries ::
  "'d sql_view \<Rightarrow> SqliteCollection \<Rightarrow> (string \<times> bytes) list \<Rightarrow> 'd sqlite_world \<Rightarrow>
   (unit, store_error) outcome \<times> 'd sqlite_world \<Rightarrow> bool" where
  "writes_entries V h es w r \<longleftrightarrow>
     (\<exists>d. r = (Ok (), w\<lparr>conn := d\<rparr>) \<and> events_become V (sc_table h) (sc_prefix h) es (conn w) d)"

definition writes_content ::
  "'d sql_view \<Rightarrow> SqliteCollection \<Rightarrow> bytes option \<Rightarrow> 'd sqlite_world \<Rightarrow>
   (unit, store_error) outcome \<times> 'd sqlite_world \<Rightarrow> bool" where
  "writes_content V h x w r \<longleftrightarrow>
     (\<exists>d. r = (Ok (), w\<lparr>conn := d\<rparr>) \<and> state_becomes V (sc_table h) (sc_prefix h) x (conn w) d)"

lemma sqlite_coll_writes:
  assumes laws: "sqlite_laws E V" and v: "sqlite_cvalid V h w"
  shows "writes_entries V h (bt_insert k u (sqlite_entries V h w)) w (sqlite_coll_put E h k u w)"
    "writes_entries V h (bt_remove k (sqlite_entries V h w)) w (sqlite_coll_del E h k w)"
    "writes_entries V h [] w (sqlite_purge E h w)"
proof -
  have w: "\<not> conn_poisoned w" and t: "v_event_table V (sc_table h) (conn w)"
    using v by (simp_all add: sqlite_views)
  note D = event_tableD [OF laws t]
  show "writes_entries V h (bt_insert k u (sqlite_entries V h w)) w (sqlite_coll_put E h k u w)"
    unfolding writes_entries_def sqlite_coll_put_def sqlite_entries_def by (rule locked_execute_ok [OF w D(4)])
  show "writes_entries V h (bt_remove k (sqlite_entries V h w)) w (sqlite_coll_del E h k w)"
    unfolding writes_entries_def sqlite_coll_del_def sqlite_entries_def by (rule locked_execute_ok [OF w D(5)])
  show "writes_entries V h [] w (sqlite_purge E h w)"
    unfolding writes_entries_def sqlite_purge_def by (rule locked_execute_ok [OF w D(6)])
qed

lemma sqlite_state_writes:
  assumes laws: "sqlite_laws E V" and v: "sqlite_svalid V h w"
  shows "writes_content V h (Some u) w (sqlite_state_put E h u w)"
    "writes_content V h None w (sqlite_state_del E h w)"
    "writes_content V h None w (sqlite_purge E h w)"
proof -
  have w: "\<not> conn_poisoned w" and t: "v_state_table V (sc_table h) (conn w)"
    using v by (simp_all add: sqlite_views)
  note D = state_tableD [OF laws t]
  show "writes_content V h (Some u) w (sqlite_state_put E h u w)"
    unfolding writes_content_def sqlite_state_put_def by (rule locked_execute_ok [OF w D(2)])
  show "writes_content V h None w (sqlite_state_del E h w)"
    unfolding writes_content_def sqlite_state_del_def by (rule locked_execute_ok [OF w D(3)])
  show "writes_content V h None w (sqlite_purge E h w)"
    unfolding writes_content_def sqlite_purge_def by (rule locked_execute_ok [OF w D(3)])
qed

lemma writes_entriesD:
  assumes "writes_entries V h es w r"
  shows "fst r = Ok ()" "sqlite_entries V h (snd r) = es"
    "sqlite_cvalid V h' (snd r) = sqlite_cvalid V h' w" "sqlite_svalid V h' (snd r) = sqlite_svalid V h' w"
    "sqlite_content V h' (snd r) = sqlite_content V h' w"
    "(sc_table h', sc_prefix h') \<noteq> (sc_table h, sc_prefix h) \<Longrightarrow> sqlite_entries V h' (snd r) = sqlite_entries V h' w"
  using assms by (auto simp: writes_entries_def events_become_def same_tables_def sqlite_views)

lemma writes_contentD:
  assumes "writes_content V h x w r"
  shows "fst r = Ok ()" "sqlite_content V h (snd r) = x"
    "sqlite_cvalid V h' (snd r) = sqlite_cvalid V h' w" "sqlite_svalid V h' (snd r) = sqlite_svalid V h' w"
    "sqlite_entries V h' (snd r) = sqlite_entries V h' w"
    "(sc_table h', sc_prefix h') \<noteq> (sc_table h, sc_prefix h) \<Longrightarrow> sqlite_content V h' (snd r) = sqlite_content V h' w"
  using assms by (auto simp: writes_content_def state_becomes_def same_tables_def sqlite_views)

section \<open>The contracts\<close>

lemma sqlite_get_eq:
  assumes "sqlite_laws E V"
  shows "sqlite_cvalid V h w \<Longrightarrow>
      sqlite_coll_get E h k w = (case map_of (sqlite_entries V h w) k of Some v \<Rightarrow> Ok v | None \<Rightarrow> Err no_rows)"
    "sqlite_svalid V h w \<Longrightarrow>
      sqlite_state_get E h w = (case sqlite_content V h w of Some v \<Rightarrow> Ok v | None \<Rightarrow> Err no_rows)"
    "sqlite_cvalid V h w \<Longrightarrow>
      sqlite_iter E h r w = iter_of_list (if r then rev (sqlite_entries V h w) else sqlite_entries V h w)"
  using event_tableD(2,3) [OF assms] state_tableD(1) [OF assms]
  by (auto simp: sqlite_views sqlite_coll_get_def sqlite_state_get_def sqlite_iter_def make_iter_def
      intro: locked_query_row)

lemma sqlite_collection_laws:
  assumes laws: "sqlite_laws E V"
  shows "collection_laws (sqlite_collection E) (sqlite_cvalid V) (sqlite_entries V)"
proof
  fix h w assume v: "sqlite_cvalid V h w"
  show "bt_ok (sqlite_entries V h w)"
    using event_tableD(1) [OF laws] v by (simp add: sqlite_views)
  show "coll_get (sqlite_collection E) h k w =
      (case map_of (sqlite_entries V h w) k of None \<Rightarrow> Err no_rows | Some v \<Rightarrow> Ok v)" for k
    by (simp add: sqlite_ops sqlite_get_eq(1) [OF laws v])
  show "coll_iter (sqlite_collection E) h r w =
      iter_of_list (if r then rev (sqlite_entries V h w) else sqlite_entries V h w)" for r
    by (simp add: sqlite_ops sqlite_get_eq(3) [OF laws v])
qed (auto simp: sqlite_ops writes_entriesD [OF sqlite_coll_writes(1) [OF laws]]
    writes_entriesD [OF sqlite_coll_writes(2) [OF laws]] writes_entriesD [OF sqlite_coll_writes(3) [OF laws]])

lemma sqlite_state_laws:
  assumes laws: "sqlite_laws E V"
  shows "state_laws (sqlite_state E) (sqlite_svalid V) (sqlite_content V)"
  by unfold_locales
    (auto simp: sqlite_ops sqlite_get_eq(2) [OF laws] writes_contentD [OF sqlite_state_writes(1) [OF laws]]
      writes_contentD [OF sqlite_state_writes(2) [OF laws]] writes_contentD [OF sqlite_state_writes(3) [OF laws]]
      split: option.split)

definition sqlite_opened ::
  "'d sql_view \<Rightarrow> string \<Rightarrow> string \<Rightarrow> SqliteCollection \<Rightarrow> SqliteCollection \<Rightarrow> 'd sqlite_world \<Rightarrow> bool" where
  "sqlite_opened V name pfx c s w \<longleftrightarrow>
     c = \<lparr>sc_table = name @ ''_events'', sc_prefix = pfx\<rparr> \<and>
     s = \<lparr>sc_table = name @ ''_states'', sc_prefix = pfx\<rparr> \<and> sqlite_cvalid V c w \<and> sqlite_svalid V s w"

lemma sqlite_reopen:
  assumes laws: "sqlite_laws E V" and op: "sqlite_opened V name pfx c s w"
  shows "create_collection (sqlite_manager E) (name @ ''_events'') pfx w = (Ok c, w)"
    "create_state (sqlite_manager E) (name @ ''_states'') pfx w = (Ok s, w)"
  using op event_tableD(7) [OF laws, of "name @ ''_events''" "conn w"]
    state_tableD(4) [OF laws, of "name @ ''_states''" "conn w"]
  by (auto simp: sqlite_opened_def sqlite_views sqlite_ops sqlite_create_collection_def
      sqlite_create_state_def sqlite_create_def executes_def)

lemma sqlite_backend:
  assumes laws: "sqlite_laws E V"
  shows "reopenable_backend (sqlite_collection E) (sqlite_cvalid V) (sqlite_entries V)
    (sqlite_state E) (sqlite_svalid V) (sqlite_content V) (sqlite_opened V name pfx)
    (sqlite_manager E) name pfx"
  by (intro reopenable_backend.intro store_backend.intro store_backend_axioms.intro
      reopenable_backend_axioms.intro sqlite_collection_laws [OF laws] sqlite_state_laws [OF laws])
    (auto simp: sqlite_opened_def sqlite_ops writes_entriesD [OF sqlite_coll_writes(1) [OF laws]]
      writes_entriesD [OF sqlite_coll_writes(3) [OF laws]] writes_contentD [OF sqlite_state_writes(1) [OF laws]]
      writes_contentD [OF sqlite_state_writes(3) [OF laws]]
      sqlite_reopen [OF laws, unfolded sqlite_opened_def sqlite_ops, simplified])

end
