(* ===== verification/Sql_Engine.thy ===== *)
theory Sql_Engine
  imports Sqlite_Store
begin

text \<open>
  A concrete engine that satisfies \<open>sqlite_laws\<close>, for the witnesses: a database in memory with the tables
  \<open>acc_events\<close>, \<open>acc_states\<close> and \<open>test\<close>, each with one of the two schemas or not there. The engine
  finds the statement whose text it is given and executes it on the rows of the table.
\<close>

type_synonym sql_mem = "string \<Rightarrow> (string list \<times> sql_row list) option"

section \<open>Recognising a statement\<close>

definition recognise :: "('a \<Rightarrow> string) \<Rightarrow> 'a list \<Rightarrow> string \<Rightarrow> 'a option" where
  "recognise f xs stmt = find (\<lambda>x. f x = stmt) xs"

lemma recognise_eq: "inj_on f (set xs) \<Longrightarrow> x \<in> set xs \<Longrightarrow> recognise f xs (f x) = Some x"
  by (induction xs) (auto simp: recognise_def inj_on_def)

lemma recognise_None: "(\<And>x. f x \<noteq> stmt) \<Longrightarrow> recognise f xs stmt = None"
  by (simp add: recognise_def find_None_iff)

definition table_names :: "string list" where
  "table_names = [''acc_events'', ''acc_states'', ''test'']"

definition schemas :: "string list list" where
  "schemas = [event_keys, state_keys]"

definition conditions :: "string list list" where
  "conditions = [[], [''prefix''], [''sn''], [''prefix'', ''sn''], [''sn'', ''prefix'']]"

definition orders :: "(string \<times> bool) list" where
  "orders = List.product [''prefix'', ''sn''] [False, True]"

definition delete_of :: "string \<times> string list \<Rightarrow> string" where
  "delete_of = (\<lambda>(t, cs). delete_text t cs)"

definition insert_of :: "string \<times> string list \<Rightarrow> string" where
  "insert_of = (\<lambda>(t, keys). insert_text t (keys @ [''value'']))"

definition create_of :: "string \<times> string list \<Rightarrow> string" where
  "create_of = (\<lambda>(t, keys). create_text t keys)"

definition select_of :: "string \<times> string list \<Rightarrow> string" where
  "select_of = (\<lambda>(t, cs). select_text [''value''] t cs)"

definition ordered_of :: "(string \<times> bool) \<times> string \<times> string list \<Rightarrow> string" where
  "ordered_of = (\<lambda>((c, r), t, cs). select_text [c, ''value''] t cs @ order_text c r)"

lemma before_space:
  assumes "\<forall>c \<in> set t. c \<noteq> CHR '' ''" "\<forall>c \<in> set t'. c \<noteq> CHR '' ''"
    and "u = [] \<or> hd u = CHR '' ''" "u' = [] \<or> hd u' = CHR '' ''" "t @ u = t' @ u'"
  shows "t = t' \<and> u = u'"
proof -
  have w: "takeWhile (\<lambda>c. c \<noteq> CHR '' '') (x @ v) = x"
    if "\<forall>c \<in> set x. c \<noteq> CHR '' ''" "v = [] \<or> hd v = CHR '' ''" for x v
    using that by (cases v) (simp_all add: takeWhile_eq_all_conv)
  have "t = t'" using w [OF assms(1,3)] w [OF assms(2,4)] assms(5) by simp
  with assms(5) show ?thesis by simp
qed

lemma table_names_plain: "t \<in> set table_names \<Longrightarrow> \<forall>c \<in> set t. c \<noteq> CHR '' ''"
  by (auto simp: table_names_def)

lemma where_text_hd: "where_text cs = [] \<or> hd (where_text cs) = CHR '' ''"
  by (simp add: where_text_def)

lemma inj_where: "inj_on where_text (set conditions)"
  by (simp add: conditions_def inj_on_def sql_texts)

lemma inj_delete: "inj_on delete_of (set (List.product table_names conditions))"
proof (rule inj_onI, clarify)
  fix t cs t' cs'
  assume a: "(t, cs) \<in> set (List.product table_names conditions)" "(t', cs') \<in> set (List.product table_names conditions)"
    "delete_of (t, cs) = delete_of (t', cs')"
  then have "t @ where_text cs = t' @ where_text cs'" by (simp add: delete_of_def delete_text_def)
  moreover have "t \<in> set table_names" "t' \<in> set table_names" using a(1,2) by auto
  ultimately have "t = t'" "where_text cs = where_text cs'"
    using before_space [OF table_names_plain table_names_plain where_text_hd where_text_hd] by metis+
  with a(1,2) inj_where show "t = t' \<and> cs = cs'" by (auto simp: inj_on_def)
qed

lemma inj_select: "inj_on select_of (set (List.product table_names conditions))"
proof (rule inj_onI, clarify)
  fix t cs t' cs'
  assume a: "(t, cs) \<in> set (List.product table_names conditions)" "(t', cs') \<in> set (List.product table_names conditions)"
    "select_of (t, cs) = select_of (t', cs')"
  then have "delete_of (t, cs) = delete_of (t', cs')" by (simp add: select_of_def delete_of_def select_text_def delete_text_def)
  with a(1,2) inj_delete show "t = t' \<and> cs = cs'" by (auto dest: inj_onD)
qed

lemma inj_insert: "inj_on insert_of (set (List.product table_names schemas))"
  by (simp add: table_names_def schemas_def event_keys_def state_keys_def inj_on_def insert_of_def sql_texts)

lemma inj_create: "inj_on create_of (set (List.product table_names schemas))"
  by (simp add: table_names_def schemas_def event_keys_def state_keys_def inj_on_def create_of_def sql_texts)

lemma inj_tail:
  "inj_on (\<lambda>(r, cs). where_text cs @ order_text c r) ({False, True} \<times> set conditions)"
  by (simp add: conditions_def inj_on_def sql_texts)

lemma tail_hd: "where_text cs @ order_text c r = [] \<or> hd (where_text cs @ order_text c r) = CHR '' ''"
  by (simp add: where_text_def order_text_def)

lemma inj_ordered: "inj_on ordered_of (set (List.product orders (List.product table_names conditions)))"
proof (rule inj_onI)
  fix x y
  assume a: "x \<in> set (List.product orders (List.product table_names conditions))"
    "y \<in> set (List.product orders (List.product table_names conditions))" "ordered_of x = ordered_of y"
  obtain c r t cs c' r' t' cs' where x: "x = ((c, r), t, cs)" and y: "y = ((c', r'), t', cs')"
    by (metis surj_pair)
  have n: "t \<in> set table_names" "t' \<in> set table_names" "cs \<in> set conditions" "cs' \<in> set conditions"
    using a(1,2) x y by auto
  have c: "c = c'" using a unfolding x y by (auto simp: orders_def ordered_of_def select_text_def)
  with a(3) have "t @ (where_text cs @ order_text c r) = t' @ (where_text cs' @ order_text c r')"
    unfolding x y by (simp add: ordered_of_def select_text_def)
  from before_space [OF table_names_plain [OF n(1)] table_names_plain [OF n(2)] tail_hd tail_hd this]
  have t: "t = t'" "where_text cs @ order_text c r = where_text cs' @ order_text c r'" by simp_all
  have "(r, cs) = (r', cs')" by (rule inj_onD [OF inj_tail [of c]]) (use t(2) n in auto)
  with c t(1) show "x = y" unfolding x y by simp
qed

lemma other_statement:
  "delete_of x \<noteq> insert_of y" "delete_of x \<noteq> create_of y" "insert_of x \<noteq> create_of y"
  "insert_of x \<noteq> delete_of y" "create_of x \<noteq> delete_of y" "create_of x \<noteq> insert_of y"
  by (simp_all add: delete_of_def insert_of_def create_of_def delete_text_def insert_text_def create_text_def
      split: prod.split)

section \<open>The engine\<close>

definition table_at :: "sql_mem \<Rightarrow> string \<Rightarrow> (string list \<times> sql_row list) option" where
  "table_at d t =
     (case d t of
        Some (keys, rows) \<Rightarrow>
          if keys \<in> set schemas \<and> bt_ok rows \<and> list_all (\<lambda>r. length (fst r) = length keys) rows
          then Some (keys, rows) else None
      | None \<Rightarrow> None)"

definition text_params :: "sql_value list \<Rightarrow> string list" where
  "text_params ps = map (\<lambda>p. case p of SqlText s \<Rightarrow> s | SqlBlob _ \<Rightarrow> []) ps"

definition blob_param :: "sql_value \<Rightarrow> bytes" where
  "blob_param p = (case p of SqlBlob b \<Rightarrow> b | SqlText _ \<Rightarrow> [])"

definition mem_execute :: "string \<Rightarrow> sql_value list \<Rightarrow> sql_mem \<Rightarrow> (nat, string) outcome \<times> sql_mem" where
  "mem_execute stmt ps d =
     (case recognise delete_of (List.product table_names conditions) stmt of
        Some (t, cs) \<Rightarrow>
          (case table_at d t of
             Some (keys, rows) \<Rightarrow>
               (Ok 1, d(t \<mapsto> (keys, filter (\<lambda>r. \<not> satisfies keys cs (text_params ps) r) rows)))
           | None \<Rightarrow> (Err ''no such table'', d))
      | None \<Rightarrow>
      (case recognise insert_of (List.product table_names schemas) stmt of
         Some (t, keys) \<Rightarrow>
           (case table_at d t of
              Some (_, rows) \<Rightarrow>
                (Ok 1, d(t \<mapsto> (keys, bt_insert (text_params (butlast ps)) (blob_param (last ps)) rows)))
            | None \<Rightarrow> (Err ''no such table'', d))
       | None \<Rightarrow>
       (case recognise create_of (List.product table_names schemas) stmt of
          Some (t, keys) \<Rightarrow> (Ok 0, if table_at d t = None then d(t \<mapsto> (keys, [])) else d)
        | None \<Rightarrow> (Err ''syntax error'', d))))"

definition mem_query_row :: "string \<Rightarrow> sql_value list \<Rightarrow> sql_mem \<Rightarrow> (bytes, string) outcome" where
  "mem_query_row query ps d =
     (case recognise select_of (List.product table_names conditions) query of
        Some (t, cs) \<Rightarrow>
          (case table_at d t of
             Some (keys, rows) \<Rightarrow>
               (case filter (satisfies keys cs (text_params ps)) rows of
                  [] \<Rightarrow> Err ''Query returned no rows''
                | r # _ \<Rightarrow> Ok (snd r))
           | None \<Rightarrow> Err ''no such table'')
      | None \<Rightarrow> Err ''syntax error'')"

definition mem_query ::
  "string \<Rightarrow> sql_value list \<Rightarrow> sql_mem \<Rightarrow> ((string \<times> bytes, string) outcome list, string) outcome" where
  "mem_query query ps d =
     (case recognise ordered_of (List.product orders (List.product table_names conditions)) query of
        Some ((c, r), t, cs) \<Rightarrow>
          (case table_at d t of
             Some (keys, rows) \<Rightarrow>
               (let found = sort_key (\<lambda>r. the (column keys c r)) (filter (satisfies keys cs (text_params ps)) rows)
                in Ok (map (\<lambda>r. Ok (the (column keys c r), snd r)) (if r then rev found else found)))
           | None \<Rightarrow> Err ''no such table'')
      | None \<Rightarrow> Err ''syntax error'')"

definition mem_sqlite :: "sql_mem sqlite_engine" where
  "mem_sqlite = \<lparr>sq_execute = mem_execute, sq_query_row = mem_query_row, sq_query = mem_query\<rparr>"

definition mem_view :: "sql_mem sql_view" where
  "mem_view =
     \<lparr>v_keys = (\<lambda>t d. if t \<in> set table_names then map_option fst (table_at d t) else None),
      v_rows = (\<lambda>t d. case table_at d t of Some (_, rows) \<Rightarrow> rows | None \<Rightarrow> [])\<rparr>"

lemma table_at_update:
  "table_at (d(t \<mapsto> (keys, rows))) t' =
     (if t' = t then
        (if keys \<in> set schemas \<and> bt_ok rows \<and> (\<forall>r \<in> set rows. length (fst r) = length keys) then Some (keys, rows)
         else None)
      else table_at d t')"
  by (simp add: table_at_def list_all_iff)

lemma table_atD:
  assumes "v_keys mem_view t d = Some keys"
  shows "t \<in> set table_names" "table_at d t = Some (keys, v_rows mem_view t d)" "keys \<in> set schemas"
    "rows_ok keys (v_rows mem_view t d)"
proof -
  obtain rows where r: "t \<in> set table_names" "table_at d t = Some (keys, rows)"
    using assms by (auto simp: mem_view_def split: if_splits)
  then have "keys \<in> set schemas" "bt_ok rows" "list_all (\<lambda>r. length (fst r) = length keys) rows"
    by (auto simp: table_at_def split: option.splits if_splits)
  with r show "t \<in> set table_names" "table_at d t = Some (keys, v_rows mem_view t d)" "keys \<in> set schemas"
    "rows_ok keys (v_rows mem_view t d)"
    by (simp_all add: mem_view_def rows_ok_def list_all_iff)
qed

lemma mem_becomes:
  assumes "v_keys mem_view t d = Some keys" "rows_ok keys rows"
  shows "table_becomes mem_view t rows d (d(t \<mapsto> (keys, rows)))"
proof -
  obtain old where "t \<in> set table_names" "table_at d t = Some (keys, old)" "keys \<in> set schemas"
    using table_atD [OF assms(1)] by blast
  with assms(2) show ?thesis by (simp add: table_becomes_def mem_view_def table_at_update rows_ok_def)
qed

lemma text_params_map [simp]: "text_params (map SqlText vs) = vs"
  by (simp add: text_params_def comp_def)

lemma condition_listed:
  assumes "keys \<in> set schemas" "condition_ok keys cs vs"
  shows "cs \<in> set conditions"
proof -
  have d: "distinct cs" "set cs \<subseteq> {''prefix'', ''sn''}"
    using assms by (auto simp: schemas_def condition_ok_def event_keys_def state_keys_def)
  then have "card (set cs) \<le> 2"
    using card_mono [of "{''prefix'', ''sn''}" "set cs"] by (simp add: numeral_2_eq_2)
  then have "length cs \<le> 2" using d(1) by (simp add: distinct_card)
  then consider "cs = []" | x where "cs = [x]" | x y where "cs = [x, y]"
    by (cases cs; cases "tl cs") (auto simp: numeral_2_eq_2 length_Suc_conv split: list.splits)
  then show ?thesis using d by cases (auto simp: conditions_def)
qed

lemma mem_delete:
  assumes "v_keys mem_view t d = Some keys" "condition_ok keys cs vs"
  shows "executes mem_sqlite (delete_text t cs) (map SqlText vs) d
    (table_becomes mem_view t (filter (\<lambda>r. \<not> satisfies keys cs vs r) (v_rows mem_view t d)) d)"
proof -
  note T = table_atD [OF assms(1)]
  have "recognise delete_of (List.product table_names conditions) (delete_text t cs) = Some (t, cs)"
    using recognise_eq [OF inj_delete, of "(t, cs)"] T(1) condition_listed [OF T(3) assms(2)]
    by (simp add: delete_of_def)
  moreover have "rows_ok keys (filter (\<lambda>r. \<not> satisfies keys cs vs r) (v_rows mem_view t d))"
    using T(4) by (auto simp: rows_ok_def bt_ok_filter)
  ultimately show ?thesis
    using mem_becomes [OF assms(1)] by (simp add: executes_def mem_sqlite_def mem_execute_def T(2))
qed

lemma mem_insert:
  assumes "v_keys mem_view t d = Some keys" "length ks = length keys"
  shows "executes mem_sqlite (insert_text t (keys @ [''value''])) (map SqlText ks @ [SqlBlob v]) d
    (table_becomes mem_view t (bt_insert ks v (v_rows mem_view t d)) d)"
proof -
  note T = table_atD [OF assms(1)]
  let ?stmt = "insert_text t (keys @ [''value''])"
  have s: "?stmt = insert_of (t, keys)" by (simp add: insert_of_def)
  have "recognise delete_of (List.product table_names conditions) ?stmt = None"
    unfolding s by (rule recognise_None) (rule other_statement)
  moreover have "recognise insert_of (List.product table_names schemas) ?stmt = Some (t, keys)"
    unfolding s using recognise_eq [OF inj_insert, of "(t, keys)"] T(1,3) by simp
  moreover have "rows_ok keys (bt_insert ks v (v_rows mem_view t d))"
    using T(4) assms(2) by (auto simp: rows_ok_def set_bt_insert)
  ultimately show ?thesis
    using mem_becomes [OF assms(1)] by (simp add: executes_def mem_sqlite_def mem_execute_def T(2) blob_param_def)
qed

lemma mem_create:
  assumes "t \<in> set table_names" "keys \<in> set schemas"
  shows "sq_execute mem_sqlite (create_text t keys) [] d =
    (Ok 0, if table_at d t = None then d(t \<mapsto> (keys, [])) else d)"
proof -
  have s: "create_text t keys = create_of (t, keys)" by (simp add: create_of_def)
  have "recognise delete_of (List.product table_names conditions) (create_text t keys) = None"
    "recognise insert_of (List.product table_names schemas) (create_text t keys) = None"
    unfolding s by (rule recognise_None; rule other_statement)+
  moreover have "recognise create_of (List.product table_names schemas) (create_text t keys) = Some (t, keys)"
    unfolding s using recognise_eq [OF inj_create, of "(t, keys)"] assms by simp
  ultimately show ?thesis by (simp add: mem_sqlite_def mem_execute_def)
qed

lemma mem_selects:
  assumes "v_keys mem_view t d = Some keys" "condition_ok keys cs vs"
  shows "answers_one (filter (satisfies keys cs vs) (v_rows mem_view t d))
      (sq_query_row mem_sqlite (select_text [''value''] t cs) (map SqlText vs) d)"
    "c \<in> set keys \<Longrightarrow> answers_ordered keys c r (filter (satisfies keys cs vs) (v_rows mem_view t d))
      (sq_query mem_sqlite (select_text [c, ''value''] t cs @ order_text c r) (map SqlText vs) d)"
proof -
  note T = table_atD [OF assms(1)]
  have cs: "cs \<in> set conditions" by (rule condition_listed [OF T(3) assms(2)])
  let ?found = "filter (satisfies keys cs vs) (v_rows mem_view t d)"
  have "recognise select_of (List.product table_names conditions) (select_text [''value''] t cs) = Some (t, cs)"
    using recognise_eq [OF inj_select, of "(t, cs)"] T(1) cs by (simp add: select_of_def)
  then have "sq_query_row mem_sqlite (select_text [''value''] t cs) (map SqlText vs) d =
      (case ?found of [] \<Rightarrow> Err ''Query returned no rows'' | r # _ \<Rightarrow> Ok (snd r))"
    by (simp add: mem_sqlite_def mem_query_row_def T(2))
  then show "answers_one ?found (sq_query_row mem_sqlite (select_text [''value''] t cs) (map SqlText vs) d)"
    by (cases ?found) (simp_all add: answers_one_def one_row_def)
  assume c: "c \<in> set keys"
  then have "(c, r) \<in> set orders" using T(3) by (auto simp: orders_def schemas_def event_keys_def state_keys_def)
  then have "recognise ordered_of (List.product orders (List.product table_names conditions))
      (select_text [c, ''value''] t cs @ order_text c r) = Some ((c, r), t, cs)"
    using recognise_eq [OF inj_ordered, of "((c, r), t, cs)"] T(1) cs by (simp add: ordered_of_def)
  then have "sq_query mem_sqlite (select_text [c, ''value''] t cs @ order_text c r) (map SqlText vs) d =
      Ok (map (\<lambda>r. Ok (the (column keys c r), snd r))
        (if r then rev (sort_key (\<lambda>r. the (column keys c r)) ?found) else sort_key (\<lambda>r. the (column keys c r)) ?found))"
    by (simp add: mem_sqlite_def mem_query_def T(2) Let_def)
  then show "answers_ordered keys c r ?found
      (sq_query mem_sqlite (select_text [c, ''value''] t cs @ order_text c r) (map SqlText vs) d)"
    unfolding answers_ordered_def by (intro exI conjI) (assumption, simp_all)
qed

lemma mem_sqlite_laws: "sqlite_laws mem_sqlite mem_view"
  unfolding sqlite_laws_def
proof (intro allI impI)
  fix t keys d assume k: "v_keys mem_view t d = Some keys"
  note T = table_atD [OF k]
  have "executes mem_sqlite (create_text t keys) [] d ((=) d)"
    by (simp add: executes_def mem_create [OF T(1,3)] T(2))
  with T(4) mem_selects [OF k] mem_delete [OF k] mem_insert [OF k]
  show "rows_ok keys (v_rows mem_view t d) \<and>
      (\<forall>cs vs. condition_ok keys cs vs \<longrightarrow>
         answers_one (filter (satisfies keys cs vs) (v_rows mem_view t d))
           (sq_query_row mem_sqlite (select_text [''value''] t cs) (map SqlText vs) d) \<and>
         (\<forall>c \<in> set keys. \<forall>reverse.
            answers_ordered keys c reverse (filter (satisfies keys cs vs) (v_rows mem_view t d))
              (sq_query mem_sqlite (select_text [c, ''value''] t cs @ order_text c reverse) (map SqlText vs) d)) \<and>
         executes mem_sqlite (delete_text t cs) (map SqlText vs) d
           (table_becomes mem_view t (filter (\<lambda>r. \<not> satisfies keys cs vs r) (v_rows mem_view t d)) d)) \<and>
      (\<forall>ks v. length ks = length keys \<longrightarrow>
         executes mem_sqlite (insert_text t (keys @ [''value''])) (map SqlText ks @ [SqlBlob v]) d
           (table_becomes mem_view t (bt_insert ks v (v_rows mem_view t d)) d)) \<and>
      executes mem_sqlite (create_text t keys) [] d ((=) d)"
    by blast
qed

lemma mem_sqlite_creates:
  "t \<in> set table_names \<Longrightarrow> keys \<in> set schemas \<Longrightarrow> sqlite_creates mem_sqlite mem_view t keys"
  by (auto simp: sqlite_creates_def executes_def mem_create mem_view_def table_at_update)

end
