(* ===== verification/Backends.thy ===== *)
theory Backends
  imports Store_Example Rocksdb_Store Sql_Engine
begin

text \<open>
  Persistent actors over the RocksDB and the SQLite backend: the theorems about the store hold for
  both, since both satisfy the contracts of \<open>Database\<close> under the laws of their engines. Then what
  happens when two actors share a table or a column family. The engines (the one of
  RocksDB here, the one of SQLite in \<open>Sql_Engine\<close>) are concrete functions that satisfy the laws.
\<close>

section \<open>A RocksDB engine\<close>

type_synonym rocks_mem = "string \<Rightarrow> (string \<times> bytes) list option"

definition mem_rows :: "string \<Rightarrow> rocks_mem \<Rightarrow> (string \<times> bytes) list" where
  "mem_rows cf w = (case w cf of Some m \<Rightarrow> if bt_ok m then m else [] | None \<Rightarrow> [])"

definition mem_rocks :: "rocks_mem rocks_engine" where
  "mem_rocks =
     \<lparr>rk_cf_handle = (\<lambda>cf w. w cf \<noteq> None),
      rk_create_cf = (\<lambda>cf w. (Ok (), w(cf \<mapsto> []))),
      rk_get_cf = (\<lambda>cf k w. Ok (map_of (mem_rows cf w) k)),
      rk_put_cf = (\<lambda>cf k v w. (Ok (), w(cf \<mapsto> bt_insert k v (mem_rows cf w)))),
      rk_delete_cf = (\<lambda>cf k w. (Ok (), w(cf \<mapsto> bt_remove k (mem_rows cf w)))),
      rk_flush_cf = (\<lambda>cf w. (Ok (), w)),
      rk_iterator_cf = (\<lambda>cf r w. map Ok (if r then rev (mem_rows cf w) else mem_rows cf w))\<rparr>"

lemma mem_rows_ok [simp]: "bt_ok (mem_rows cf w)"
  by (simp add: mem_rows_def split: option.split)

lemma mem_rows_upd: "mem_rows cf' (w(cf \<mapsto> m)) = (if cf' = cf then if bt_ok m then m else [] else mem_rows cf' w)"
  by (simp add: mem_rows_def)

lemma mem_rocks_laws: "rocks_laws mem_rocks mem_rows"
proof -
  have "rocks_cf_laws mem_rocks mem_rows"
    by (auto simp: rocks_cf_laws_def mem_rocks_def mem_rows_upd bt_ok_insert bt_ok_remove)
  moreover have "rocks_create_laws mem_rocks mem_rows"
    by (auto simp: rocks_create_laws_def mem_rocks_def mem_rows_upd)
  ultimately show ?thesis by (simp add: rocks_laws_def)
qed

section \<open>Two actors in one column family\<close>

lemma rocks_iter_items_skip:
  assumes "\<forall>p \<in> set items. utf8_ok (fst p) \<and> \<not> starts_with (fst p) (rs_prefix h)"
  shows "rocks_iter_items h (map Ok items @ rest) = rocks_iter_items h rest"
  using assms by (induction items) (auto split: prod.splits)

lemma rocks_last_own:
  assumes laws: "rocks_laws E rows" and cf: "rk_cf_handle E (rs_name h) w"
    and utf8: "\<forall>p \<in> set (rows (rs_name h) w). utf8_ok (fst p)"
    and own: "own_rows h (rows (rs_name h) w) \<noteq> []" "last (own_rows h (rows (rs_name h) w)) = (key, data)"
    and slice: "(slice_from key (length (rs_prefix h) + 1) :: (string, store_error) outcome) = Ok k"
  shows "coll_last (rocks_collection E) h w = Ok (Some (k, data))"
proof -
  let ?rs = "rows (rs_name h) w"
  have "starts_with key (rs_prefix h)"
    using own last_in_set [OF own(1)] by (auto simp: own_rows_def)
  obtain pre post where split: "?rs = pre @ (key, data) # post"
    and post: "\<forall>p \<in> set post. \<not> starts_with (fst p) (rs_prefix h)"
  proof -
    have "rev (own_rows h ?rs) = (key, data) # tl (rev (own_rows h ?rs))"
      using own by (metis hd_Cons_tl hd_rev rev_is_Nil_conv)
    then have "filter (\<lambda>p. starts_with (fst p) (rs_prefix h)) (rev ?rs) = (key, data) # tl (rev (own_rows h ?rs))"
      by (simp add: own_rows_def rev_filter)
    then obtain us vs where "rev ?rs = us @ (key, data) # vs" "\<forall>p \<in> set us. \<not> starts_with (fst p) (rs_prefix h)"
      by (auto simp: filter_eq_Cons_iff)
    then have "?rs = rev vs @ (key, data) # rev us" by (metis append.assoc append_Cons append_Nil rev.simps(2) rev_append rev_rev_ident)
    with that [of "rev vs" "rev us"] \<open>\<forall>p \<in> set us. _ p\<close> show ?thesis by simp
  qed
  have "rk_iterator_cf E (rs_name h) True w = map Ok (rev post) @ Ok (key, data) # map Ok (rev pre)"
    using rocks_lawsD(3) [OF laws cf, of True] by (simp add: split)
  moreover have "rocks_iter_items h (map Ok (rev post) @ Ok (key, data) # map Ok (rev pre)) =
      rocks_iter_items h (Ok (key, data) # map Ok (rev pre))"
    using post utf8 split by (intro rocks_iter_items_skip) auto
  moreover have "utf8_ok key" using utf8 split by auto
  ultimately have "rocks_iter E h True w = Yield (k, data) (rocks_iter_items h (map Ok (rev pre)))"
    using \<open>starts_with key (rs_prefix h)\<close> slice cf by (simp add: rocks_iter_def)
  then show ?thesis by (simp add: coll_last_def rocks_ops)
qed

text \<open>The key of another actor whose prefix extends the own one by an ASCII character and more: what
  the iterator cuts out of it is no number.\<close>

lemma foreign_key_slice:
  assumes "(of_char c :: nat) < 128" "utf8_ok x" "rs_prefix h' = rs_prefix h @ c # x"
  shows "(slice_from (rocks_key h' (fmt020 n)) (length (rs_prefix h) + 1) :: (string, store_error) outcome) =
    Ok (x @ ''.'' @ fmt020 n)"
  using assms(2)
  by (cases x) (auto simp: rocks_key_def assms(3) slice_from_def nth_append is_continuation_def dest: utf8_head)

lemma foreign_key_no_number: "\<exists>e. parse_u64 (x @ ''.'' @ fmt020 n) = Err e"
  by (rule parse_u64_refuses [of "CHR ''.''"]) (simp_all add: char_digit_def)

lemma store_new_foreign:
  assumes "rk_cf_handle E (name @ ''_events'') w" "rk_cf_handle E (name @ ''_states'') w"
    and "coll_last (rocks_collection E) \<lparr>rs_name = name @ ''_events'', rs_prefix = pfx\<rparr> w = Ok (Some (k, data))"
    and "\<exists>e. parse_u64 k = Err e"
  shows "store_new L (rocks_collection E) (rocks_manager E) name pfx None w =
    (Ok \<lparr>event_counter = 0, state_counter = 0, events = \<lparr>rs_name = name @ ''_events'', rs_prefix = pfx\<rparr>,
       states = \<lparr>rs_name = name @ ''_states'', rs_prefix = pfx\<rparr>, key_box = None\<rparr>, w)"
  using assms by (auto simp: store_new_def rocks_manager_def rocks_create_def)

section \<open>Example worlds\<close>

definition rocks_events :: RocksDbStore where
  "rocks_events = \<lparr>rs_name = ''acc_events'', rs_prefix = ''a''\<rparr>"

definition rocks_states :: RocksDbStore where
  "rocks_states = \<lparr>rs_name = ''acc_states'', rs_prefix = ''a''\<rparr>"

text \<open>Actor \<open>a\<close> has two events and a snapshot; the actor with the given prefix has one event in the same
  column family.\<close>

definition rocks_world :: "string \<Rightarrow> rocks_mem" where
  "rocks_world other =
     [''acc_events'' \<mapsto> [(''a.'' @ fmt020 0, [3]), (''a.'' @ fmt020 1, [7]), (other @ ''.'' @ fmt020 0, [9])],
      ''acc_states'' \<mapsto> [(''a'', 5 # map byte_of_char (fmt020 0))]]"

definition rocks_ctx ::
  "rocks_mem \<Rightarrow> (u8, u8, bytes, RocksDbStore, RocksDbStore, rocks_mem) pctx" where
  "rocks_ctx w =
     \<lparr>pc_path = [''user'', ''a''],
      pc_store = Some (\<lparr>event_counter = 1, state_counter = 0, events = rocks_events, states = rocks_states,
        key_box = None\<rparr>, mailbox_new),
      pc_world = w, pc_rng = 0\<rparr>"

lemma rocks_world_rows:
  assumes "other = ''b'' \<or> other = ''ab''"
  shows "mem_rows ''acc_events'' (rocks_world other) =
      [(''a.'' @ fmt020 0, [3]), (''a.'' @ fmt020 1, [7]), (other @ ''.'' @ fmt020 0, [9])]"
    "mem_rows ''acc_states'' (rocks_world other) = [(''a'', 5 # map byte_of_char (fmt020 0))]"
    "rk_cf_handle mem_rocks ''acc_events'' (rocks_world other)"
    "rk_cf_handle mem_rocks ''acc_states'' (rocks_world other)"
  using assms fmt020_0_less_1
  by (auto simp: mem_rows_def rocks_world_def mem_rocks_def Cons_less_Cons_iff)

lemma utf8_ok_example_keys: "utf8_ok (''a.'' @ fmt020 n)" "utf8_ok (''b.'' @ fmt020 n)" "utf8_ok (''ab.'' @ fmt020 n)"
  by (rule utf8_ok_append; simp add: utf8_ok_ascii)+

lemma rocks_example_opened:
  "rocks_opened mem_rocks mem_rows ''acc'' ''a'' rocks_events rocks_states (rocks_world ''b'')"
proof -
  have own: "\<exists>j. key_ok j \<and> ''a.'' @ fmt020 n = rocks_key rocks_events j" for n
    by (rule exI [of _ "fmt020 n"]) (simp add: rocks_key_def rocks_events_def)
  have "rocks_cvalid mem_rocks mem_rows rocks_events (rocks_world ''b'')"
    using utf8_ok_example_keys [of 0] utf8_ok_example_keys [of 1] rocks_world_rows [of "''b''"]
      own [of 0] own [of 1]
    by (simp add: rocks_cvalid_def rocks_events_def utf8_ok_ascii starts_with_def)
  moreover have "rocks_svalid mem_rocks mem_rows rocks_states (rocks_world ''b'')"
    using rocks_world_rows [of "''b''"] by (simp add: rocks_svalid_def rocks_states_def utf8_ok_ascii)
  ultimately show ?thesis by (simp add: rocks_opened_def rocks_events_def rocks_states_def)
qed

lemma rocks_example_durable_lib:
  assumes "dec_event L = dec_event example_lib" "dec_state L = dec_state example_lib"
    "apply_event L 5 7 = (Ok (), 12)"
  shows "pa_durable (rocks_opened mem_rocks mem_rows ''acc'' ''a'') (rocks_entries mem_rows) (rocks_content mem_rows)
     L None (rocks_ctx (rocks_world ''b'')) [3, 7] 12"
proof -
  have "rocks_entries mem_rows rocks_events (rocks_world ''b'') = [(fmt020 0, [3]), (fmt020 1, [7])]"
    "rocks_content mem_rows rocks_states (rocks_world ''b'') = Some (5 # map byte_of_char (fmt020 0))"
    using rocks_world_rows [of "''b''"]
    by (simp_all add: rocks_entries_def own_rows_def rocks_content_def rocks_events_def rocks_states_def starts_with_def)
  then show ?thesis
    using rocks_example_opened example_state_roundtrip [of "(5, 0)"] assms
    by (auto simp: pa_durable_def rocks_ctx_def idle_def mailbox_new_def durable_def log_rep_def snap_rep_def
        log_entries_def decode_event_def decode_state_def example_enc_state_def
        intro!: exI [of _ "5 :: u8"] exI [of _ "0 :: u64"])
qed

lemma rocks_example_durable:
  "pa_durable (rocks_opened mem_rocks mem_rows ''acc'' ''a'') (rocks_entries mem_rows) (rocks_content mem_rows)
     example_lib None (rocks_ctx (rocks_world ''b'')) [3, 7] 12"
  by (rule rocks_example_durable_lib) simp_all

text \<open>The library of the example with an \<open>apply\<close> that accepts every event.\<close>

definition adder_lib :: "(u8, u8, bytes) store_lib" where
  "adder_lib = example_lib\<lparr>apply_event := \<lambda>p e. (Ok (), p + e)\<rparr>"

lemma adder_apply [simp]: "apply_event adder_lib p e = (Ok (), p + e)"
  by (simp add: adder_lib_def)

lemma adder_total: "total_apply adder_lib"
  by (simp add: total_apply_def adder_lib_def)

lemma adder_applied: "applied adder_lib p es = foldl (+) p es"
  by (simp add: applied_def adder_lib_def)

lemma adder_client_ok: "client_ok adder_lib None example_rng"
  using example_client_ok
  by (simp add: adder_lib_def client_ok_def lib_laws_def codec_laws_def cipher_laws_def box_laws_def box_opens_def
      encodes_def encode_event_def encode_state_def)

lemma adder_durable:
  "pa_durable (rocks_opened mem_rocks mem_rows ''acc'' ''a'') (rocks_entries mem_rows) (rocks_content mem_rows)
     adder_lib None (rocks_ctx (rocks_world ''b'')) [3, 7] 12"
  by (rule rocks_example_durable_lib) (simp_all add: adder_lib_def)

text \<open>The same for SQLite: actors \<open>a\<close> and \<open>ab\<close> in one pair of tables.\<close>

definition sqlite_events :: SqliteCollection where
  "sqlite_events = \<lparr>sc_table = ''acc_events'', sc_prefix = ''a''\<rparr>"

definition sqlite_states :: SqliteCollection where
  "sqlite_states = \<lparr>sc_table = ''acc_states'', sc_prefix = ''a''\<rparr>"

definition sqlite_example_world :: "sql_mem sqlite_world" where
  "sqlite_example_world =
     \<lparr>conn_poisoned = False,
      conn =
        [''acc_events'' \<mapsto>
           (event_keys, [([''a'', fmt020 0], [3]), ([''a'', fmt020 1], [7]), ([''ab'', fmt020 0], [9])]),
         ''acc_states'' \<mapsto> (state_keys, [([''a''], 5 # map byte_of_char (fmt020 0))])]\<rparr>"

lemma sqlite_example_tables:
  "v_event_table mem_view ''acc_events'' (conn sqlite_example_world)"
  "v_state_table mem_view ''acc_states'' (conn sqlite_example_world)"
  "v_rows mem_view ''acc_events'' (conn sqlite_example_world) =
     [([''a'', fmt020 0], [3]), ([''a'', fmt020 1], [7]), ([''ab'', fmt020 0], [9])]"
  "v_rows mem_view ''acc_states'' (conn sqlite_example_world) = [([''a''], 5 # map byte_of_char (fmt020 0))]"
  using fmt020_0_less_1
  by (simp_all add: v_event_table_def v_state_table_def mem_view_def table_at_def schemas_def table_names_def
      event_keys_def state_keys_def sqlite_example_world_def Cons_less_Cons_iff)

definition sqlite_ctx :: "(u8, u8, bytes, SqliteCollection, SqliteCollection, sql_mem sqlite_world) pctx" where
  "sqlite_ctx =
     \<lparr>pc_path = [''user'', ''a''],
      pc_store = Some (\<lparr>event_counter = 1, state_counter = 0, events = sqlite_events, states = sqlite_states,
        key_box = None\<rparr>, mailbox_new),
      pc_world = sqlite_example_world, pc_rng = 0\<rparr>"

lemma sqlite_example_views:
  "sqlite_opened mem_view ''acc'' ''a'' sqlite_events sqlite_states sqlite_example_world"
  "sqlite_entries mem_view sqlite_events sqlite_example_world = [(fmt020 0, [3]), (fmt020 1, [7])]"
  "sqlite_content mem_view sqlite_states sqlite_example_world = Some (5 # map byte_of_char (fmt020 0))"
  using sqlite_example_tables
  by (simp_all add: sqlite_opened_def sqlite_views v_events_def v_state_def prefix_rows_def sqlite_events_def
      sqlite_states_def) (simp_all add: sqlite_example_world_def)

lemma sqlite_example_durable:
  "pa_durable (sqlite_opened mem_view ''acc'' ''a'') (sqlite_entries mem_view) (sqlite_content mem_view)
     example_lib None sqlite_ctx [3, 7] 12"
  using sqlite_example_views example_state_roundtrip [of "(5, 0)"]
  by (auto simp: pa_durable_def sqlite_ctx_def idle_def mailbox_new_def durable_def log_rep_def snap_rep_def
      log_entries_def decode_event_def decode_state_def example_enc_state_def
      intro!: exI [of _ "5 :: u8"] exI [of _ "0 :: u64"])

section \<open>Properties\<close>

text \<open>Over RocksDB too, events persisted in full mode before a crash are all there after it: for every
  engine that satisfies the laws of RocksDB, and as long as no other actor of the column family has a
  prefix that extends the own one, \<open>start_store\<close> gives the actor the state it had.\<close>

theorem rocksdb_crash_restart:
  assumes "rocks_laws E rows"
    and "pa_durable (rocks_opened E rows name pfx) (rocks_entries rows) (rocks_content rows) L kb ctx evs p"
    and "length evs + length es < 2 ^ 64" and "client_ok L kb rng"
    and "apply_all L p es = Ok p'" and "password_box L pw kb"
    and "(case pf of Some q \<Rightarrow> q | None \<Rightarrow> path_key (pc_path ctx)) = pfx"
  shows "\<exists>ctx1 ctx2.
    pa_persist_all L (rocks_collection E) (rocks_state E) rng Full es (p, ctx) = (Some (Ok ()), p', ctx1) \<and>
    pa_start_store L (rocks_collection E) (rocks_state E) (rocks_manager E) rng name pf pw
      (self, ctx1\<lparr>pc_store := None\<rparr>) = (Some (Ok ()), p', ctx2) \<and>
    pa_durable (rocks_opened E rows name pfx) (rocks_entries rows) (rocks_content rows) L kb ctx2 (evs @ es) p'"
  using assms(2-) by (rule reopenable_backend.pa_crash_restart [OF rocks_backend [OF assms(1)]])

theorem rocksdb_crash_restart_witness:
  "\<exists>ctx1 ctx2.
    pa_persist_all example_lib (rocks_collection mem_rocks) (rocks_state mem_rocks) example_rng Full [1, 2]
      (12, rocks_ctx (rocks_world ''b'')) = (Some (Ok ()), 15, ctx1) \<and>
    pa_start_store example_lib (rocks_collection mem_rocks) (rocks_state mem_rocks) (rocks_manager mem_rocks)
      example_rng ''acc'' None None (0, ctx1\<lparr>pc_store := None\<rparr>) = (Some (Ok ()), 15, ctx2) \<and>
    pa_durable (rocks_opened mem_rocks mem_rows ''acc'' ''a'') (rocks_entries mem_rows) (rocks_content mem_rows)
      example_lib None ctx2 [3, 7, 1, 2] 15"
  using rocksdb_crash_restart [OF mem_rocks_laws rocks_example_durable, of "[1, 2]" example_rng 15 None None 0]
    example_client_ok
  by (simp add: password_box_def rocks_ctx_def path_key_def)

text \<open>C35. A RocksDB column family is shared by the actors of one type, and a store takes every key that
  begins with its prefix for its own. When an actor whose prefix is longer (such as \<open>ab\<close> for \<open>a\<close>)
  has the last of these keys, a store opened for \<open>a\<close> cannot read the number of its last event: its
  counter starts again at \<open>0\<close>, and the next event persisted overwrites the event of number \<open>1\<close>.\<close>

theorem rocksdb_shared_prefix_overwrites:
  assumes h_def: "h = \<lparr>rs_name = name @ ''_events'', rs_prefix = pfx\<rparr>"
    and "h' = \<lparr>rs_name = name @ ''_events'', rs_prefix = pfx @ c # x\<rparr>"
    and "rocks_laws E rows"
    and "rk_cf_handle E (name @ ''_events'') w" "rk_cf_handle E (name @ ''_states'') w"
    and "\<forall>p \<in> set (rows (name @ ''_events'') w). utf8_ok (fst p)"
    and "own_rows h (rows (name @ ''_events'') w) \<noteq> []"
    and "last (own_rows h (rows (name @ ''_events'') w)) = (rocks_key h' (fmt020 n), data)"
    and "(of_char c :: nat) < 128" "utf8_ok x"
    and "decode_event L None data = Ok e0" "encode_event L None nonce e = Ok b"
  shows "\<exists>st w'. store_new L (rocks_collection E) (rocks_manager E) name pfx None w = (Ok st, w) \<and>
    events st = h \<and> event_counter st = 0 \<and>
    persist L (rocks_collection E) nonce e (st, w) = (Ok (), st\<lparr>event_counter := 1\<rparr>, w') \<and>
    rocks_coll_get E h (fmt020 1) w' = Ok b"
proof -
  have cf: "rk_cf_handle E (rs_name h) w" using assms by simp
  have "(slice_from (rocks_key h' (fmt020 n)) (length (rs_prefix h) + 1) :: (string, store_error) outcome) =
      Ok (x @ ''.'' @ fmt020 n)"
    using assms by (intro foreign_key_slice) simp_all
  then have last: "coll_last (rocks_collection E) h w = Ok (Some (x @ ''.'' @ fmt020 n, data))"
    using assms by (intro rocks_last_own [OF assms(3) cf]) simp_all
  let ?st = "\<lparr>event_counter = 0, state_counter = 0, events = h,
       states = \<lparr>rs_name = name @ ''_states'', rs_prefix = pfx\<rparr>, key_box = None\<rparr>"
  let ?w' = "snd (rk_put_cf E (rs_name h) (rocks_key h (fmt020 1)) b w)"
  have "store_new L (rocks_collection E) (rocks_manager E) name pfx None w = (Ok ?st, w)"
    using store_new_foreign [OF assms(4,5) last [unfolded h_def] foreign_key_no_number] by (simp add: h_def)
  moreover have "next_event_number L (rocks_collection E) ?st w = Ok 1"
    using last assms(11) by (simp add: next_event_number_def last_event_def)
  then have "persist L (rocks_collection E) nonce e (?st, w) = (Ok (), ?st\<lparr>event_counter := 1\<rparr>, ?w')"
    using assms(12) rocks_put_eq [OF assms(3) cf]
    by (simp add: persist_def rocks_collection_def rocks_coll_put_def)
  moreover have "rocks_coll_get E h (fmt020 1) ?w' = Ok b"
    using rocks_lawsD(1,5,8) [OF assms(3) cf] cf
    by (simp add: rocks_coll_get_def rocks_get_eq [OF assms(3)] map_of_bt_insert)
  ultimately show ?thesis by auto
qed

theorem rocksdb_shared_prefix_overwrites_witness:
  "\<exists>st w'. store_new example_lib (rocks_collection mem_rocks) (rocks_manager mem_rocks) ''acc'' ''a'' None
      (rocks_world ''ab'') = (Ok st, rocks_world ''ab'') \<and> events st = rocks_events \<and> event_counter st = 0 \<and>
    persist example_lib (rocks_collection mem_rocks) [] 4 (st, rocks_world ''ab'') =
      (Ok (), st\<lparr>event_counter := 1\<rparr>, w') \<and>
    rocks_coll_get mem_rocks rocks_events (fmt020 1) w' = Ok [4]"
  using rocksdb_shared_prefix_overwrites [of rocks_events "''acc''" "''a''" _ "CHR ''b''" "[]"
      mem_rocks mem_rows "rocks_world ''ab''" 0 "[9]" example_lib 9 "[]" 4 "[4]", OF _ refl]
    mem_rocks_laws rocks_world_rows [of "''ab''"] utf8_ok_example_keys [of 0] utf8_ok_example_keys [of 1]
  by (simp add: rocks_events_def own_rows_def starts_with_def rocks_key_def decode_event_def encode_event_def)

text \<open>Over SQLite, events persisted in full mode before a crash are all there after it, for every
  engine that executes the statements of the backend as SQL says.\<close>

theorem sqlite_crash_restart:
  assumes "sqlite_laws E V"
    and "pa_durable (sqlite_opened V name pfx) (sqlite_entries V) (sqlite_content V) L kb ctx evs p"
    and "length evs + length es < 2 ^ 64" and "client_ok L kb rng"
    and "apply_all L p es = Ok p'" and "password_box L pw kb"
    and "(case pf of Some q \<Rightarrow> q | None \<Rightarrow> path_key (pc_path ctx)) = pfx"
  shows "\<exists>ctx1 ctx2.
    pa_persist_all L (sqlite_collection E) (sqlite_state E) rng Full es (p, ctx) = (Some (Ok ()), p', ctx1) \<and>
    pa_start_store L (sqlite_collection E) (sqlite_state E) (sqlite_manager E) rng name pf pw
      (self, ctx1\<lparr>pc_store := None\<rparr>) = (Some (Ok ()), p', ctx2) \<and>
    pa_durable (sqlite_opened V name pfx) (sqlite_entries V) (sqlite_content V) L kb ctx2 (evs @ es) p'"
  using assms(2-) by (rule reopenable_backend.pa_crash_restart [OF sqlite_backend [OF assms(1)]])

theorem sqlite_crash_restart_witness:
  "\<exists>ctx1 ctx2.
    pa_persist_all example_lib (sqlite_collection mem_sqlite) (sqlite_state mem_sqlite) example_rng Full [1, 2]
      (12, sqlite_ctx) = (Some (Ok ()), 15, ctx1) \<and>
    pa_start_store example_lib (sqlite_collection mem_sqlite) (sqlite_state mem_sqlite) (sqlite_manager mem_sqlite)
      example_rng ''acc'' None None (0, ctx1\<lparr>pc_store := None\<rparr>) = (Some (Ok ()), 15, ctx2) \<and>
    pa_durable (sqlite_opened mem_view ''acc'' ''a'') (sqlite_entries mem_view) (sqlite_content mem_view)
      example_lib None ctx2 [3, 7, 1, 2] 15"
  using sqlite_crash_restart [OF mem_sqlite_laws sqlite_example_durable, of "[1, 2]" example_rng 15 None None 0]
    example_client_ok
  by (simp add: password_box_def sqlite_ctx_def path_key_def)

text \<open>C38. In SQLite the actors that share a table are separated: writing, deleting or purging through the
  collection of one prefix succeeds and changes neither what the collection of another prefix of
  the same table reads under any key nor what it iterates over. It follows from the \<open>WHERE\<close> clauses and the
  bound parameters of the statements, for every engine that executes them as SQL says and with which both
  collections have been opened.\<close>

theorem sqlite_prefixes_isolated:
  assumes "sqlite_laws E V" "sqlite_cvalid V h w" "sqlite_cvalid V h' w"
    and "sc_table h' = sc_table h" "sc_prefix h' \<noteq> sc_prefix h"
    and "r = sqlite_coll_put E h k v w \<or> r = sqlite_coll_del E h k w \<or> r = sqlite_purge E h w"
  shows "fst r = Ok () \<and> sqlite_coll_get E h' j (snd r) = sqlite_coll_get E h' j w \<and>
    sqlite_iter E h' b (snd r) = sqlite_iter E h' b w"
proof -
  obtain es where "writes_entries V h es w r"
    using sqlite_coll_writes [OF assms(1,2)] assms(6) by metis
  note W = writes_entriesD [OF this]
  have "sqlite_entries V h' (snd r) = sqlite_entries V h' w" using assms(5) by (intro W(6)) simp
  then show ?thesis using assms(3) W(1,3) by (simp add: sqlite_get_eq [OF assms(1)])
qed

theorem sqlite_prefixes_isolated_witness:
  "let r = sqlite_purge mem_sqlite sqlite_events sqlite_example_world;
       h' = \<lparr>sc_table = ''acc_events'', sc_prefix = ''ab''\<rparr>
   in fst r = Ok () \<and>
     sqlite_coll_get mem_sqlite h' (fmt020 0) (snd r) = sqlite_coll_get mem_sqlite h' (fmt020 0) sqlite_example_world \<and>
     sqlite_iter mem_sqlite h' True (snd r) = sqlite_iter mem_sqlite h' True sqlite_example_world"
  using sqlite_prefixes_isolated [where h = sqlite_events and w = sqlite_example_world
      and h' = "\<lparr>sc_table = ''acc_events'', sc_prefix = ''ab''\<rparr>"
      and r = "sqlite_purge mem_sqlite sqlite_events sqlite_example_world" and j = "fmt020 0" and b = True,
      OF mem_sqlite_laws]
    sqlite_example_views(1) sqlite_example_tables(1)
  by (simp add: sqlite_opened_def sqlite_views sqlite_events_def sqlite_states_def Let_def)

text \<open>C10. A new actor over RocksDB, under full persistence: it starts with its initial state, persists any
  number of events, all of them acknowledged, and crashes. It comes back with every event but the
  first: the snapshot that \<open>start_store\<close> wrote for the empty log carries the number of the first event,
  which recovery therefore takes for replayed.\<close>

theorem new_actor_loses_first_event:
  assumes "rocks_laws E rows" "rocks_fresh E rows name pfx (pc_world ctx)" "pc_store ctx = None"
    and "password_box L pw kb" "(case pf of Some q \<Rightarrow> q | None \<Rightarrow> path_key (pc_path ctx)) = pfx"
    and "client_ok L kb rng" "total_apply L" "Suc (length es) < 2 ^ 64"
  shows "\<exists>ctx1 ctx2 ctx3.
    pa_start_store L (rocks_collection E) (rocks_state E) (rocks_manager E) rng name pf pw (p, ctx) =
      (Some (Ok ()), p, ctx1) \<and>
    pa_persist_all L (rocks_collection E) (rocks_state E) rng Full (e # es) (p, ctx1) =
      (Some (Ok ()), applied L p (e # es), ctx2) \<and>
    pa_start_store L (rocks_collection E) (rocks_state E) (rocks_manager E) rng name pf pw
      (self, ctx2\<lparr>pc_store := None\<rparr>) = (Some (Ok ()), applied L p es, ctx3)"
  using assms(2-) by (rule fresh_backend.pa_new_actor_restart [OF rocks_new_backend [OF assms(1)]])

theorem new_actor_loses_first_event_witness:
  "let ctx = (rocks_ctx (rocks_world ''b''))\<lparr>pc_path := [''user'', ''c''], pc_store := None\<rparr> in
   \<exists>ctx1 ctx2 ctx3.
    pa_start_store adder_lib (rocks_collection mem_rocks) (rocks_state mem_rocks) (rocks_manager mem_rocks)
      example_rng ''acc'' None None (0, ctx) = (Some (Ok ()), 0, ctx1) \<and>
    pa_persist_all adder_lib (rocks_collection mem_rocks) (rocks_state mem_rocks) example_rng Full [10, 20, 30]
      (0, ctx1) = (Some (Ok ()), 60, ctx2) \<and>
    pa_start_store adder_lib (rocks_collection mem_rocks) (rocks_state mem_rocks) (rocks_manager mem_rocks)
      example_rng ''acc'' None None (0, ctx2\<lparr>pc_store := None\<rparr>) = (Some (Ok ()), 50, ctx3)"
proof -
  let ?ctx = "(rocks_ctx (rocks_world ''b''))\<lparr>pc_path := [''user'', ''c''], pc_store := None\<rparr>"
  have "rocks_fresh mem_rocks mem_rows ''acc'' ''c'' (pc_world ?ctx)"
    using rocks_world_rows [of "''b''"] utf8_ok_example_keys [of 0] utf8_ok_example_keys [of 1]
    by (simp add: rocks_fresh_def rocks_ctx_def utf8_ok_ascii starts_with_def)
  from new_actor_loses_first_event [OF mem_rocks_laws this, of adder_lib None None None example_rng "[20, 30]" 0 10 0]
    adder_client_ok adder_total
  show ?thesis by (simp add: password_box_def path_key_def adder_applied Let_def del: pa_persist_all.simps)
qed

end
