(* ===== verification/Refused_Writes.thy ===== *)
theory Refused_Writes
  imports Backends
begin

text \<open>
  A database that refuses some writes (a full disk, an I/O error): what a persistent actor knows, what
  is on disk and what a later start reads. The contract \<open>unreliable_backend\<close> of \<open>Database\<close> is the one
  of a lawful collection but for the writes that fail; here the methods of \<open>PersistentActor\<close> run on it,
  and RocksDB with an engine whose \<open>put_cf\<close> may fail is such a collection.
\<close>

section \<open>A client that goes on after errors\<close>

fun pa_persist_each ::
  "('p, 'e, 'k) store_lib \<Rightarrow> ('w, 'c) collection \<Rightarrow> ('w, 's) state_storage \<Rightarrow>
   (nat \<Rightarrow> bytes \<times> bytes) \<Rightarrow> PersistenceType \<Rightarrow> 'e list \<Rightarrow> 'p \<times> ('p, 'e, 'k, 'c, 's, 'w) pctx \<Rightarrow>
   (unit, actor_error) outcome option list \<times> 'p \<times> ('p, 'e, 'k, 'c, 's, 'w) pctx" where
  "pa_persist_each L C S rng persistence [] x = ([], x)"
| "pa_persist_each L C S rng persistence (e # es) x =
     (let (r, y) = pa_persist L C S rng persistence e x;
          (rs, z) = pa_persist_each L C S rng persistence es y
      in (r # rs, z))"

text \<open>The events whose \<open>persist\<close> returned \<open>Ok\<close>.\<close>

definition acknowledged :: "'e list \<Rightarrow> (unit, actor_error) outcome option list \<Rightarrow> 'e list" where
  "acknowledged es rs = map fst (filter (\<lambda>x. snd x = Some (Ok ())) (zip es rs))"

definition ok_or_store_error :: "(unit, actor_error) outcome option \<Rightarrow> bool" where
  "ok_or_store_error r \<longleftrightarrow> (case r of
     Some (Ok _) \<Rightarrow> True | Some (Err (ActorErr_Store _)) \<Rightarrow> True | _ \<Rightarrow> False)"

lemma acknowledged_simps [simp]:
  "acknowledged [] rs = []"
  "acknowledged (e # es) (Some (Ok ()) # rs) = e # acknowledged es rs"
  "acknowledged (e # es) (Some (Err x) # rs) = acknowledged es rs"
  by (simp_all add: acknowledged_def)

lemma length_acknowledged: "length (acknowledged es rs) \<le> length es"
  unfolding acknowledged_def length_map by (rule le_trans [OF length_filter_le]) simp

lemma ok_or_store_error_simps [simp]:
  "ok_or_store_error (Some (Ok ()))" "ok_or_store_error (Some (Err (ActorErr_Store m)))"
  by (simp_all add: ok_or_store_error_def)

section \<open>Persisting over an unreliable backend\<close>

context unreliable_backend
begin

text \<open>One \<open>persist\<close> in full mode, by an actor whose state \<open>p\<close> need not be the durable state \<open>q\<close>.\<close>

lemma pa_persist_try:
  assumes dur: "pa_durable opened entries content L kb ctx evs q" and room: "length evs < 2 ^ 64"
    and ok: "client_ok L kb rng" and app: "total_apply L"
  obtains ctx' where "pa_persist L C S' rng Full e (p, ctx) = (Some (Ok ()), snd (apply_event L p e), ctx')"
      "pa_durable opened entries content L kb ctx' (evs @ [e]) (snd (apply_event L q e))"
      "pc_path ctx' = pc_path ctx"
  | x ctx' where "pa_persist L C S' rng Full e (p, ctx) =
        (Some (Err (ActorErr_Store x)), snd (apply_event L p e), ctx')"
      "pa_durable opened entries content L kb ctx' evs q" "pc_path ctx' = pc_path ctx"
proof -
  note start = that
  obtain st mb where st: "pc_store ctx = Some (st, mb)" "idle mb" "key_box st = kb"
    and d: "durable opened entries content L st (pc_world ctx) evs q"
    using dur by (auto simp: pa_durable_def)
  let ?nonce = "fst (rng (pc_rng ctx))"
  obtain b where b: "encode_event L (key_box st) ?nonce e = Ok b" using client_okD(5) [OF ok] st by blast
  obtain p' q' where p: "apply_event L p e = (Ok (), p')" and q: "apply_event L q e = (Ok (), q')"
    using total_applyD [OF app] by blast
  note persist = pa_persist_full_eq [where rng = rng and ctx = ctx and S = S', OF st(1,2) p]
  from durable_attempt [OF d room client_okD(1,3) [OF ok] b q] show ?thesis
  proof cases
    case (1 st' w')
    from persist [OF 1(1)] st 1(2,3) p q show ?thesis by (fastforce simp: pa_durable_def intro: start(1))
  next
    case (2 x)
    from persist [OF 2] st d p show ?thesis by (fastforce simp: pa_durable_def intro: start(2))
  qed
qed

lemma pa_persist_each_full:
  assumes "pa_durable opened entries content L kb ctx evs q" "length evs + length es < 2 ^ 64"
    "client_ok L kb rng" "total_apply L"
  shows "\<exists>rs ctx'. pa_persist_each L C S' rng Full es (p, ctx) = (rs, applied L p es, ctx') \<and>
    length rs = length es \<and> list_all ok_or_store_error rs \<and> pc_path ctx' = pc_path ctx \<and>
    pa_durable opened entries content L kb ctx' (evs @ acknowledged es rs) (applied L q (acknowledged es rs))"
  using assms
proof (induction es arbitrary: ctx evs p q)
  case (Cons e es)
  let ?p = "snd (apply_event L p e)" and ?q = "snd (apply_event L q e)"
  have room: "length evs < 2 ^ 64" using Cons.prems(2) by simp
  show ?case
  proof (rule pa_persist_try [OF Cons.prems(1) room Cons.prems(3,4), where S' = S' and e = e and p = p])
    fix ctx1 assume c: "pa_persist L C S' rng Full e (p, ctx) = (Some (Ok ()), ?p, ctx1)"
      "pa_durable opened entries content L kb ctx1 (evs @ [e]) ?q" "pc_path ctx1 = pc_path ctx"
    from Cons.IH [OF c(2) _ Cons.prems(3,4), of ?p] Cons.prems(2) c(1,3) show ?case by fastforce
  next
    fix x ctx1 assume c: "pa_persist L C S' rng Full e (p, ctx) = (Some (Err (ActorErr_Store x)), ?p, ctx1)"
      "pa_durable opened entries content L kb ctx1 evs q" "pc_path ctx1 = pc_path ctx"
    from Cons.IH [OF c(2) _ Cons.prems(3,4), of ?p] Cons.prems(2) c(1,3) show ?case by fastforce
  qed
qed auto

text \<open>The process ends and the actor starts again when the database works.\<close>

lemma pa_refused_restart:
  assumes "pa_durable opened entries content L kb ctx evs q" "length evs + length es < 2 ^ 64"
    and ok: "client_ok L kb rng" and "total_apply L" and box: "password_box L pw kb"
    and pfx: "(case pf of Some p \<Rightarrow> p | None \<Rightarrow> path_key (pc_path ctx)) = pfx"
  shows "\<exists>rs ctx1 ctx2. pa_persist_each L C S' rng Full es (p, ctx) = (rs, applied L p es, ctx1) \<and>
    length rs = length es \<and> list_all ok_or_store_error rs \<and>
    pa_start_store L C0 S M rng name pf pw (self, ctx1\<lparr>pc_store := None\<rparr>) =
      (Some (Ok ()), applied L q (acknowledged es rs), ctx2) \<and>
    pa_durable opened entries content L kb ctx2 (evs @ acknowledged es rs) (applied L q (acknowledged es rs))"
proof -
  obtain rs ctx1 where c: "pa_persist_each L C S' rng Full es (p, ctx) = (rs, applied L p es, ctx1)"
    "length rs = length es" "list_all ok_or_store_error rs" "pc_path ctx1 = pc_path ctx"
    "pa_durable opened entries content L kb ctx1 (evs @ acknowledged es rs) (applied L q (acknowledged es rs))"
    using pa_persist_each_full [OF assms(1-4)] by blast
  let ?ctx = "ctx1\<lparr>pc_store := None\<rparr>"
  obtain st where st: "key_box st = kb"
    "durable opened entries content L st (pc_world ?ctx) (evs @ acknowledged es rs) (applied L q (acknowledged es rs))"
    using c(5) by (auto simp: pa_durable_def)
  have "(case pf of Some p \<Rightarrow> p | None \<Rightarrow> path_key (pc_path ?ctx)) = pfx"
    using pfx c(4) by (simp split: option.splits)
  from pa_start_recovers [OF _ this st(2), where rng = rng and self = self] box ok st(1) c(1-3)
  show ?thesis by fastforce
qed

text \<open>Light mode stores the state first. When the event is refused after it, the caller gets an error
  although the new state has become durable.\<close>

lemma pa_light_refused:
  assumes child: "pc_store ctx = Some (st, mb)" "idle mb"
    and rep: "log_rep opened entries L st (pc_world ctx) evs" "evs \<noteq> []"
    and ok: "client_ok L (key_box st) rng" and app: "apply_event L p e = (Ok (), p')"
    and same: "state_put S' (states st) = state_put S (states st)"
    and fail: "\<And>b w. opened (events st) (states st) w \<Longrightarrow>
      \<exists>x. coll_put C (events st) (fmt020 (event_counter st)) b w = (Err x, w)"
  shows "\<exists>x ctx'. pa_persist L C S' rng Light e (p, ctx) = (Some (Err (ActorErr_Store x)), p', ctx') \<and>
    pc_path ctx' = pc_path ctx \<and> pa_durable opened entries content L (key_box st) ctx' evs p'"
proof -
  let ?ns = "rng (pc_rng ctx)" and ?st' = "st\<lparr>state_counter := event_counter st\<rparr>"
  obtain b sb where enc: "encode_event L (key_box st) (fst ?ns) e = Ok b"
    "encode_state L (key_box st) (snd ?ns) (p', event_counter st) = Ok sb"
    using client_okD(5,6) [OF ok] by blast
  obtain x w' where w': "persist_state L C S' ?ns e p' (st, pc_world ctx) = (Err x, ?st', w')"
    "durable opened entries content L ?st' w' evs p'"
    using persist_state_attempt [OF rep client_okD(1) [OF ok] client_okD(3,4) [OF ok]
      client_okD(2) [OF ok] enc same fail] by blast
  have "handle_message L C S' ?ns (CmdPersistLight e p') (st, pc_world ctx) = (Ok (RespError x), ?st', w')"
    using w'(1) by (simp add: respond_def)
  from ask_store_idle [where rng = rng and ctx = ctx, OF child(2) this] obtain mb' where
    "ask_store L C S' rng (CmdPersistLight e p') (st, mb) ctx = (Some (Ok (RespError x)),
      ctx\<lparr>pc_world := w', pc_rng := Suc (pc_rng ctx), pc_store := Some (?st', mb')\<rparr>)" "idle mb'" by auto
  then show ?thesis using child w'(2) app by (simp add: pa_persist_def pa_durable_def)
qed

end

section \<open>RocksDB with writes that fail\<close>

text \<open>\<open>E\<close> is the engine \<open>E0\<close>, but a \<open>put_cf\<close> may return an error, and then nothing has changed.\<close>

definition rocks_may_refuse :: "'w rocks_engine \<Rightarrow> 'w rocks_engine \<Rightarrow> bool" where
  "rocks_may_refuse E E0 \<longleftrightarrow>
     rk_cf_handle E = rk_cf_handle E0 \<and> rk_get_cf E = rk_get_cf E0 \<and> rk_iterator_cf E = rk_iterator_cf E0 \<and>
     (\<forall>cf k v w. rk_put_cf E cf k v w = rk_put_cf E0 cf k v w \<or> (\<exists>x. rk_put_cf E cf k v w = (Err x, w)))"

lemma rocks_may_refuseD:
  assumes "rocks_may_refuse E E0"
  shows "rk_cf_handle E = rk_cf_handle E0" "rk_get_cf E = rk_get_cf E0" "rk_iterator_cf E = rk_iterator_cf E0"
    "rk_put_cf E cf k v w = rk_put_cf E0 cf k v w \<or> (\<exists>x. rk_put_cf E cf k v w = (Err x, w))"
  using assms unfolding rocks_may_refuse_def by blast+

lemma rocks_unreliable:
  assumes laws: "rocks_laws E0 rows" and refuse: "rocks_may_refuse E E0"
  shows "unreliable_backend (rocks_collection E0) (rocks_cvalid E0 rows) (rocks_entries rows)
    (rocks_state E0) (rocks_svalid E0 rows) (rocks_content rows) (rocks_opened E0 rows name pfx)
    (rocks_manager E0) name pfx (rocks_collection E)"
proof (intro unreliable_backend.intro unreliable_backend_axioms.intro rocks_backend [OF laws])
  note E = rocks_may_refuseD [OF refuse]
  show "coll_get (rocks_collection E) = coll_get (rocks_collection E0)"
    by (intro ext) (simp add: rocks_collection_def rocks_coll_get_def rocks_get_def E(1,2))
  show "coll_iter (rocks_collection E) = coll_iter (rocks_collection E0)"
    by (intro ext) (simp add: rocks_collection_def rocks_iter_def E(1,3))
  show "coll_put (rocks_collection E) c k v w = coll_put (rocks_collection E0) c k v w \<or>
      (\<exists>e. coll_put (rocks_collection E) c k v w = (Err e, w))" for c k v w
    using E(4) [of "rs_name c" "rocks_key c k" v w]
    by (auto simp: rocks_collection_def rocks_coll_put_def rocks_put_def E(1))
qed

text \<open>A concrete engine of this kind: a disk that has room for \<open>n\<close> rows per column family.\<close>

definition full_rocks :: "nat \<Rightarrow> rocks_mem rocks_engine" where
  "full_rocks n = mem_rocks\<lparr>rk_put_cf := (\<lambda>cf k v w.
     if n \<le> length (mem_rows cf w) then (Err ''IO error: No space left on device'', w)
     else rk_put_cf mem_rocks cf k v w)\<rparr>"

lemma full_rocks_refuses: "rocks_may_refuse (full_rocks n) mem_rocks"
  by (simp add: rocks_may_refuse_def full_rocks_def)

text \<open>An engine that refuses every event of the column family \<open>acc_events\<close>.\<close>

definition events_refused :: "rocks_mem rocks_engine" where
  "events_refused = mem_rocks\<lparr>rk_put_cf := (\<lambda>cf k v w.
     if cf = ''acc_events'' then (Err ''Corruption: bad block'', w) else rk_put_cf mem_rocks cf k v w)\<rparr>"

lemma events_refused_refuses: "rocks_may_refuse events_refused mem_rocks"
  by (simp add: rocks_may_refuse_def events_refused_def)

interpretation full: unreliable_backend "rocks_collection mem_rocks" "rocks_cvalid mem_rocks mem_rows"
  "rocks_entries mem_rows" "rocks_state mem_rocks" "rocks_svalid mem_rocks mem_rows" "rocks_content mem_rows"
  "rocks_opened mem_rocks mem_rows name pfx" "rocks_manager mem_rocks" name pfx "rocks_collection (full_rocks n)"
  for name pfx n
  by (rule rocks_unreliable [OF mem_rocks_laws full_rocks_refuses])

text \<open>Room for one more row: of two events the first is stored, the second refused.\<close>

lemma disk_with_one_row_left:
  "\<exists>ctx. pa_persist_each adder_lib (rocks_collection (full_rocks 4)) S example_rng Full [1, 2]
      (12, rocks_ctx (rocks_world ''b'')) =
    ([Some (Ok ()), Some (Err (ActorErr_Store ''Get error: IO error: No space left on device''))], 15, ctx)"
proof -
  let ?C = "rocks_collection (full_rocks 4)" and ?w = "rocks_world ''b''" and ?ctx = "rocks_ctx (rocks_world ''b'')"
  let ?st = "\<lparr>event_counter = 1, state_counter = 0, events = rocks_events, states = rocks_states, key_box = None\<rparr>"
    and ?st1 = "\<lparr>event_counter = 2, state_counter = 0, events = rocks_events, states = rocks_states, key_box = None\<rparr>
      :: (RocksDbStore, RocksDbStore, bytes) Store"
  let ?rows = "bt_insert (''a.'' @ fmt020 2) [1] (mem_rows ''acc_events'' ?w)"
  let ?w1 = "?w(''acc_events'' \<mapsto> ?rows)"
  have rows: "mem_rows ''acc_events'' ?w = [(''a.'' @ fmt020 0, [3]), (''a.'' @ fmt020 1, [7]), (''b.'' @ fmt020 0, [9])]"
    using rocks_world_rows(1) [of "''b''"] by simp
  have cf: "rk_cf_handle mem_rocks ''acc_events'' ?w" "rk_cf_handle mem_rocks ''acc_events'' ?w1"
    by (simp_all add: mem_rocks_def rocks_world_def)
  have "length ?rows = 4" by (simp add: rows bt_insert_def linorder_not_less [symmetric] Cons_less_Cons_iff fmt020_less_iff)
  then have len: "length (mem_rows ''acc_events'' ?w1) = 4" by (simp add: mem_rows_upd bt_ok_insert)
  have 1: "persist adder_lib ?C (fst (example_rng 0)) 1 (?st, ?w) = (Ok (), ?st1, ?w1)"
    using cf(1) by (simp add: persist_def encode_event_def adder_lib_def next_event_number_def rocks_collection_def
        rocks_coll_put_def rocks_put_def full_rocks_def rocks_events_def rocks_key_def rows mem_rocks_def)
  have 2: "persist adder_lib ?C (fst (example_rng 1)) 2 (?st1, ?w1) =
      (Err (StoreErr_Get ''IO error: No space left on device''), ?st1, ?w1)"
    using cf(2) len by (simp add: persist_def encode_event_def adder_lib_def next_event_number_def
        rocks_collection_def rocks_coll_put_def rocks_put_def full_rocks_def rocks_events_def)
  have app: "apply_event adder_lib p e = (Ok (), p + e)" for p e by (simp add: adder_lib_def)
  have ctx: "pc_store ?ctx = Some (?st, mailbox_new)" "pc_world ?ctx = ?w" "pc_rng ?ctx = 0"
    by (simp_all add: rocks_ctx_def)
  have idle: "idle (mailbox_new :: ((u8, u8) StoreCommand, (u8, u8) StoreResponse) mailbox)"
    by (simp add: idle_def mailbox_new_def)
  have "persist adder_lib ?C (fst (example_rng (pc_rng ?ctx))) 1 (?st, pc_world ?ctx) = (Ok (), ?st1, ?w1)"
    using 1 ctx by simp
  from pa_persist_full_eq [where rng = example_rng and S = S, OF ctx(1) idle app [of 12 1] this] obtain mb1 where
    p1: "pa_persist adder_lib ?C S example_rng Full 1 (12, ?ctx) =
      (Some (Ok ()), 13, ?ctx\<lparr>pc_world := ?w1, pc_rng := 1, pc_store := Some (?st1, mb1)\<rparr>)" "idle mb1"
    by (auto simp: ctx(3))
  let ?ctx1 = "?ctx\<lparr>pc_world := ?w1, pc_rng := 1, pc_store := Some (?st1, mb1)\<rparr>"
  have s1: "pc_store ?ctx1 = Some (?st1, mb1)" by simp
  have "persist adder_lib ?C (fst (example_rng (pc_rng ?ctx1))) 2 (?st1, pc_world ?ctx1) =
      (Err (StoreErr_Get ''IO error: No space left on device''), ?st1, ?w1)"
    using 2 by simp
  from pa_persist_full_eq [where rng = example_rng and S = S, OF s1 p1(2) app [of 13 2] this]
  have "\<exists>ctx2. pa_persist adder_lib ?C S example_rng Full 2 (13, ?ctx1) =
      (Some (Err (ActorErr_Store ''Get error: IO error: No space left on device'')), 15, ctx2)"
    by auto
  with p1(1) show ?thesis by auto
qed

section \<open>Properties\<close>

text \<open>C12. When RocksDB refuses some of the writes of a running actor under full persistence, \<open>persist\<close> tells
  the actor the truth about each event: the results are \<open>Ok\<close> or an error of the store, the log on disk
  grows by exactly the events that were acknowledged, in order and without a gap in the numbers, and
  after a crash \<open>start_store\<close>, with an engine that works again, gives the state that these events lead to. The
  running actor, however, keeps the refused events in its state: it is not rolled back, so what it
  answers before the crash may differ from what it knows after it.

  The actor has its store open, and the database already holds at least one event and a snapshot with a number
  below the length of the log (\<open>pa_durable\<close>): of a new actor the first event would be lost at the restart
  (\<open>Backends\<close>). Writes apart RocksDB fails no call; serialisation, cipher and key memory succeed and invert each other,
  with the same password; \<open>apply\<close> succeeds for every event; the prefix is the one given or the key of the path; and there
  are fewer than \<open>2^64\<close> events.\<close>

theorem refused_writes_leave_no_trace:
  assumes "rocks_laws E0 rows" "rocks_may_refuse E E0"
    and "pa_durable (rocks_opened E0 rows name pfx) (rocks_entries rows) (rocks_content rows) L kb ctx evs q"
    and "length evs + length es < 2 ^ 64" "client_ok L kb rng" "total_apply L" "password_box L pw kb"
    and "(case pf of Some q \<Rightarrow> q | None \<Rightarrow> path_key (pc_path ctx)) = pfx"
  shows "\<exists>rs ctx1 ctx2.
    pa_persist_each L (rocks_collection E) (rocks_state E) rng Full es (p, ctx) = (rs, applied L p es, ctx1) \<and>
    length rs = length es \<and> list_all ok_or_store_error rs \<and>
    pa_start_store L (rocks_collection E0) (rocks_state E0) (rocks_manager E0) rng name pf pw
      (self, ctx1\<lparr>pc_store := None\<rparr>) = (Some (Ok ()), applied L q (acknowledged es rs), ctx2) \<and>
    pa_durable (rocks_opened E0 rows name pfx) (rocks_entries rows) (rocks_content rows) L kb ctx2
      (evs @ acknowledged es rs) (applied L q (acknowledged es rs))"
  by (rule unreliable_backend.pa_refused_restart [OF rocks_unreliable [OF assms(1,2)] assms(3-)])

theorem refused_writes_leave_no_trace_witness:
  "\<exists>ctx1 ctx2.
    pa_persist_each adder_lib (rocks_collection (full_rocks 4)) (rocks_state (full_rocks 4)) example_rng Full [1, 2]
      (12, rocks_ctx (rocks_world ''b'')) =
        ([Some (Ok ()), Some (Err (ActorErr_Store ''Get error: IO error: No space left on device''))], 15, ctx1) \<and>
    pa_start_store adder_lib (rocks_collection mem_rocks) (rocks_state mem_rocks) (rocks_manager mem_rocks)
      example_rng ''acc'' None None (0, ctx1\<lparr>pc_store := None\<rparr>) = (Some (Ok ()), 13, ctx2) \<and>
    pa_durable (rocks_opened mem_rocks mem_rows ''acc'' ''a'') (rocks_entries mem_rows) (rocks_content mem_rows)
      adder_lib None ctx2 [3, 7, 1] 13"
proof -
  let ?run = "pa_persist_each adder_lib (rocks_collection (full_rocks 4)) (rocks_state (full_rocks 4)) example_rng
      Full [1, 2] (12, rocks_ctx (rocks_world ''b''))"
  let ?rs = "[Some (Ok ()), Some (Err (ActorErr_Store ''Get error: IO error: No space left on device''))]"
  have pfx: "(case None of Some q \<Rightarrow> q | None \<Rightarrow> path_key (pc_path (rocks_ctx (rocks_world ''b'')))) = ''a''"
    by (simp add: rocks_ctx_def path_key_def)
  obtain ctx where run: "?run = (?rs, 15, ctx)"
    using disk_with_one_row_left [of "rocks_state (full_rocks 4)"] by blast
  from refused_writes_leave_no_trace [OF mem_rocks_laws full_rocks_refuses [of 4] adder_durable _ adder_client_ok
      adder_total _ pfx, of "[1, 2]" None 12 0] run
  show ?thesis by (auto simp: password_box_def adder_applied)
qed

text \<open>C13. In light mode the store writes the state before the event. When RocksDB refuses the event,
  \<open>persist\<close> returns an error, but the new state is on disk: after a crash \<open>start_store\<close> gives the state
  with the refused event applied, so a caller that repeats the event applies it twice.\<close>

theorem light_error_yet_stored:
  assumes "rocks_laws E0 rows" "rocks_may_refuse E E0"
    and refused: "\<And>k v w. rk_put_cf E (name @ ''_events'') k v w = (Err m, w)"
    and stored: "rk_put_cf E (name @ ''_states'') = rk_put_cf E0 (name @ ''_states'')"
    and child: "pc_store ctx = Some (st, mb)" "idle mb"
    and rep: "log_rep (rocks_opened E0 rows name pfx) (rocks_entries rows) L st (pc_world ctx) evs" "evs \<noteq> []"
    and ok: "client_ok L (key_box st) rng" "apply_event L p e = (Ok (), p')" "password_box L pw (key_box st)"
    and pfx: "(case pf of Some q \<Rightarrow> q | None \<Rightarrow> path_key (pc_path ctx)) = pfx"
  shows "\<exists>x ctx1 ctx2.
    pa_persist L (rocks_collection E) (rocks_state E) rng Light e (p, ctx) =
      (Some (Err (ActorErr_Store x)), p', ctx1) \<and>
    pa_start_store L (rocks_collection E0) (rocks_state E0) (rocks_manager E0) rng name pf pw
      (self, ctx1\<lparr>pc_store := None\<rparr>) = (Some (Ok ()), p', ctx2)"
proof -
  note U = rocks_unreliable [OF assms(1,2), of name pfx] and E = rocks_may_refuseD [OF assms(2)]
  have op: "rocks_opened E0 rows name pfx (events st) (states st) (pc_world ctx)"
    using rep by (simp add: log_rep_def)
  have same: "state_put (rocks_state E) (states st) = state_put (rocks_state E0) (states st)"
    using op stored by (intro ext) (simp add: rocks_opened_def rocks_state_def rocks_state_put_def rocks_put_def E(1))
  have fail: "\<exists>x. coll_put (rocks_collection E) (events st) k b w = (Err x, w)"
    if "rocks_opened E0 rows name pfx (events st) (states st) w" for k b w
    using that refused by (auto simp: rocks_opened_def rocks_cvalid_def rocks_collection_def rocks_coll_put_def
        rocks_put_def E(1))
  obtain x ctx1 where c: "pa_persist L (rocks_collection E) (rocks_state E) rng Light e (p, ctx) =
      (Some (Err (ActorErr_Store x)), p', ctx1)" "pc_path ctx1 = pc_path ctx"
    "pa_durable (rocks_opened E0 rows name pfx) (rocks_entries rows) (rocks_content rows) L (key_box st) ctx1 evs p'"
    using unreliable_backend.pa_light_refused [OF U child rep ok(1,2) same fail] by blast
  let ?ctx = "ctx1\<lparr>pc_store := None\<rparr>"
  obtain st1 where st1: "key_box st1 = key_box st"
    "durable (rocks_opened E0 rows name pfx) (rocks_entries rows) (rocks_content rows) L st1 (pc_world ?ctx) evs p'"
    using c(3) by (auto simp: pa_durable_def)
  have "(case pf of Some p \<Rightarrow> p | None \<Rightarrow> path_key (pc_path ?ctx)) = pfx"
    using pfx c(2) by (simp split: option.splits)
  from reopenable_backend.pa_start_recovers [OF rocks_backend [OF assms(1)] _ this st1(2), where rng = rng and self = self]
    ok(1,3) st1(1) c(1)
  show ?thesis by fastforce
qed

theorem light_error_yet_stored_witness:
  "\<exists>x ctx1 ctx2.
    pa_persist example_lib (rocks_collection events_refused) (rocks_state events_refused) example_rng Light 4
      (12, rocks_ctx (rocks_world ''b'')) = (Some (Err (ActorErr_Store x)), 16, ctx1) \<and>
    pa_start_store example_lib (rocks_collection mem_rocks) (rocks_state mem_rocks) (rocks_manager mem_rocks)
      example_rng ''acc'' None None (0, ctx1\<lparr>pc_store := None\<rparr>) = (Some (Ok ()), 16, ctx2)"
proof -
  let ?ctx = "rocks_ctx (rocks_world ''b'')"
  let ?st = "\<lparr>event_counter = 1, state_counter = 0, events = rocks_events, states = rocks_states, key_box = None\<rparr>"
  have child: "pc_store ?ctx = Some (?st, mailbox_new)"
    and idle: "idle (mailbox_new :: ((u8, u8) StoreCommand, (u8, u8) StoreResponse) mailbox)"
    by (simp_all add: rocks_ctx_def idle_def mailbox_new_def)
  have rep: "log_rep (rocks_opened mem_rocks mem_rows ''acc'' ''a'') (rocks_entries mem_rows) example_lib ?st
      (pc_world ?ctx) [3, 7]"
    using rocks_example_durable child by (auto simp: pa_durable_def durable_def)
  show ?thesis
    by (rule light_error_yet_stored [OF mem_rocks_laws events_refused_refuses _ _ child idle rep])
      (use example_client_ok in \<open>simp_all add: events_refused_def password_box_def rocks_ctx_def path_key_def\<close>)
qed

end
