(* ===== verification/Persistent_Runner.thy ===== *)
theory Persistent_Runner
  imports Actor_Ref Refused_Writes
begin

text \<open>
  A persistent actor as a task: the runner of \<open>Actor_Runner\<close> with the hooks that the documentation of
  \<open>PersistentActor\<close> asks for. \<open>pre_start\<close> calls \<open>start_store\<close>, \<open>pre_stop\<close> calls \<open>stop_store\<close>, and the handler
  decides for each message whether there is an event, which it persists. The actor of the runner is
  the pair of the persistent state and what its methods reach (\<open>pctx\<close>). The child \<open>store\<close> is served in
  its \<open>pctx\<close>; it is not repeated among the children of the runner.
\<close>

section \<open>The hooks\<close>

text \<open>A method that waits for ever would not return; the lemmas below show that it does not happen.\<close>

definition store_hook ::
  "((unit, actor_error) outcome option \<times> 'a) \<Rightarrow> 'c \<Rightarrow> (unit, actor_error) outcome \<times> 'a \<times> 'c" where
  "store_hook = (\<lambda>(r, a) c. case r of Some x \<Rightarrow> (x, a, c) | None \<Rightarrow> (Panic ''waiting for the store'', a, c))"

definition persistent_message ::
  "('p, 'e, 'k) store_lib \<Rightarrow> ('w, 'c) collection \<Rightarrow> ('w, 's) state_storage \<Rightarrow> (nat \<Rightarrow> bytes \<times> bytes) \<Rightarrow>
   PersistenceType \<Rightarrow> ('m \<Rightarrow> 'p \<Rightarrow> 'e option) \<Rightarrow> 'm \<Rightarrow> ('p \<times> ('p, 'e, 'k, 'c, 's, 'w) pctx, 'h, 'v) hook" where
  "persistent_message L C S rng persistence decide msg = (\<lambda>((p, pc), c).
     case decide msg p of
       None \<Rightarrow> (Ok (), (p, pc), c)
     | Some e \<Rightarrow> store_hook (pa_persist L C S rng persistence e (p, pc)) c)"

definition persistent_impl ::
  "('p, 'e, 'k) store_lib \<Rightarrow> ('w, 'c) collection \<Rightarrow> ('w, 's) state_storage \<Rightarrow> ('w, 'c, 's) db_manager \<Rightarrow>
   (nat \<Rightarrow> bytes \<times> bytes) \<Rightarrow> string \<Rightarrow> string option \<Rightarrow> bytes option \<Rightarrow> PersistenceType \<Rightarrow>
   ('m \<Rightarrow> 'p \<Rightarrow> 'e option) \<Rightarrow> ('p \<times> ('p, 'e, 'k, 'c, 's, 'w) pctx, 'm, 'h, 'v) actor_impl" where
  "persistent_impl L C S M rng name pf pw persistence decide =
     (default_impl (\<lambda>(x, c). store_hook (pa_start_store L C S M rng name pf pw x) c)
        (persistent_message L C S rng persistence decide))
     \<lparr>pre_stop := (\<lambda>((p, pc), c).
        let (r, pc') = pa_stop_store L C S rng 0 persistence p pc in store_hook (r, p, pc') c)\<rparr>"

section \<open>What the commands should do\<close>

text \<open>The state and the log after a list of messages, without runner, store or database. An event that
  \<open>apply\<close> refuses changes nothing; light persistence keeps the last event only.\<close>

definition log_next :: "PersistenceType \<Rightarrow> 'e list \<Rightarrow> 'e \<Rightarrow> 'e list" where
  "log_next persistence log e = (case persistence of Full \<Rightarrow> log | Light \<Rightarrow> butlast log) @ [e]"

definition command ::
  "('p, 'e, 'k) store_lib \<Rightarrow> PersistenceType \<Rightarrow> ('m \<Rightarrow> 'p \<Rightarrow> 'e option) \<Rightarrow> 'm \<Rightarrow> 'p \<times> 'e list \<Rightarrow> 'p \<times> 'e list"
where
  "command L persistence decide msg = (\<lambda>(p, log).
     case decide msg p of
       None \<Rightarrow> (p, log)
     | Some e \<Rightarrow>
         (case apply_event L p e of
            (Ok _, p') \<Rightarrow> (p', log_next persistence log e)
          | _ \<Rightarrow> (p, log)))"

definition commands ::
  "('p, 'e, 'k) store_lib \<Rightarrow> PersistenceType \<Rightarrow> ('m \<Rightarrow> 'p \<Rightarrow> 'e option) \<Rightarrow> 'm list \<Rightarrow> 'p \<times> 'e list \<Rightarrow> 'p \<times> 'e list"
where
  "commands L persistence decide = fold (command L persistence decide)"

lemma commands_simps [simp]:
  "commands L persistence decide [] x = x"
  "commands L persistence decide (ms @ [m]) x = command L persistence decide m (commands L persistence decide ms x)"
  by (simp_all add: commands_def)

lemma length_command:
  "log \<noteq> [] \<Longrightarrow> length (snd (command L persistence decide m (p, log))) \<le> Suc (length log) \<and>
     snd (command L persistence decide m (p, log)) \<noteq> []"
  by (auto simp: command_def log_next_def split: option.split prod.split outcome.split PersistenceType.split)

lemma length_commands:
  "snd x \<noteq> [] \<Longrightarrow> length (snd (commands L persistence decide ms x)) \<le> length (snd x) + length ms \<and>
     snd (commands L persistence decide ms x) \<noteq> []"
proof (induction ms rule: rev_induct)
  case (snoc m ms)
  then show ?case
    using length_command [of "snd (commands L persistence decide ms x)" L persistence decide m
        "fst (commands L persistence decide ms x)"] by auto
qed simp

text \<open>\<open>apply\<close> does not panic.\<close>

definition safe_apply :: "('p, 'e, 'k) store_lib \<Rightarrow> bool" where
  "safe_apply L \<longleftrightarrow> (\<forall>p e. \<not> panics (fst (apply_event L p e)))"

text \<open>The database holds the state \<open>p\<close>, with the given log, for whoever opens it.\<close>

definition db_holds ::
  "('c \<Rightarrow> 's \<Rightarrow> 'w \<Rightarrow> bool) \<Rightarrow> ('c \<Rightarrow> 'w \<Rightarrow> (string \<times> bytes) list) \<Rightarrow> ('s \<Rightarrow> 'w \<Rightarrow> bytes option) \<Rightarrow>
   ('p, 'e, 'k) store_lib \<Rightarrow> 'k option \<Rightarrow> 'w \<Rightarrow> 'e list \<Rightarrow> 'p \<Rightarrow> bool" where
  "db_holds opened entries content L kb w log p \<longleftrightarrow>
     (\<exists>st. key_box st = kb \<and> durable opened entries content L st w log p)"

lemma pa_durable_holds:
  "pa_durable opened entries content L kb pc log p \<Longrightarrow> db_holds opened entries content L kb (pc_world pc) log p"
  by (auto simp: pa_durable_def db_holds_def)

lemma db_holds_log: "db_holds opened entries content L kb w log p \<Longrightarrow> log \<noteq> []"
  by (auto simp: db_holds_def durable_def)

lemma ask_store_path: "ask_store L C S rng cmd x ctx = (r, ctx') \<Longrightarrow> pc_path ctx' = pc_path ctx"
  by (auto simp: ask_store_def set_store_def split: prod.splits)

lemma pa_persist_path:
  "pa_persist L C S rng persistence e (p, ctx) = (r, p', ctx') \<Longrightarrow> pc_path ctx' = pc_path ctx"
  by (auto simp: pa_persist_def Let_def dest: ask_store_path split: option.splits prod.splits outcome.splits)

lemma pa_start_path:
  "pa_start_store L C S M rng name pf pw (p, ctx) = (r, p', ctx') \<Longrightarrow> pc_path ctx' = pc_path ctx"
  by (auto simp: pa_start_store_def create_store_child_def tell_store_def Let_def dest: ask_store_path
      split: option.splits prod.splits outcome.splits StoreResponse.splits if_splits)

section \<open>The hooks over a backend\<close>

context reopenable_backend
begin

lemma start_hook:
  assumes "pc_store pc = None" "(case pf of Some p \<Rightarrow> p | None \<Rightarrow> path_key (pc_path pc)) = pfx"
    "db_holds opened entries content L kb (pc_world pc) log q" "password_box L pw kb" "client_ok L kb rng"
  shows "\<exists>pc'. pa_start_store L C S M rng name pf pw (p, pc) = (Some (Ok ()), q, pc') \<and>
    pa_durable opened entries content L kb pc' log q \<and> pc_path pc' = pc_path pc"
proof -
  obtain st where st: "key_box st = kb" "durable opened entries content L st (pc_world pc) log q"
    using assms(3) by (auto simp: db_holds_def)
  obtain pc' where pc': "pa_start_store L C S M rng name pf pw (p, pc) = (Some (Ok ()), q, pc')"
    "pa_durable opened entries content L kb pc' log q"
    using pa_start_recovers [OF assms(1,2) st(2)] st(1) assms(4,5) by blast
  with pa_start_path [OF pc'(1)] show ?thesis by auto
qed

lemma persist_hook:
  assumes "pa_durable opened entries content L kb pc log p" "length log < 2 ^ 64" "client_ok L kb rng"
    and "apply_event L p e = (Ok (), p')"
  shows "\<exists>pc'. pa_persist L C S rng persistence e (p, pc) = (Some (Ok ()), p', pc') \<and>
    pa_durable opened entries content L kb pc' (log_next persistence log e) p' \<and> pc_path pc' = pc_path pc"
proof -
  obtain st mb where st: "pc_store pc = Some (st, mb)" "idle mb" "key_box st = kb"
    "log_rep opened entries L st (pc_world pc) log"
    using assms(1) by (auto simp: pa_durable_def durable_def)
  have "\<exists>pc'. pa_persist L C S rng persistence e (p, pc) = (Some (Ok ()), p', pc') \<and>
      pa_durable opened entries content L kb pc' (log_next persistence log e) p'"
  proof (cases persistence)
    case Light
    then show ?thesis using pa_persist_light [OF st(1,2,4) _ assms(4)] assms(3) st(3) by (auto simp: log_next_def)
  next
    case Full
    then show ?thesis using pa_persist_full [OF assms(1-4)] by (auto simp: log_next_def)
  qed
  then show ?thesis by (metis pa_persist_path)
qed

lemma stop_hook:
  assumes "pa_durable opened entries content L kb pc log p" "client_ok L kb rng"
  shows "\<exists>pc'. pa_stop_store L C S rng 0 persistence p pc = (Some (Ok ()), pc') \<and> pc_store pc' = None \<and>
    pc_path pc' = pc_path pc \<and> db_holds opened entries content L kb (pc_world pc') log p"
proof -
  obtain st mb where st: "pc_store pc = Some (st, mb)" "idle mb" "key_box st = kb"
    and d: "durable opened entries content L st (pc_world pc) log p"
    using assms(1) by (auto simp: pa_durable_def)
  show ?thesis
  proof (cases persistence)
    case Light
    then show ?thesis
      using st d by (auto simp: pa_stop_store_def stop_child_def set_store_def idle_def db_holds_def)
  next
    case Full
    have "log_rep opened entries L st (pc_world pc) log" "log \<noteq> []" using d by (auto simp: durable_def)
    from pa_stop_full [OF st(1,2) this, of rng p] Full assms(2) st(3) show ?thesis
      by (auto simp: db_holds_def)
  qed
qed

end

section \<open>The invariant of the task\<close>

definition persistent_inv ::
  "('c \<Rightarrow> 's \<Rightarrow> 'w \<Rightarrow> bool) \<Rightarrow> ('c \<Rightarrow> 'w \<Rightarrow> (string \<times> bytes) list) \<Rightarrow> ('s \<Rightarrow> 'w \<Rightarrow> bytes option) \<Rightarrow>
   ('p, 'e, 'k) store_lib \<Rightarrow> 'k option \<Rightarrow> actor_path \<Rightarrow> 'p \<times> 'e list \<Rightarrow>
   ('p \<times> ('p, 'e, 'k, 'c, 's, 'w) pctx, 'm, 'h, 'v) runner \<Rightarrow> bool" where
  "persistent_inv opened entries content L kb path = (\<lambda>(q, log) r.
     let p = fst (ru_actor r); pc = snd (ru_actor r) in
     cx_error (ru_ctx r) = None \<and> cx_inner (ru_ctx r) = [] \<and> pc_path pc = path \<and>
     ru_end r \<noteq> Some Panicked \<and> ru_lifecycle r \<in> {Created, Started, Stopped, Terminated} \<and>
     (ru_running r \<longrightarrow> ru_lifecycle r = Started) \<and>
     (ru_lifecycle r = Created \<longrightarrow> pc_store pc = None) \<and>
     (ru_lifecycle r = Started \<longrightarrow> p = q \<and> pa_durable opened entries content L kb pc log q) \<and>
     db_holds opened entries content L kb (pc_world pc) log q)"

lemma persistent_impl_simps [simp]:
  "pre_start (persistent_impl L C S M rng name pf pw persistence decide) (x, c) =
     store_hook (pa_start_store L C S M rng name pf pw x) c"
  "post_stop (persistent_impl L C S M rng name pf pw persistence decide) y = (Ok (), y)"
  "handle_msg (persistent_impl L C S M rng name pf pw persistence decide) =
     persistent_message L C S rng persistence decide"
  "pre_stop (persistent_impl L C S M rng name pf pw persistence decide) ((p, pc), c) =
     (let (r, pc') = pa_stop_store L C S rng 0 persistence p pc in store_hook (r, p, pc') c)"
  "on_child_error (persistent_impl L C S M rng name pf pw persistence decide) e y = y"
  "on_child_fault (persistent_impl L C S M rng name pf pw persistence decide) e y = (ChildStop, y)"
  by (simp_all add: persistent_impl_def default_impl_def)

lemma store_hook_Some [simp]: "store_hook (Some x, a) c = (x, a, c)"
  by (simp add: store_hook_def)

lemma command_persist:
  assumes "decide m p = Some e" "apply_event L p e = (r, p')" "\<not> panics r"
  shows "command L persistence decide m (p, log) =
    (if is_ok r then (p', log_next persistence log e) else (p, log))"
  using assms by (cases r) (simp_all add: command_def)

lemma handled_grows:
  "runner_step I r r' \<Longrightarrow> \<exists>ms. handled (ru_out r') = handled (ru_out r) @ ms"
proof (induction rule: runner_step.induct)
  case (MsgBranch r msg rest)
  show ?case unfolding run_msg_def by (rule with_hook_cases) (simp_all add: runner_helpers)
qed (auto simp: init_turn_keeps run_stop_keeps run_child_error_def inner_handle_def runner_helpers
  split: ChildError.split InnerAction.split option.split ChildAction.split)

context reopenable_backend
begin

lemma persistent_turn:
  assumes inv: "persistent_inv opened entries content L kb path x r" and r: "ru_end r = None" "\<not> ru_running r"
    and pfx: "(case pf of Some p \<Rightarrow> p | None \<Rightarrow> path_key path) = pfx"
    and ok: "password_box L pw kb" "client_ok L kb rng"
  shows "persistent_inv opened entries content L kb path x
    (init_turn (persistent_impl L C S M rng name pf pw persistence decide) r)"
proof -
  obtain q log p pc where x: "x = (q, log)" and a: "ru_actor r = (p, pc)" by (metis surj_pair)
  note i = inv [unfolded x persistent_inv_def prod.case Let_def a fst_conv snd_conv]
  show ?thesis
  proof (cases "ru_lifecycle r")
    case Created
    have "pc_path pc = path" "pc_store pc = None" using i Created by auto
    with start_hook [of pc pf L kb log q pw rng p] i pfx ok obtain pc' where
      "pa_start_store L C S M rng name pf pw (p, pc) = (Some (Ok ()), q, pc')"
      "pa_durable opened entries content L kb pc' log q" "pc_path pc' = path" by auto
    with Created i a x show ?thesis
      by (auto simp: init_turn_def with_hook_def persistent_inv_def runner_helpers dest: pa_durable_holds)
  next
    case Started
    with i a x show ?thesis by (auto simp: init_turn_def persistent_inv_def runner_helpers)
  next
    case Stopped
    with i a x r show ?thesis by (auto simp: init_turn_def with_hook_def persistent_inv_def runner_helpers)
  next
    case Terminated
    with i a x r show ?thesis
      by (auto simp: init_turn_def with_hook_def persistent_inv_def runner_helpers ctx_remove_actor_def)
  qed (use i in auto)
qed

lemma persistent_stop:
  assumes inv: "persistent_inv opened entries content L kb path x r" and r: "ru_end r = None" "ru_running r"
    and ok: "client_ok L kb rng"
  shows "persistent_inv opened entries content L kb path x
    (run_stop (persistent_impl L C S M rng name pf pw persistence decide) stop
      (r\<lparr>ru_ctx := (ru_ctx r)\<lparr>cx_stop := rest\<rparr>\<rparr>))"
proof -
  obtain q log p pc where x: "x = (q, log)" and a: "ru_actor r = (p, pc)" by (metis surj_pair)
  note i = inv [unfolded x persistent_inv_def prod.case Let_def a fst_conv snd_conv]
  have st: "ru_lifecycle r = Started" "p = q" "pa_durable opened entries content L kb pc log q"
    using i r by auto
  obtain pc' where "pa_stop_store L C S rng 0 persistence q pc = (Some (Ok ()), pc')" "pc_store pc' = None"
    "pc_path pc' = pc_path pc" "db_holds opened entries content L kb (pc_world pc') log q"
    using stop_hook [OF st(3) ok] by blast
  with i a x st r show ?thesis
    by (auto simp: run_stop_def with_hook_def persistent_inv_def runner_helpers ctx_stop_childs_def
        ctx_remove_actor_def split: option.split)
qed

lemma persistent_msg:
  assumes inv: "persistent_inv opened entries content L kb path x r" and r: "ru_end r = None" "ru_running r"
    and ok: "client_ok L kb rng" "safe_apply L" and room: "length (snd x) < 2 ^ 64"
  shows "persistent_inv opened entries content L kb path (command L persistence decide m x)
    (run_msg (persistent_impl L C S M rng name pf pw persistence decide) m (r\<lparr>ru_receiver := rest\<rparr>))"
proof -
  obtain q log p pc where x: "x = (q, log)" and a: "ru_actor r = (p, pc)" by (metis surj_pair)
  note i = inv [unfolded x persistent_inv_def prod.case Let_def a fst_conv snd_conv]
  have st: "ru_lifecycle r = Started" "p = q" "pa_durable opened entries content L kb pc log q"
    using i r by auto
  show ?thesis
  proof (cases "decide m q")
    case None
    with i a x st r show ?thesis
      by (auto simp: run_msg_def with_hook_def persistent_inv_def runner_helpers persistent_message_def command_def)
  next
    case (Some e)
    obtain res q' where app: "apply_event L q e = (res, q')" by fastforce
    have np: "\<not> panics res" using ok(2) app unfolding safe_apply_def by (metis fst_conv)
    show ?thesis
    proof (cases res)
      case (Ok u)
      with app have app': "apply_event L q e = (Ok (), q')" by simp
      obtain pc' where "pa_persist L C S rng persistence e (q, pc) = (Some (Ok ()), q', pc')"
        "pa_durable opened entries content L kb pc' (log_next persistence log e) q'" "pc_path pc' = pc_path pc"
        using persist_hook [OF st(3) _ ok(1) app', of persistence] room x by auto
      with i a x st r Some app' show ?thesis
        by (auto simp: run_msg_def with_hook_def persistent_inv_def runner_helpers persistent_message_def
            command_def dest: pa_durable_holds)
    next
      case (Err y)
      obtain st' where "pc_store pc = Some st'" using st(3) by (auto simp: pa_durable_def)
      with Err app have "pa_persist L C S rng persistence e (q, pc) = (Some (Err y), q, pc)"
        by (simp add: pa_persist_def pa_update_def)
      with i a x st r Some app Err show ?thesis
        by (auto simp: run_msg_def with_hook_def persistent_inv_def runner_helpers persistent_message_def command_def)
    qed (use np in simp)
  qed
qed

text \<open>One step; the log is the initial one and what the handled messages made of it.\<close>

lemma persistent_step:
  assumes step: "runner_step (persistent_impl L C S M rng name pf pw persistence decide) r r'"
    and inv: "persistent_inv opened entries content L kb path
      (commands L persistence decide (handled (ru_out r)) (p0, log0)) r"
    and pfx: "(case pf of Some p \<Rightarrow> p | None \<Rightarrow> path_key path) = pfx"
    and ok: "password_box L pw kb" "client_ok L kb rng" "safe_apply L"
    and room: "length log0 + length (handled (ru_out r)) < 2 ^ 64" and log0: "log0 \<noteq> []"
  shows "persistent_inv opened entries content L kb path
      (commands L persistence decide (handled (ru_out r')) (p0, log0)) r'"
  using step inv
proof cases
  case Turn
  then show ?thesis using persistent_turn [OF inv _ _ pfx ok(1,2)] by (simp add: init_turn_keeps)
next
  case (StopBranch stop rest)
  then show ?thesis using persistent_stop [OF inv _ _ ok(2)] by (simp add: run_stop_keeps)
next
  case (MsgBranch msg rest)
  let ?r' = "run_msg (persistent_impl L C S M rng name pf pw persistence decide) msg (r\<lparr>ru_receiver := rest\<rparr>)"
  have "handled (ru_out ?r') = handled (ru_out r) @ [msg]"
    unfolding run_msg_def by (rule with_hook_cases) (simp_all add: runner_helpers)
  moreover have "length (snd (commands L persistence decide (handled (ru_out r)) (p0, log0))) < 2 ^ 64"
    using length_commands [of "(p0, log0)" L persistence decide "handled (ru_out r)"] room log0 by simp
  ultimately show ?thesis using persistent_msg [OF inv _ _ ok(2,3)] MsgBranch by simp
next
  case (ErrorBranch err rest)
  then show ?thesis using inv
    by (auto simp: run_child_error_def persistent_inv_def runner_helpers split: ChildError.split)
next
  case (InnerBranch action rest answer)
  then show ?thesis using inv by (simp add: persistent_inv_def split_beta Let_def)
qed (simp_all add: persistent_inv_def request_stop_def ctx_stop_def split_beta Let_def)

lemma persistent_run:
  assumes run: "(runner_step (persistent_impl L C S M rng name pf pw persistence decide))\<^sup>*\<^sup>* r r'"
    and inv: "persistent_inv opened entries content L kb path (p0, log0) r" and new: "handled (ru_out r) = []"
    and pfx: "(case pf of Some p \<Rightarrow> p | None \<Rightarrow> path_key path) = pfx"
    and ok: "password_box L pw kb" "client_ok L kb rng" "safe_apply L"
    and room: "length log0 + length (handled (ru_out r')) < 2 ^ 64"
  shows "persistent_inv opened entries content L kb path
      (commands L persistence decide (handled (ru_out r')) (p0, log0)) r'"
  using run room
proof (induction rule: rtranclp_induct)
  case base
  then show ?case using inv new by simp
next
  case (step r1 r2)
  have log0: "log0 \<noteq> []" using inv by (auto simp: persistent_inv_def Let_def dest: db_holds_log)
  have "length (handled (ru_out r1)) \<le> length (handled (ru_out r2))"
    using handled_grows [OF step(2)] by auto
  then have room: "length log0 + length (handled (ru_out r1)) < 2 ^ 64" using step(4) by simp
  show ?case by (rule persistent_step [OF step(2) step.IH [OF room] pfx ok room log0])
qed

text \<open>A crash at any moment: the task is gone, the actor is started over the same database.\<close>

lemma persistent_crash:
  assumes inv: "persistent_inv opened entries content L kb path (q, log) r"
    and pfx: "(case pf of Some p \<Rightarrow> p | None \<Rightarrow> path_key path) = pfx"
    and ok: "password_box L pw kb" "client_ok L kb rng"
  shows "\<exists>pc'. pa_start_store L C S M rng name pf pw (self, (snd (ru_actor r))\<lparr>pc_store := None\<rparr>) =
      (Some (Ok ()), q, pc') \<and> pa_durable opened entries content L kb pc' log q"
proof -
  let ?pc = "(snd (ru_actor r))\<lparr>pc_store := None\<rparr>"
  have "db_holds opened entries content L kb (pc_world ?pc) log q" "pc_path ?pc = path"
    using inv by (auto simp: persistent_inv_def Let_def)
  moreover from this(2) have "(case pf of Some p \<Rightarrow> p | None \<Rightarrow> path_key (pc_path ?pc)) = pfx"
    using pfx by (simp only:)
  ultimately show ?thesis using start_hook [of ?pc pf L kb log q pw rng self] ok by auto
qed

text \<open>Both together, from a new runner over a database that holds \<open>q\<close>.\<close>

lemma persistent_survives:
  assumes run: "(runner_step (persistent_impl L C S M rng name pf pw persistence decide))\<^sup>*\<^sup>*
      (runner_create path (p, pc) parent True system) r"
    and db: "db_holds opened entries content L kb (pc_world pc) log q" "pc_store pc = None"
    and pfx: "(case pf of Some x \<Rightarrow> x | None \<Rightarrow> path_key (pc_path pc)) = pfx"
    and ok: "password_box L pw kb" "client_ok L kb rng" "safe_apply L"
    and room: "length log + length (handled (ru_out r)) < 2 ^ 64"
  shows "ru_end r \<noteq> Some Panicked \<and>
    (let (q', log') = commands L persistence decide (handled (ru_out r)) (q, log) in
      (ru_running r \<longrightarrow> fst (ru_actor r) = q') \<and>
      (\<exists>pc'. pa_start_store L C S M rng name pf pw (self, (snd (ru_actor r))\<lparr>pc_store := None\<rparr>) =
          (Some (Ok ()), q', pc') \<and>
        pa_durable opened entries content L kb pc' log' q'))"
proof -
  let ?inv = "persistent_inv opened entries content L kb (pc_path pc)"
  have new: "?inv (q, log) (runner_create path (p, pc) parent True system)"
    using db by (simp add: persistent_inv_def runner_create_def ctx_new_def)
  have inv: "?inv (commands L persistence decide (handled (ru_out r)) (q, log)) r"
    by (rule persistent_run [OF run new _ pfx ok room]) (simp add: runner_create_def)
  obtain q' log' where x: "commands L persistence decide (handled (ru_out r)) (q, log) = (q', log')"
    by fastforce
  from persistent_crash [OF inv [unfolded x] pfx ok(1,2), of self] inv [unfolded x] x
  show ?thesis by (auto simp: persistent_inv_def Let_def)
qed

text \<open>Such runs exist: a new runner starts, enters its select loop and handles a message that arrives.\<close>

lemma persistent_serves:
  assumes I: "I = persistent_impl L C S M rng name pf pw persistence decide"
    and r0: "r0 = runner_create path (p, pc) parent True system"
    and db: "db_holds opened entries content L kb (pc_world pc) log q" "pc_store pc = None"
    and pfx: "(case pf of Some x \<Rightarrow> x | None \<Rightarrow> path_key (pc_path pc)) = pfx"
    and ok: "password_box L pw kb" "client_ok L kb rng" and room: "length log < 2 ^ 64"
    and dec: "decide m q = Some e" "apply_event L q e = (Ok (), q')"
  shows "\<exists>r. (runner_step I)\<^sup>*\<^sup>* r0 r \<and> ru_running r \<and> handled (ru_out r) = [m]"
proof -
  obtain pc1 where p1: "pa_start_store L C S M rng name pf pw (p, pc) = (Some (Ok ()), q, pc1)"
    "pa_durable opened entries content L kb pc1 log q"
    using start_hook [OF db(2) pfx db(1) ok] by blast
  obtain pc2 where p2: "pa_persist L C S rng persistence e (q, pc1) = (Some (Ok ()), q', pc2)"
    using persist_hook [OF p1(2) room ok(2) dec(2)] by blast
  let ?r1 = "r0\<lparr>ru_actor := (q, pc1), ru_lifecycle := Started\<rparr>"
  let ?r2 = "?r1\<lparr>ru_init_sender := False, ru_out := [OutInit True], ru_running := True\<rparr>"
  let ?r3 = "?r2\<lparr>ru_receiver := [m]\<rparr>"
  let ?r4 = "?r3\<lparr>ru_receiver := [], ru_out := [OutInit True, OutHandled m], ru_actor := (q', pc2)\<rparr>"
  have "init_turn I r0 = ?r1"
    by (simp add: I r0 init_turn_def runner_create_def with_hook_def p1(1) set_lifecycle_def)
  then have "runner_step I r0 ?r1" using Turn [of r0 I] by (simp add: r0 runner_create_def)
  moreover have "init_turn I ?r1 = ?r2" by (simp add: r0 init_turn_def runner_create_def report_init_def emit_def)
  then have "runner_step I ?r1 ?r2" using Turn [of ?r1 I] by (simp add: r0 runner_create_def)
  moreover have "runner_step I ?r2 ?r3" using MsgArrives [of ?r2 I m] by (simp add: r0 runner_create_def)
  moreover have "run_msg I m (?r3\<lparr>ru_receiver := []\<rparr>) = ?r4"
    by (simp add: I r0 run_msg_def with_hook_def persistent_message_def dec(1) p2 emit_def runner_create_def)
  then have "runner_step I ?r3 ?r4" using MsgBranch [of ?r3 m "[]" I] by (simp add: r0 runner_create_def)
  ultimately have "(runner_step I)\<^sup>*\<^sup>* r0 ?r4"
    by (meson rtranclp.rtrancl_into_rtrancl rtranclp.rtrancl_refl)
  then show ?thesis by (intro exI [of _ ?r4]) simp
qed

end

section \<open>Properties\<close>

text \<open>C1. The task of a persistent actor over RocksDB that is started on its own database, in every schedule:
  messages, stop requests and reports of children arrive at any moment, and the process may crash at any
  moment. While the actor is in its select loop its state is the one that the messages handled so far
  lead to; after a crash or a stop at any point \<open>start_store\<close> gives exactly that state, under full and under
  light persistence, whatever initial value the new actor has; and the task never panics.

  The actor is not a new one: its database already holds at least one event and a snapshot with a number
  below the length of the log (\<open>db_holds\<close>), as it is after a first run. A new actor under full persistence
  loses its first event instead (\<open>Backends\<close>). The other conditions: RocksDB does what its documentation
  says and fails no call; no other key of the column families extends the prefix of the actor
  (\<open>rocks_opened\<close>; \<open>Backends\<close> shows what happens otherwise); the prefix is the one given or the key of the path;
  serialisation, cipher and key memory succeed and invert each other, with the same password as before; \<open>apply\<close> does not
  panic; the store is not yet created; and there are fewer than \<open>2^64\<close> events.\<close>

theorem persistent_actor_survives_crash:
  assumes "rocks_laws E rows"
    and "(runner_step (persistent_impl L (rocks_collection E) (rocks_state E) (rocks_manager E) rng name pf pw
      persistence decide))\<^sup>*\<^sup>* (runner_create path (p, pc) parent True system) r"
    and db: "db_holds (rocks_opened E rows name pfx) (rocks_entries rows) (rocks_content rows) L kb
      (pc_world pc) log q" "pc_store pc = None"
    and pfx: "(case pf of Some x \<Rightarrow> x | None \<Rightarrow> path_key (pc_path pc)) = pfx"
    and ok: "password_box L pw kb" "client_ok L kb rng" "safe_apply L"
    and room: "length log + length (handled (ru_out r)) < 2 ^ 64"
  shows "ru_end r \<noteq> Some Panicked \<and>
    (let (q', log') = commands L persistence decide (handled (ru_out r)) (q, log) in
      (ru_running r \<longrightarrow> fst (ru_actor r) = q') \<and>
      (\<exists>pc'. pa_start_store L (rocks_collection E) (rocks_state E) (rocks_manager E) rng name pf pw
          (self, (snd (ru_actor r))\<lparr>pc_store := None\<rparr>) = (Some (Ok ()), q', pc') \<and>
        pa_durable (rocks_opened E rows name pfx) (rocks_entries rows) (rocks_content rows) L kb pc' log' q'))"
  by (rule reopenable_backend.persistent_survives [OF rocks_backend [OF assms(1)] assms(2-)])

text \<open>A counter that adds the bytes it is told, on the database of \<open>Backends\<close>: it starts, recovers the
  value \<open>12\<close>, and handles the message \<open>4\<close>.\<close>

definition counter_ctx :: "(u8, u8, bytes, RocksDbStore, RocksDbStore, rocks_mem) pctx" where
  "counter_ctx = (rocks_ctx (rocks_world ''b''))\<lparr>pc_store := None\<rparr>"

definition counter_impl ::
  "(u8 \<times> (u8, u8, bytes, RocksDbStore, RocksDbStore, rocks_mem) pctx, u8, unit, unit) actor_impl" where
  "counter_impl = persistent_impl adder_lib (rocks_collection mem_rocks) (rocks_state mem_rocks)
     (rocks_manager mem_rocks) example_rng ''acc'' None None Full (\<lambda>m _. Some m)"

definition counter_runner ::
  "(u8 \<times> (u8, u8, bytes, RocksDbStore, RocksDbStore, rocks_mem) pctx, u8, unit, unit) runner" where
  "counter_runner = runner_create [''user'', ''a''] (0, counter_ctx) False True system_new"

lemma counter_holds:
  "db_holds (rocks_opened mem_rocks mem_rows ''acc'' ''a'') (rocks_entries mem_rows) (rocks_content mem_rows)
     adder_lib None (pc_world counter_ctx) [3, 7] 12"
  using pa_durable_holds [OF adder_durable] by (simp add: counter_ctx_def)

lemma counter_runs:
  "\<exists>r. (runner_step counter_impl)\<^sup>*\<^sup>* counter_runner r \<and> ru_running r \<and> handled (ru_out r) = [4]"
  by (rule reopenable_backend.persistent_serves [OF rocks_backend [OF mem_rocks_laws] counter_impl_def
      counter_runner_def counter_holds])
    (use adder_client_ok in \<open>simp_all add: adder_lib_def counter_ctx_def rocks_ctx_def path_key_def password_box_def\<close>)

theorem persistent_actor_survives_crash_witness:
  "\<exists>r pc'. (runner_step counter_impl)\<^sup>*\<^sup>* counter_runner r \<and> fst (ru_actor r) = 16 \<and>
    pa_start_store adder_lib (rocks_collection mem_rocks) (rocks_state mem_rocks) (rocks_manager mem_rocks)
      example_rng ''acc'' None None (0, (snd (ru_actor r))\<lparr>pc_store := None\<rparr>) = (Some (Ok ()), 16, pc') \<and>
    pa_durable (rocks_opened mem_rocks mem_rows ''acc'' ''a'') (rocks_entries mem_rows) (rocks_content mem_rows)
      adder_lib None pc' [3, 7, 4] 16"
proof -
  obtain r where r: "(runner_step counter_impl)\<^sup>*\<^sup>* counter_runner r" "ru_running r" "handled (ru_out r) = [4]"
    using counter_runs by blast
  have c: "commands adder_lib Full (\<lambda>m _. Some m) [4] (12, [3, 7]) = (16, [3, 7, 4])"
    by (simp add: commands_def command_def log_next_def adder_lib_def)
  have safe: "safe_apply adder_lib" by (simp add: safe_apply_def adder_lib_def)
  have st: "pc_store counter_ctx = None" and pfx: "(case None of Some x \<Rightarrow> x | None \<Rightarrow> path_key (pc_path counter_ctx)) = ''a''"
    by (simp_all add: counter_ctx_def rocks_ctx_def path_key_def)
  from persistent_actor_survives_crash [OF mem_rocks_laws r(1) [unfolded counter_impl_def counter_runner_def]
      counter_holds st pfx _ adder_client_ok safe, of 0] r c
  show ?thesis by (auto simp: password_box_def)
qed

text \<open>C36. The same over SQLite, for every engine that executes the statements of the backend as SQL says:
  in every schedule of the task of a persistent actor started on its own database, and for a crash at any
  moment, the state that \<open>start_store\<close> gives is the one that the messages handled so far lead to, and
  the task never panics.

  As for RocksDB the actor is not a new one: its tables already hold at least one event and a snapshot
  under its prefix, with a number below the length of the log. No statement fails; the prefix is the one given or the key of the
  path; serialisation, cipher and key memory succeed and invert each other, with the same password as
  before; \<open>apply\<close> does not panic; the store is not yet created; and there are fewer than \<open>2^64\<close> events.\<close>

theorem sqlite_actor_survives_crash:
  assumes "sqlite_laws E V"
    and "(runner_step (persistent_impl L (sqlite_collection E) (sqlite_state E) (sqlite_manager E) rng name pf pw
      persistence decide))\<^sup>*\<^sup>* (runner_create path (p, pc) parent True system) r"
    and "db_holds (sqlite_opened V name pfx) (sqlite_entries V) (sqlite_content V) L kb (pc_world pc) log q"
      "pc_store pc = None"
    and "(case pf of Some x \<Rightarrow> x | None \<Rightarrow> path_key (pc_path pc)) = pfx"
    and "password_box L pw kb" "client_ok L kb rng" "safe_apply L"
    and "length log + length (handled (ru_out r)) < 2 ^ 64"
  shows "ru_end r \<noteq> Some Panicked \<and>
    (let (q', log') = commands L persistence decide (handled (ru_out r)) (q, log) in
      (ru_running r \<longrightarrow> fst (ru_actor r) = q') \<and>
      (\<exists>pc'. pa_start_store L (sqlite_collection E) (sqlite_state E) (sqlite_manager E) rng name pf pw
          (self, (snd (ru_actor r))\<lparr>pc_store := None\<rparr>) = (Some (Ok ()), q', pc') \<and>
        pa_durable (sqlite_opened V name pfx) (sqlite_entries V) (sqlite_content V) L kb pc' log' q'))"
  by (rule reopenable_backend.persistent_survives [OF sqlite_backend [OF assms(1)] assms(2-)])

definition sqlite_counter_ctx :: "(u8, u8, bytes, SqliteCollection, SqliteCollection, sql_mem sqlite_world) pctx" where
  "sqlite_counter_ctx = sqlite_ctx\<lparr>pc_store := None\<rparr>"

definition sqlite_counter_impl ::
  "(u8 \<times> (u8, u8, bytes, SqliteCollection, SqliteCollection, sql_mem sqlite_world) pctx, u8, unit, unit) actor_impl"
where
  "sqlite_counter_impl = persistent_impl example_lib (sqlite_collection mem_sqlite) (sqlite_state mem_sqlite)
     (sqlite_manager mem_sqlite) example_rng ''acc'' None None Light (\<lambda>m _. Some m)"

definition sqlite_counter_runner ::
  "(u8 \<times> (u8, u8, bytes, SqliteCollection, SqliteCollection, sql_mem sqlite_world) pctx, u8, unit, unit) runner" where
  "sqlite_counter_runner = runner_create [''user'', ''a''] (0, sqlite_counter_ctx) False True system_new"

lemma sqlite_counter_holds:
  "db_holds (sqlite_opened mem_view ''acc'' ''a'') (sqlite_entries mem_view) (sqlite_content mem_view)
     example_lib None (pc_world sqlite_counter_ctx) [3, 7] 12"
  using pa_durable_holds [OF sqlite_example_durable] by (simp add: sqlite_counter_ctx_def)

theorem sqlite_actor_survives_crash_witness:
  "\<exists>r pc'. (runner_step sqlite_counter_impl)\<^sup>*\<^sup>* sqlite_counter_runner r \<and> fst (ru_actor r) = 16 \<and>
    pa_start_store example_lib (sqlite_collection mem_sqlite) (sqlite_state mem_sqlite) (sqlite_manager mem_sqlite)
      example_rng ''acc'' None None (0, (snd (ru_actor r))\<lparr>pc_store := None\<rparr>) = (Some (Ok ()), 16, pc') \<and>
    pa_durable (sqlite_opened mem_view ''acc'' ''a'') (sqlite_entries mem_view) (sqlite_content mem_view)
      example_lib None pc' [3, 4] 16"
proof -
  have app: "apply_event example_lib 12 4 = (Ok (), 16)" by (simp add: example_lib_def)
  have "\<exists>r. (runner_step sqlite_counter_impl)\<^sup>*\<^sup>* sqlite_counter_runner r \<and> ru_running r \<and> handled (ru_out r) = [4]"
    by (rule reopenable_backend.persistent_serves [OF sqlite_backend [OF mem_sqlite_laws] sqlite_counter_impl_def
        sqlite_counter_runner_def sqlite_counter_holds _ _ _ example_client_ok _ _ app])
      (simp_all add: sqlite_counter_ctx_def sqlite_ctx_def path_key_def password_box_def)
  then obtain r where r: "(runner_step sqlite_counter_impl)\<^sup>*\<^sup>* sqlite_counter_runner r" "ru_running r"
    "handled (ru_out r) = [4]" by blast
  have c: "commands example_lib Light (\<lambda>m _. Some m) [4] (12, [3, 7]) = (16, [3, 4])"
    by (simp add: commands_def command_def log_next_def)
  have safe: "safe_apply example_lib" by (simp add: safe_apply_def)
  have st: "pc_store sqlite_counter_ctx = None"
    and pfx: "(case None of Some x \<Rightarrow> x | None \<Rightarrow> path_key (pc_path sqlite_counter_ctx)) = ''a''"
    by (simp_all add: sqlite_counter_ctx_def sqlite_ctx_def path_key_def)
  from sqlite_actor_survives_crash [OF mem_sqlite_laws r(1) [unfolded sqlite_counter_impl_def sqlite_counter_runner_def]
      sqlite_counter_holds st pfx _ example_client_ok safe, of 0] r c
  show ?thesis by (auto simp: password_box_def)
qed

end
