(* ===== verification/Backend_Tests.thy ===== *)
theory Backend_Tests
  imports Backends
begin

text \<open>
  The test suite that \<open>src/store/src/database.rs\<close> gives to its backends, the macro \<open>test_store_trait\<close>:
  twelve tests, each on a manager of its own with a fresh database. A test passes when its value is
  \<open>Ok ()\<close>; every \<open>unwrap\<close> and every assertion is a branch that may panic. The locale
  \<open>tested_backend\<close> is what a backend has to promise, and the suite passes for whoever does: the
  memory backend, and RocksDB and SQLite over any engine that keeps its laws.
\<close>

section \<open>Unwrapping and asserting\<close>

type_synonym test_result = "(unit, store_error) outcome"

definition unwrap :: "('a, store_error) outcome \<Rightarrow> ('a \<Rightarrow> test_result) \<Rightarrow> test_result" where
  "unwrap r k =
     (case r of Ok a \<Rightarrow> k a | Err _ \<Rightarrow> Panic ''called Result::unwrap() on an Err value'' | Panic m \<Rightarrow> Panic m)"

definition unwrap_in :: "('a, store_error) outcome \<times> 'w \<Rightarrow> ('a \<Rightarrow> 'w \<Rightarrow> test_result) \<Rightarrow> test_result" where
  "unwrap_in x k = unwrap (fst x) (\<lambda>a. k a (snd x))"

definition assert_eq :: "'a \<Rightarrow> 'a \<Rightarrow> test_result \<Rightarrow> test_result" where
  "assert_eq left right k = (if left = right then k else Panic ''assertion left == right failed'')"

text \<open>The left side is a call that returns a \<open>Result\<close>.\<close>

definition assert_result ::
  "('a, store_error) outcome \<Rightarrow> ('a, store_error) outcome \<Rightarrow> test_result \<Rightarrow> test_result" where
  "assert_result r expected k = (case r of Panic m \<Rightarrow> Panic m | _ \<Rightarrow> assert_eq r expected k)"

text \<open>\<open>assert_eq!(iter.next(), ...)\<close>, and the iterator after it.\<close>

definition assert_next ::
  "'a rust_iter \<Rightarrow> 'a option \<Rightarrow> ('a rust_iter \<Rightarrow> test_result) \<Rightarrow> test_result" where
  "assert_next it expected k =
     (case it of
        Done \<Rightarrow> assert_eq None expected (k Done)
      | Yield x it' \<Rightarrow> assert_eq (Some x) expected (k it')
      | Crash m \<Rightarrow> Panic m)"

text \<open>\<open>assert!(manager.stop().is_ok())\<close>, the last line of every test.\<close>

definition assert_stops :: "('w \<Rightarrow> (unit, store_error) outcome \<times> 'w) \<Rightarrow> 'w \<Rightarrow> test_result" where
  "assert_stops stop w =
     (case fst (stop w) of Ok _ \<Rightarrow> Ok () | Err _ \<Rightarrow> Panic ''assertion failed'' | Panic m \<Rightarrow> Panic m)"

definition ascii :: "string \<Rightarrow> bytes" where
  "ascii s = map of_char s"

section \<open>The tests\<close>

text \<open>The parameters of a test: the two traits, the manager, its \<open>stop\<close>, and the database that the
  default manager starts with.\<close>

definition open_collection ::
  "('w, 'c, 's) db_manager \<Rightarrow> 'w \<Rightarrow> ('c \<Rightarrow> 'w \<Rightarrow> test_result) \<Rightarrow> test_result" where
  "open_collection M w = unwrap_in (create_collection M ''test'' ''test'' w)"

definition open_state ::
  "('w, 'c, 's) db_manager \<Rightarrow> 'w \<Rightarrow> ('s \<Rightarrow> 'w \<Rightarrow> test_result) \<Rightarrow> test_result" where
  "open_state M w = unwrap_in (create_state M ''test'' ''test'' w)"

definition test_create_collection where
  "test_create_collection C M stop w =
     open_collection M w (\<lambda>store w.
     assert_eq (coll_name C store) ''test'' (
     assert_stops stop w))"

definition test_create_state where
  "test_create_state S M stop w =
     open_state M w (\<lambda>store w.
     assert_eq (state_name S store) ''test'' (
     assert_stops stop w))"

definition test_put_get_collection where
  "test_put_get_collection C M stop w =
     open_collection M w (\<lambda>store w.
     unwrap_in (coll_put C store ''key'' (ascii ''value'') w) (\<lambda>_ w.
     unwrap (coll_get C store ''key'' w) (\<lambda>v.
     assert_eq v (ascii ''value'') (
     assert_stops stop w))))"

definition test_put_get_state where
  "test_put_get_state S M stop w =
     open_state M w (\<lambda>store w.
     unwrap_in (state_put S store (ascii ''value'') w) (\<lambda>_ w.
     unwrap (state_get S store w) (\<lambda>v.
     assert_eq v (ascii ''value'') (
     assert_stops stop w))))"

definition test_del_collection where
  "test_del_collection C M stop w =
     open_collection M w (\<lambda>store w.
     unwrap_in (coll_put C store ''key'' (ascii ''value'') w) (\<lambda>_ w.
     unwrap_in (coll_del C store ''key'' w) (\<lambda>_ w.
     assert_result (coll_get C store ''key'' w) (Err (StoreErr_EntryNotFound ''Query returned no rows'')) (
     assert_stops stop w))))"

definition test_del_state where
  "test_del_state S M stop w =
     open_state M w (\<lambda>store w.
     unwrap_in (state_put S store (ascii ''value'') w) (\<lambda>_ w.
     unwrap_in (state_del S store w) (\<lambda>_ w.
     assert_result (state_get S store w) (Err (StoreErr_EntryNotFound ''Query returned no rows'')) (
     assert_stops stop w))))"

text \<open>Five tests begin with the same three writes.\<close>

definition put_keys ::
  "('w, 'c) collection \<Rightarrow> 'c \<Rightarrow> 'w \<Rightarrow> ('w \<Rightarrow> test_result) \<Rightarrow> test_result" where
  "put_keys C store w k =
     unwrap_in (coll_put C store ''key1'' (ascii ''value1'') w) (\<lambda>_ w.
     unwrap_in (coll_put C store ''key2'' (ascii ''value2'') w) (\<lambda>_ w.
     unwrap_in (coll_put C store ''key3'' (ascii ''value3'') w) (\<lambda>_ w. k w)))"

definition test_iter where
  "test_iter C M stop w =
     open_collection M w (\<lambda>store w. put_keys C store w (\<lambda>w.
     assert_next (coll_iter C store False w) (Some (''key1'', ascii ''value1'')) (\<lambda>iter.
     assert_next iter (Some (''key2'', ascii ''value2'')) (\<lambda>iter.
     assert_next iter (Some (''key3'', ascii ''value3'')) (\<lambda>iter.
     assert_next iter None (\<lambda>_.
     assert_stops stop w))))))"

definition test_iter_reverse where
  "test_iter_reverse C M stop w =
     open_collection M w (\<lambda>store w. put_keys C store w (\<lambda>w.
     assert_next (coll_iter C store True w) (Some (''key3'', ascii ''value3'')) (\<lambda>iter.
     assert_next iter (Some (''key2'', ascii ''value2'')) (\<lambda>iter.
     assert_next iter (Some (''key1'', ascii ''value1'')) (\<lambda>iter.
     assert_next iter None (\<lambda>_.
     assert_stops stop w))))))"

definition test_last where
  "test_last C M stop w =
     open_collection M w (\<lambda>store w. put_keys C store w (\<lambda>w.
     assert_result (coll_last C store w) (Ok (Some (''key3'', ascii ''value3''))) (
     assert_stops stop w)))"

definition test_get_by_range where
  "test_get_by_range C M stop w =
     open_collection M w (\<lambda>store w. put_keys C store w (\<lambda>w.
     unwrap (get_by_range C store None 2 w) (\<lambda>result.
     assert_eq result [ascii ''value1'', ascii ''value2''] (
     unwrap (get_by_range C store (Some ''key3'') (- 2) w) (\<lambda>result.
     assert_eq result [ascii ''value2'', ascii ''value1''] (
     assert_stops stop w))))))"

definition test_purge_collection where
  "test_purge_collection C M stop w =
     open_collection M w (\<lambda>store w. put_keys C store w (\<lambda>w.
     assert_result (coll_get C store ''key1'' w) (Ok (ascii ''value1'')) (
     assert_result (coll_get C store ''key2'' w) (Ok (ascii ''value2'')) (
     assert_result (coll_get C store ''key3'' w) (Ok (ascii ''value3'')) (
     unwrap_in (coll_purge C store w) (\<lambda>_ w.
     assert_result (coll_get C store ''key1'' w) (Err (StoreErr_EntryNotFound ''Query returned no rows'')) (
     assert_result (coll_get C store ''key2'' w) (Err (StoreErr_EntryNotFound ''Query returned no rows'')) (
     assert_result (coll_get C store ''key3'' w) (Err (StoreErr_EntryNotFound ''Query returned no rows'')) (
     assert_stops stop w)))))))))"

definition test_purge_state where
  "test_purge_state S M stop w =
     open_state M w (\<lambda>store w.
     unwrap_in (state_put S store (ascii ''value1'') w) (\<lambda>_ w.
     assert_result (state_get S store w) (Ok (ascii ''value1'')) (
     unwrap_in (state_purge S store w) (\<lambda>_ w.
     assert_result (state_get S store w) (Err (StoreErr_EntryNotFound ''Query returned no rows'')) (
     unwrap_in (state_put S store (ascii ''value2'') w) (\<lambda>_ w.
     assert_result (state_get S store w) (Ok (ascii ''value2'')) (
     unwrap_in (state_purge S store w) (\<lambda>_ w.
     assert_result (state_get S store w) (Err (StoreErr_EntryNotFound ''Query returned no rows'')) (
     assert_stops stop w)))))))))"

definition test_store_trait ::
  "('w, 'c) collection \<Rightarrow> ('w, 's) state_storage \<Rightarrow> ('w, 'c, 's) db_manager \<Rightarrow>
   ('w \<Rightarrow> (unit, store_error) outcome \<times> 'w) \<Rightarrow> 'w \<Rightarrow> test_result list" where
  "test_store_trait C S M stop w =
     [test_create_collection C M stop w, test_create_state S M stop w, test_put_get_collection C M stop w,
      test_put_get_state S M stop w, test_del_collection C M stop w, test_del_state S M stop w,
      test_iter C M stop w, test_iter_reverse C M stop w, test_last C M stop w,
      test_get_by_range C M stop w, test_purge_collection C M stop w, test_purge_state S M stop w]"

section \<open>What a backend has to promise\<close>

locale tested_backend =
  collection_laws C cvalid entries + state_laws S svalid content
  for C :: "('w, 'c) collection" and cvalid entries
    and S :: "('w, 's) state_storage" and svalid content +
  fixes M :: "('w, 'c, 's) db_manager"
    and stop :: "'w \<Rightarrow> (unit, store_error) outcome \<times> 'w"
    and empty_db :: "'w \<Rightarrow> bool"
  assumes new_collection: "empty_db w \<Longrightarrow> \<exists>c w'. create_collection M ''test'' ''test'' w = (Ok c, w') \<and>
      coll_name C c = ''test'' \<and> cvalid c w' \<and> entries c w' = []"
    and new_state: "empty_db w \<Longrightarrow> \<exists>s w'. create_state M ''test'' ''test'' w = (Ok s, w') \<and>
      state_name S s = ''test'' \<and> svalid s w' \<and> content s w' = None"
    and sdel_result: "svalid s w \<Longrightarrow> content s w \<noteq> None \<Longrightarrow> fst (state_del S s w) = Ok ()"
    and stop_result: "fst (stop w) = Ok ()"

lemma unwrap_Ok [simp]: "unwrap (Ok a) k = k a"
  by (simp add: unwrap_def)

lemma assert_eq_refl [simp]: "assert_eq a a k = k"
  by (simp add: assert_eq_def)

lemma assert_result_refl [simp]: "\<not> panics r \<Longrightarrow> assert_result r r k = k"
  by (cases r) (simp_all add: assert_result_def)

lemma assert_next_simps [simp]:
  "assert_next Done None k = k Done"
  "assert_next (Yield x it) (Some x) k = k it"
  by (simp_all add: assert_next_def)

lemma three_keys:
  "bt_insert ''key2'' y [(''key1'', x)] = [(''key1'', x), (''key2'', y)]"
  "bt_insert ''key3'' z [(''key1'', x), (''key2'', y)] = [(''key1'', x), (''key2'', y), (''key3'', z)]"
  by (simp_all add: bt_insert_def Cons_less_Cons_iff less_char_def le_less)

lemma test_keys: "key_ok ''key''" "key_ok ''key1''" "key_ok ''key2''" "key_ok ''key3''"
  by (simp_all add: key_ok_def utf8_ok_ascii)

context tested_backend
begin

lemma stops [simp]: "assert_stops stop w = Ok ()"
  by (simp add: assert_stops_def stop_result)

lemma open_collection_ok:
  assumes "empty_db w"
    and "\<And>c w'. coll_name C c = ''test'' \<Longrightarrow> cvalid c w' \<Longrightarrow> entries c w' = [] \<Longrightarrow> k c w' = Ok ()"
  shows "open_collection M w k = Ok ()"
  using new_collection [OF assms(1)] assms(2) by (auto simp: open_collection_def unwrap_in_def)

lemma open_state_ok:
  assumes "empty_db w"
    and "\<And>s w'. state_name S s = ''test'' \<Longrightarrow> svalid s w' \<Longrightarrow> content s w' = None \<Longrightarrow> k s w' = Ok ()"
  shows "open_state M w k = Ok ()"
  using new_state [OF assms(1)] assms(2) by (auto simp: open_state_def unwrap_in_def)

lemma unwrap_put:
  "cvalid c w \<Longrightarrow> key_ok key \<Longrightarrow>
   unwrap_in (coll_put C c key v w) k = k () (snd (coll_put C c key v w))"
  by (simp add: unwrap_in_def put_result)

lemma unwrap_del:
  "cvalid c w \<Longrightarrow> key \<in> fst ` set (entries c w) \<Longrightarrow>
   unwrap_in (coll_del C c key w) k = k () (snd (coll_del C c key w))"
  by (simp add: unwrap_in_def del_result)

lemma unwrap_purge: "cvalid c w \<Longrightarrow> unwrap_in (coll_purge C c w) k = k () (snd (coll_purge C c w))"
  by (simp add: unwrap_in_def purge_result)

lemma unwrap_state:
  "svalid s w \<Longrightarrow> unwrap_in (state_put S s v w) k2 = k2 () (snd (state_put S s v w))"
  "svalid s w \<Longrightarrow> content s w \<noteq> None \<Longrightarrow> unwrap_in (state_del S s w) k2 = k2 () (snd (state_del S s w))"
  "svalid s w \<Longrightarrow> unwrap_in (state_purge S s w) k2 = k2 () (snd (state_purge S s w))"
  by (simp_all add: unwrap_in_def sput_result sdel_result spurge_result)

lemma put_keys_ok:
  assumes "cvalid c w" "entries c w = []"
    and "\<And>w'. cvalid c w' \<Longrightarrow>
      entries c w' = [(''key1'', ascii ''value1''), (''key2'', ascii ''value2''), (''key3'', ascii ''value3'')] \<Longrightarrow>
      k w' = Ok ()"
  shows "put_keys C c w k = Ok ()"
  using assms(1,2) by (simp add: put_keys_def unwrap_put put_valid put_entries test_keys assms(3) three_keys)

lemmas laws_simps = put_valid put_entries del_valid del_entries purge_valid purge_entries get_law last_law
  iter_law get_by_range_all get_by_range_from sput_valid sput_content sdel_valid sdel_content spurge_valid
  spurge_content sget_law unwrap_put unwrap_del unwrap_purge unwrap_state test_keys no_rows_def

lemma passes_create:
  "empty_db w \<Longrightarrow> test_create_collection C M stop w = Ok ()"
  "empty_db w \<Longrightarrow> test_create_state S M stop w = Ok ()"
  by (simp_all add: test_create_collection_def test_create_state_def open_collection_ok open_state_ok)

lemma passes_put_get:
  "empty_db w \<Longrightarrow> test_put_get_collection C M stop w = Ok ()"
  "empty_db w \<Longrightarrow> test_put_get_state S M stop w = Ok ()"
  by (simp_all add: test_put_get_collection_def test_put_get_state_def open_collection_ok open_state_ok
      laws_simps bt_insert_def)

lemma passes_del:
  "empty_db w \<Longrightarrow> test_del_collection C M stop w = Ok ()"
  "empty_db w \<Longrightarrow> test_del_state S M stop w = Ok ()"
  by (simp_all add: test_del_collection_def test_del_state_def open_collection_ok open_state_ok
      laws_simps bt_insert_def bt_remove_def)

lemma passes_iter:
  "empty_db w \<Longrightarrow> test_iter C M stop w = Ok ()"
  "empty_db w \<Longrightarrow> test_iter_reverse C M stop w = Ok ()"
  "empty_db w \<Longrightarrow> test_last C M stop w = Ok ()"
  by (simp_all add: test_iter_def test_iter_reverse_def test_last_def open_collection_ok put_keys_ok laws_simps)

lemma passes_range: "empty_db w \<Longrightarrow> test_get_by_range C M stop w = Ok ()"
  by (simp add: test_get_by_range_def open_collection_ok put_keys_ok laws_simps isize_abs_def Let_def)

lemma passes_purge:
  "empty_db w \<Longrightarrow> test_purge_collection C M stop w = Ok ()"
  "empty_db w \<Longrightarrow> test_purge_state S M stop w = Ok ()"
  by (simp_all add: test_purge_collection_def test_purge_state_def open_collection_ok open_state_ok put_keys_ok
      laws_simps)

lemma passes_all: "empty_db w \<Longrightarrow> test_store_trait C S M stop w = replicate 12 (Ok ())"
  by (simp add: test_store_trait_def passes_create passes_put_get passes_del passes_iter passes_range
      passes_purge numeral_eq_Suc)

end

section \<open>The three backends\<close>

interpretation mem_tests: tested_backend mem_collection mem_cvalid mem_entries mem_state mem_svalid mem_content
  mem_manager default_stop "\<lambda>w. mem_wf w \<and> mm_data w (''test'', ''test'') = None"
proof (unfold_locales, goal_cases)
  case (1 w)
  then show ?case
    by (simp add: mem_create_fresh mem_wf_def new_cell_def mem_cvalid_def mem_entries_def empty_cell_def bt_ok_def)
next
  case (2 w)
  then show ?case
    by (simp add: mem_create_fresh mem_wf_def new_cell_def mem_svalid_def mem_content_def empty_cell_def bt_ok_def)
next
  case (3 s w)
  then show ?case by (auto simp: mem_state_del_def mem_svalid_def mem_content_def)
qed (simp add: default_stop_def)

lemma rocks_tested:
  assumes laws: "rocks_laws E rows"
  shows "tested_backend (rocks_collection E) (rocks_cvalid E rows) (rocks_entries rows) (rocks_state E)
    (rocks_svalid E rows) (rocks_content rows) (rocks_manager E) default_stop (\<lambda>w. \<not> rk_cf_handle E ''test'' w)"
proof (intro tested_backend.intro rocks_collection_laws [OF laws] rocks_state_laws [OF laws] tested_backend_axioms.intro)
  fix w assume w: "\<not> rk_cf_handle E ''test'' w"
  note D = rocks_lawsD_create [OF laws w]
  let ?h = "\<lparr>rs_name = ''test'', rs_prefix = ''test''\<rparr>" and ?w = "snd (rk_create_cf E ''test'' w)"
  have cr: "rocks_create E ''test'' ''test'' w = (Ok ?h, ?w)"
    using w D(1) by (cases "rk_create_cf E ''test'' w") (simp add: rocks_create_def then_in_def)
  have v: "rocks_cvalid E rows ?h ?w" by (simp add: rocks_cvalid_def D utf8_ok_ascii)
  have e: "rocks_entries rows ?h ?w = []" "rocks_content rows ?h ?w = None"
    by (simp_all add: rocks_entries_def rocks_content_def own_rows_def D(2))
  show "\<exists>c w'. create_collection (rocks_manager E) ''test'' ''test'' w = (Ok c, w') \<and>
      coll_name (rocks_collection E) c = ''test'' \<and> rocks_cvalid E rows c w' \<and> rocks_entries rows c w' = []"
    using cr v e by (simp add: rocks_ops)
  show "\<exists>s w'. create_state (rocks_manager E) ''test'' ''test'' w = (Ok s, w') \<and>
      state_name (rocks_state E) s = ''test'' \<and> rocks_svalid E rows s w' \<and> rocks_content rows s w' = None"
    using cr rocks_cvalid_svalid [OF v] e by (simp add: rocks_ops)
qed (auto simp: default_stop_def rocks_ops rocks_svalid_def rocks_del_eq [OF laws])

definition no_table :: "'d sql_view \<Rightarrow> string \<Rightarrow> 'd sqlite_world \<Rightarrow> bool" where
  "no_table V t w \<longleftrightarrow> \<not> conn_poisoned w \<and> v_keys V t (conn w) = None"

lemmas table_views = v_event_table_def v_state_table_def v_events_def v_state_def prefix_rows_def

lemma sqlite_tested:
  assumes laws: "sqlite_laws E V"
    and creates: "sqlite_creates E V ''test'' event_keys" "sqlite_creates E V ''test'' state_keys"
  shows "tested_backend (sqlite_collection E) (sqlite_cvalid V) (sqlite_entries V) (sqlite_state E)
    (sqlite_svalid V) (sqlite_content V) (sqlite_manager E) default_stop (no_table V ''test'')"
proof (intro tested_backend.intro sqlite_collection_laws [OF laws] sqlite_state_laws [OF laws] tested_backend_axioms.intro)
  fix w assume w: "no_table V ''test'' w"
  then have ex: "executes E (create_collection_sql ''test'') [] (conn w)
      (\<lambda>d. v_keys V ''test'' d = Some event_keys \<and> v_rows V ''test'' d = [])"
    "executes E (create_state_sql ''test'') [] (conn w)
      (\<lambda>d. v_keys V ''test'' d = Some state_keys \<and> v_rows V ''test'' d = [])"
    using creates by (simp_all add: sqlite_creates_def no_table_def code_texts)
  let ?h = "\<lparr>sc_table = ''test'', sc_prefix = ''test''\<rparr>"
  obtain n d where d: "sq_execute E (create_collection_sql ''test'') [] (conn w) = (Ok n, d)"
    "v_keys V ''test'' d = Some event_keys" "v_rows V ''test'' d = []"
    using ex(1) by (auto simp: executes_def)
  show "\<exists>c w'. create_collection (sqlite_manager E) ''test'' ''test'' w = (Ok c, w') \<and>
      coll_name (sqlite_collection E) c = ''test'' \<and> sqlite_cvalid V c w' \<and> sqlite_entries V c w' = []"
    using w d
    by (intro exI [of _ ?h] exI [of _ "w\<lparr>conn := d\<rparr>"])
      (simp add: sqlite_ops sqlite_create_collection_def sqlite_create_def no_table_def sqlite_views table_views)
  obtain n d where d: "sq_execute E (create_state_sql ''test'') [] (conn w) = (Ok n, d)"
    "v_keys V ''test'' d = Some state_keys" "v_rows V ''test'' d = []"
    using ex(2) by (auto simp: executes_def)
  show "\<exists>s w'. create_state (sqlite_manager E) ''test'' ''test'' w = (Ok s, w') \<and>
      state_name (sqlite_state E) s = ''test'' \<and> sqlite_svalid V s w' \<and> sqlite_content V s w' = None"
    using w d
    by (intro exI [of _ ?h] exI [of _ "w\<lparr>conn := d\<rparr>"])
      (simp add: sqlite_ops sqlite_create_state_def sqlite_create_def no_table_def sqlite_views table_views)
qed (auto simp: default_stop_def sqlite_ops writes_contentD [OF sqlite_state_writes(2) [OF laws]])

section \<open>Properties\<close>

text \<open>C37. All tests that the repository gives to its backends pass: on the memory backend, on RocksDB for
  every engine with maps as column families, and on SQLite for every engine that executes the
  statements as SQL says, on any database without a table of that name.\<close>

theorem backends_pass_their_tests:
  assumes "rocks_laws E rows" "\<not> rk_cf_handle E ''test'' w"
    and "sqlite_laws F V" "sqlite_creates F V ''test'' event_keys" "sqlite_creates F V ''test'' state_keys"
    and "no_table V ''test'' u"
  shows "test_store_trait mem_collection mem_state mem_manager default_stop mem_world_default =
      replicate 12 (Ok ()) \<and>
    test_store_trait (rocks_collection E) (rocks_state E) (rocks_manager E) default_stop w = replicate 12 (Ok ()) \<and>
    test_store_trait (sqlite_collection F) (sqlite_state F) (sqlite_manager F) default_stop u = replicate 12 (Ok ())"
  using mem_tests.passes_all [of mem_world_default] mem_wf_default
    tested_backend.passes_all [OF rocks_tested [OF assms(1)] assms(2)]
    tested_backend.passes_all [OF sqlite_tested [OF assms(3-5)] assms(6)]
  by (simp add: mem_world_default_def del: mem_ops)

definition empty_sqlite :: "sql_mem sqlite_world" where
  "empty_sqlite = \<lparr>conn_poisoned = False, conn = Map.empty\<rparr>"

theorem backends_pass_their_tests_witness:
  "test_store_trait (rocks_collection mem_rocks) (rocks_state mem_rocks) (rocks_manager mem_rocks) default_stop
     (\<lambda>_. None) = replicate 12 (Ok ()) \<and>
   test_store_trait (sqlite_collection mem_sqlite) (sqlite_state mem_sqlite) (sqlite_manager mem_sqlite)
     default_stop empty_sqlite = replicate 12 (Ok ())"
proof -
  have "\<not> rk_cf_handle mem_rocks ''test'' (\<lambda>_. None)" by (simp add: mem_rocks_def)
  moreover have "no_table mem_view ''test'' empty_sqlite"
    by (simp add: no_table_def empty_sqlite_def mem_view_def table_at_def)
  moreover have "''test'' \<in> set table_names" "event_keys \<in> set schemas" "state_keys \<in> set schemas"
    by (simp_all add: table_names_def schemas_def)
  ultimately show ?thesis
    using backends_pass_their_tests [OF mem_rocks_laws _ mem_sqlite_laws] mem_sqlite_creates by blast
qed

end
