(* ===== verification/Spec2Isabelle.thy ===== *)
theory Spec2Isabelle
  imports Retries Parent_Child Network_Deadlock System_Shutdown Persistent_Runner Backend_Tests
begin

text \<open>
  Verification of rush-rs, an actor system with event-sourced persistence (crates \<open>actor\<close>, \<open>store\<close>,
  \<open>sqlite_db\<close> and \<open>rocksdb_db\<close> of the repository).

  \<^bold>\<open>The program.\<close> An \<open>ActorSystem\<close> keeps a registry from paths to running actors. Each actor is a task
  (\<open>ActorRunner\<close>) that starts it, runs a select loop over its stop channel, the reports of its
  children, its own events and its mailbox, supervises restarts and unregisters it at the end.
  Clients hold an \<open>ActorRef\<close> and send messages by \<open>tell\<close> or \<open>ask\<close>. A \<open>PersistentActor\<close> has a child
  actor \<open>Store\<close>, to which it sends the events it applied and the snapshots of its state; the store
  writes them through the traits \<open>Collection\<close> and \<open>State\<close>, implemented in memory, by RocksDB and by
  SQLite. When the actor starts again the store gives back snapshot and events.

  \<^bold>\<open>The theories.\<close>

  \<^item> \<open>Rush_Prelude\<close>: results of fallible code (\<open>outcome\<close>: a value, an error or a panic), UTF-8 text
    and slices, sorted association lists for \<open>BTreeMap\<close>, and the lemma collections.
  \<^item> \<open>Rust_Numbers\<close>: \<open>u64\<close>, the format \<open>{:020}\<close> of event keys and \<open>str::parse\<close>.
  \<^item> \<open>Actor_Path\<close>: \<open>actor/src/path.rs\<close>, every method of \<open>ActorPath\<close>.
  \<^item> \<open>Rush_Errors\<close>: both error enums (\<open>error.rs\<close> of \<open>actor\<close> and \<open>store\<close>) with their messages.
  \<^item> \<open>Supervision\<close>: \<open>actor/src/supervision.rs\<close>, the retry strategies.
  \<^item> \<open>Handler\<close>: \<open>actor/src/handler.rs\<close>, the mailbox with its reply channels; \<open>box_step\<close> interleaves
    senders and receiver.
  \<^item> \<open>Actor_System\<close>: \<open>actor/src/system.rs\<close>, registry, helpers, creation, shutdown. What
    \<open>pre_start\<close> does to the registry is an argument of \<open>create_actor_path\<close> (\<open>actor_init\<close>). \<open>create_step\<close>
    interleaves the two critical sections of concurrent creations with stops, ends and panics of the
    actors.
  \<^item> \<open>Actor_Runner\<close>: \<open>ActorContext\<close> of \<open>actor/src/actor.rs\<close> and \<open>actor/src/runner.rs\<close>; \<open>runner_step\<close> has
    a rule for each turn of the lifecycle loop, each branch of the select loop and each arrival.
  \<^item> \<open>Parent_Child\<close>: an abstract view of two runners, the failing child and the stopping parent.
  \<^item> \<open>Actor_Network\<close>: any number of runners in one system (\<open>net_step\<close>), with the awaits of \<open>stop_childs\<close>
    and of the \<open>Fail\<close> branch as waits; \<open>Network_Shutdown\<close>: how a tree of actors shuts down;
    \<open>Network_Deadlock\<close>: how a failing child and a stopping parent block each other; \<open>System_Shutdown\<close>: the
    shutdown task of \<open>SystemRef::new\<close> running concurrently with the network (\<open>sys_step\<close>).
  \<^item> \<open>Actor_Ref\<close>: \<open>ActorRef\<close> and the default methods of the traits \<open>Actor\<close> and \<open>Handler\<close>.
  \<^item> \<open>Event_Sink\<close>: \<open>actor/src/sink.rs\<close> on the event bus of an actor.
  \<^item> \<open>Retries\<close>: \<open>actor/src/retries.rs\<close>, the retry actor, also under its runner.
  \<^item> \<open>Database\<close>: \<open>store/src/database.rs\<close>: the traits as records, their provided methods, and the
    contracts as locales (\<open>collection_laws\<close>, \<open>state_laws\<close>, \<open>store_backend\<close>, \<open>reopenable_backend\<close>; the
    last one extended by \<open>fresh_backend\<close>, an empty database, and \<open>unreliable_backend\<close>, writes that fail).
  \<^item> \<open>Memory_Store\<close>: \<open>store/src/memory.rs\<close>, over an explicit heap of shared maps.
  \<^item> \<open>Rocksdb_Store\<close>, \<open>Sqlite_Store\<close>: the two database crates over their engines; \<open>Sql_Tables\<close>: the
    fragment of SQL that the statements are written in, any columns and any \<open>WHERE\<close> clause, and what
    an engine does that executes it; \<open>Sql_Engine\<close>: a concrete engine that does.
  \<^item> \<open>Store_Actor\<close>: the actor \<open>Store\<close> of \<open>store/src/store.rs\<close>, method by method; \<open>Store_Log\<close>: what these
    methods do on any backend that satisfies the contracts.
  \<^item> \<open>Persistent_Actor\<close>: the provided methods of \<open>PersistentActor\<close> in \<open>store/src/store.rs\<close>.
  \<^item> \<open>Store_Example\<close>: a concrete codec, cipher and world, which witness the hypotheses.
  \<^item> \<open>Backends\<close>: concrete engines, and persistent actors over RocksDB and SQLite; \<open>Refused_Writes\<close>: a
    database that refuses writes.
  \<^item> \<open>Backend_Tests\<close>: the macro \<open>test_store_trait\<close> of \<open>store/src/database.rs\<close>, the tests every backend is
    given, as definitions over a backend.
  \<^item> \<open>Persistent_Runner\<close>: the task of a persistent actor, the runner of \<open>Actor_Runner\<close> with hooks that call
    the methods of \<open>Persistent_Actor\<close>.

  \<^bold>\<open>Abstract specifications.\<close> A collection is its sorted list of entries and a state storage an
  optional value (\<open>entries\<close>, \<open>content\<close> in \<open>Database\<close>). On top of it a store represents a log of
  events and a snapshot (\<open>log_rep\<close>, \<open>snap_rep\<close>, \<open>durable\<close> in \<open>Store_Log\<close>), and an actor is durable
  (\<open>pa_durable\<close>) when replaying the log on the snapshot gives its state. The lemmas of \<open>Store_Log\<close>
  and \<open>Persistent_Actor\<close> are proved once for every backend inside the locales; the memory backend
  interprets them, and the backends over an engine satisfy them under the laws of the engine
  (\<open>rocks_backend\<close>, \<open>sqlite_backend\<close>).

  \<^bold>\<open>What is shown.\<close> This theory: crash and restart, recovery, the effects of every store command on
  the log, and where errors go. \<open>Backends\<close>: the same over RocksDB and SQLite, and what happens
  when actors share a table; how a new actor loses its first event. The isolation of two prefixes over SQLite
  is derived from the \<open>WHERE\<close> clauses of the code. \<open>Refused_Writes\<close>: after writes that
  fail the log holds exactly the acknowledged events, but the running actor is not rolled back.
  \<open>Backend_Tests\<close>: the repository's tests pass on all three backends, whatever lawful engine is below.
  \<open>Persistent_Runner\<close>: in every schedule of the task of a persistent actor over RocksDB or
  SQLite, and for a crash at any moment, the state is the one that the handled messages lead to; the actor
  is one whose database already holds a snapshot and events. \<open>Handler\<close>: order of messages and
  exactly one answer to every \<open>ask\<close>. \<open>Actor_Runner\<close>: legal lifecycle transitions, what a finished runner
  leaves, orderly stop, termination of failing starts, what restarts break, and how an actor created in the
  place of a stopped one loses its registration. \<open>Actor_Network\<close> and
  \<open>Network_Shutdown\<close>: every actor of a network behaves as a runner, and a stop of the roots ends the
  whole tree in every schedule (by a lexicographic measure of the queues), provided that no actor fails,
  panics or creates children during the shutdown (\<open>calm\<close>); \<open>System_Shutdown\<close>: the two ends
  of a graceful shutdown of the system, under the same conditions; \<open>Network_Deadlock\<close> and
  \<open>Parent_Child\<close>: when a stop never completes. \<open>Actor_System\<close>: the registry, also under concurrent
  creation and panics, and the shutdown task. \<open>Event_Sink\<close>, \<open>Retries\<close>, \<open>Actor_Path\<close>, \<open>Rust_Numbers\<close> and
  \<open>Memory_Store\<close>: the components by themselves. Some properties state behaviour that the comments
  of the code deny; their texts say so.

  \<^bold>\<open>Modelling decisions and bounds.\<close>

  \<^item> \<open>u64\<close> and \<open>isize\<close> are 64-bit words and wrap around, as in a release build; logs are shorter than
    \<open>2^64\<close> where a property says so. Counters of retries and levels are \<open>nat\<close>.
  \<^item> Loops are structural, or recursive with a measure; no fuel is used. A wait that may never
    end is an \<open>option\<close> (\<open>None\<close>: still waiting) or a step of a relation.
  \<^item> The channels of the runtime are their queues. The bounded stop channel (100) and the channel of the
    system never fill. A broadcast channel drops what is older than its capacity; the capacity is
    an argument, since the runtime may round it up.
  \<^item> Delays are outputs; time itself is not modelled. Tasks interleave at the points where they wait.
  \<^item> Random nonces are an argument indexed by the number of commands. Serialisation, the cipher and
    the encrypted memory of the key are parameters (\<open>store_lib\<close>) with the laws \<open>lib_laws\<close>: decoding
    inverts encoding and decryption inverts encryption under the same key and nonce.
  \<^item> The engines of RocksDB and SQLite and the file system are parameters; \<open>rocks_laws\<close> and
    \<open>sqlite_laws\<close> state what the code relies on. The laws of SQLite are about statements of any shape over
    any table (\<open>Sql_Tables\<close>): which rows a \<open>WHERE\<close> clause selects, deletes or leaves alone, and in which
    order they come. Both describe calls that do not fail; the branches
    for failing calls are in the definitions, and \<open>rocks_may_refuse\<close> lets the writes of an engine fail.
  \<^item> A network has a fixed set of actors: creation is in \<open>Actor_System\<close> and in the hooks of a runner. The
    child \<open>store\<close> of a persistent actor is served inside the methods that ask it.
  \<^item> Rust strings are their UTF-8 bytes. Logging is left out, and so is the detail that a UTF-8 error
    adds to a message. An iterator whose creation panics is one whose first \<open>next\<close> panics.
  \<^item> Locks are held for one operation; \<open>poisoned\<close> flags record that a holder panicked.

  \<^bold>\<open>Not modelled.\<close> Crate roots, re-exports and derived implementations (\<open>Clone\<close>, \<open>Debug\<close>, \<open>Serialize\<close>);
  \<open>run_sink\<close>, which only spawns the loop of \<open>Event_Sink\<close>; the
  methods \<open>stop\<close> and \<open>flush\<close> of the storage traits where they do nothing; the tests, apart from the
  macro \<open>test_store_trait\<close>. Type parameters that only select code at compile time (\<open>Persistence\<close>, the downcast of a
  registered actor) appear as an argument or a type tag.
\<close>

section \<open>Event sourcing over the memory database\<close>

text \<open>C2. A persistent actor whose state is held by the database persists any list of events that
  its \<open>apply\<close> accepts (full persistence), loses its store and its memory, and is started again over
  the same memory manager: the events are all persisted, and \<open>start_store\<close> gives the actor exactly
  the state it had, whatever initial state it is started with.\<close>

theorem crash_restart_restores_state:
  assumes "pa_durable (mem_opened name pfx) mem_entries mem_content L kb ctx evs p"
    and "length evs + length es < 2 ^ 64" and "client_ok L kb rng"
    and "apply_all L p es = Ok p'" and "password_box L pw kb"
    and "(case pf of Some q \<Rightarrow> q | None \<Rightarrow> path_key (pc_path ctx)) = pfx"
  shows "\<exists>ctx1 ctx2.
    pa_persist_all L mem_collection mem_state rng Full es (p, ctx) = (Some (Ok ()), p', ctx1) \<and>
    pa_start_store L mem_collection mem_state mem_manager rng name pf pw (self, ctx1\<lparr>pc_store := None\<rparr>) =
      (Some (Ok ()), p', ctx2) \<and>
    pa_durable (mem_opened name pfx) mem_entries mem_content L kb ctx2 (evs @ es) p'"
  using assms by (rule mem.pa_crash_restart)

theorem crash_restart_restores_state_witness:
  "\<exists>ctx1 ctx2.
    pa_persist_all example_lib mem_collection mem_state example_rng Full [1, 2]
      (12, example_ctx (example_world 3 7)) = (Some (Ok ()), 15, ctx1) \<and>
    pa_start_store example_lib mem_collection mem_state mem_manager example_rng ''acc'' None None
      (0, ctx1\<lparr>pc_store := None\<rparr>) = (Some (Ok ()), 15, ctx2) \<and>
    pa_durable (mem_opened ''acc'' ''a'') mem_entries mem_content example_lib None ctx2 [3, 7, 1, 2] 15"
  using crash_restart_restores_state [of "''acc''" "''a''" example_lib None "example_ctx (example_world 3 7)"
      "[3, 7]" 12 "[1, 2]" example_rng 15 None None 0]
    example_pa_durable [of 7 3] example_client_ok
  by (simp add: password_box_def example_ctx_def path_key_def)

text \<open>C6. A recovery of the store replays, onto the state of the snapshot, exactly the events that
  were persisted after it, answers with the resulting state, and leaves a snapshot of that state at
  the number of the last event.\<close>

theorem recover_replays_events_after_snapshot:
  assumes "log_rep (mem_opened name pfx) mem_entries L st w evs" "evs \<noteq> []"
    and "snap_rep mem_content L st w (p, k)" "unat k < length evs"
    and "apply_all L p (drop (Suc (unat k)) evs) = Ok p'"
    and "lib_laws L" "length nonce = NONCE_SIZE" "box_opens L (key_box st)"
    and "encode_state L (key_box st) nonce (p', event_counter st) = Ok b"
  shows "\<exists>w'. recover L mem_collection mem_state nonce (st, w) =
      (Ok (Some p'), st\<lparr>state_counter := event_counter st\<rparr>, w') \<and>
    log_rep (mem_opened name pfx) mem_entries L (st\<lparr>state_counter := event_counter st\<rparr>) w' evs \<and>
    snap_rep mem_content L st w' (p', event_counter st)"
  using assms by (rule mem.recover_log)

theorem recover_replays_events_after_snapshot_witness:
  "\<exists>w'. recover example_lib mem_collection mem_state (replicate 12 0) (example_store, example_world 3 7) =
      (Ok (Some 12), example_store\<lparr>state_counter := 1\<rparr>, w') \<and>
    log_rep (mem_opened ''acc'' ''a'') mem_entries example_lib (example_store\<lparr>state_counter := 1\<rparr>) w' [3, 7] \<and>
    snap_rep mem_content example_lib example_store w' (12, 1)"
  using recover_replays_events_after_snapshot [of "''acc''" "''a''" example_lib example_store
      "example_world 3 7" "[3, 7]" 5 0 12 "replicate 12 0" "12 # map byte_of_char (fmt020 1)"]
    example_log [of 3 7] example_snap [of 3 7] example_lib_laws
  by (simp add: NONCE_SIZE_def example_store_def box_opens_def encode_state_def example_enc_state_def)

text \<open>C7. Persisting an event that can be encoded appends it to the log under the next number,
  moves the event counter there and leaves the snapshot alone.\<close>

theorem persist_appends_event:
  assumes "log_rep (mem_opened name pfx) mem_entries L st w evs" "length evs < 2 ^ 64"
    and "lib_laws L" "length nonce = NONCE_SIZE"
    and "encode_event L (key_box st) nonce e = Ok b"
  shows "\<exists>w'. persist L mem_collection nonce e (st, w) =
      (Ok (), st\<lparr>event_counter := of_nat (length evs)\<rparr>, w') \<and>
    log_rep (mem_opened name pfx) mem_entries L (st\<lparr>event_counter := of_nat (length evs)\<rparr>) w' (evs @ [e]) \<and>
    mem_content (states st) w' = mem_content (states st) w"
  using assms by (rule mem.persist_log)

theorem persist_appends_event_witness:
  "\<exists>w'. persist example_lib mem_collection (replicate 12 0) 4 (example_store, example_world 3 7) =
      (Ok (), example_store\<lparr>event_counter := 2\<rparr>, w') \<and>
    log_rep (mem_opened ''acc'' ''a'') mem_entries example_lib (example_store\<lparr>event_counter := 2\<rparr>) w' [3, 7, 4] \<and>
    mem_content example_states w' = Some (5 # map byte_of_char (fmt020 0))"
  using persist_appends_event [of "''acc''" "''a''" example_lib example_store "example_world 3 7" "[3, 7]"
      "replicate 12 0" 4 "[4]"]
    example_log [of 3 7] example_lib_laws example_entries(2) [of 3 7]
  by (simp add: NONCE_SIZE_def example_store_def encode_event_def)

text \<open>C8. \<open>GetEvents\<close> answers with the events of the log whose numbers lie in the requested range,
  in order, and with fewer when the log ends before.\<close>

theorem events_range_is_log_segment:
  assumes "log_rep (mem_opened name pfx) mem_entries L st w evs"
  shows "events_range L mem_collection st w from to =
    Ok (take (Suc (unat to) - unat from) (drop (unat from) evs))"
  using assms by (rule mem.events_range_log)

theorem events_range_is_log_segment_witness:
  "events_range example_lib mem_collection example_store (example_world 3 7) 1 5 = Ok [7]"
  using events_range_is_log_segment [of "''acc''" "''a''" example_lib example_store "example_world 3 7" "[3, 7]" 1 5]
    example_log [of 3 7] by simp

text \<open>C9. Light persistence: when \<open>apply\<close> accepts the event, \<open>persist\<close> succeeds, the database then
  holds the new state, and the event takes the place of the last one of the log.\<close>

theorem light_persist_is_durable:
  assumes "pc_store ctx = Some (st, mb)" "idle mb"
    and "log_rep (mem_opened name pfx) mem_entries L st (pc_world ctx) evs"
    and "client_ok L (key_box st) rng" "apply_event L p e = (Ok (), p')"
  shows "\<exists>ctx'. pa_persist L mem_collection mem_state rng Light e (p, ctx) = (Some (Ok ()), p', ctx') \<and>
    pa_durable (mem_opened name pfx) mem_entries mem_content L (key_box st) ctx' (butlast evs @ [e]) p'"
  using assms by (rule mem.pa_persist_light)

theorem light_persist_is_durable_witness:
  "\<exists>ctx'. pa_persist example_lib mem_collection mem_state example_rng Light 4
      (20, example_ctx (example_world 3 7)) = (Some (Ok ()), 24, ctx') \<and>
    pa_durable (mem_opened ''acc'' ''a'') mem_entries mem_content example_lib None ctx' [3, 4] 24"
  using light_persist_is_durable [of "example_ctx (example_world 3 7)" example_store mailbox_new "''acc''" "''a''"
      example_lib "[3, 7]" example_rng 20 4 24]
    example_log [of 3 7] example_client_ok
  by (simp add: example_ctx_def idle_def mailbox_new_def example_store_def)

text \<open>A graceful stop under full persistence writes the state of the actor: after \<open>stop_store\<close> the
  child is gone and a later \<open>start_store\<close> gives that state back.\<close>

theorem stop_start_restores_state:
  assumes "pc_store ctx = Some (st, mb)" "idle mb"
    and "log_rep (mem_opened name pfx) mem_entries L st (pc_world ctx) evs" "evs \<noteq> []"
    and "client_ok L (key_box st) rng" "password_box L pw (key_box st)"
    and "(case pf of Some q \<Rightarrow> q | None \<Rightarrow> path_key (pc_path ctx)) = pfx"
  shows "\<exists>ctx1 ctx2. pa_stop_store L mem_collection mem_state rng 0 Full p ctx = (Some (Ok ()), ctx1) \<and>
    pc_store ctx1 = None \<and>
    pa_start_store L mem_collection mem_state mem_manager rng name pf pw (self, ctx1) = (Some (Ok ()), p, ctx2)"
proof -
  obtain ctx1 st' where s: "pa_stop_store L mem_collection mem_state rng 0 Full p ctx = (Some (Ok ()), ctx1)"
    "pc_store ctx1 = None" "pc_path ctx1 = pc_path ctx" "key_box st' = key_box st"
    "durable (mem_opened name pfx) mem_entries mem_content L st' (pc_world ctx1) evs p"
    using mem.pa_stop_full [OF assms(1-5)] by blast
  have "(case pf of Some q \<Rightarrow> q | None \<Rightarrow> path_key (pc_path ctx1)) = pfx" using assms(7) s(3)
    by (simp split: option.splits)
  from mem.pa_start_recovers [OF s(2) this s(5)] s assms(5,6) show ?thesis by fastforce
qed

theorem stop_start_restores_state_witness:
  "\<exists>ctx1 ctx2. pa_stop_store example_lib mem_collection mem_state example_rng 0 Full 40
      (example_ctx (example_world 3 7)) = (Some (Ok ()), ctx1) \<and> pc_store ctx1 = None \<and>
    pa_start_store example_lib mem_collection mem_state mem_manager example_rng ''acc'' (Some ''a'') None
      (0, ctx1) = (Some (Ok ()), 40, ctx2)"
  using stop_start_restores_state [of "example_ctx (example_world 3 7)" example_store mailbox_new "''acc''" "''a''"
      example_lib "[3, 7]" example_rng None "Some ''a''" 40 0]
    example_log [of 3 7] example_client_ok
  by (simp add: example_ctx_def idle_def mailbox_new_def example_store_def password_box_def)

text \<open>A new actor under full persistence that persists its first event and crashes comes back
  without it: the snapshot written at the start has the number of the first event, so recovery
  takes that event for replayed and answers with the initial state.\<close>

theorem first_event_lost_after_crash:
  assumes "mem_wf (pc_world ctx)" "mm_data (pc_world ctx) (name @ ''_events'', pfx) = None"
      "mm_data (pc_world ctx) (name @ ''_states'', pfx) = None" "pc_store ctx = None"
    and "password_box L pw kb" "client_ok L kb rng" "apply_event L p e = (Ok (), p')"
    and pfx: "(case pf of Some q \<Rightarrow> q | None \<Rightarrow> path_key (pc_path ctx)) = pfx"
  shows "\<exists>ctx1 ctx2 ctx3.
    pa_start_store L mem_collection mem_state mem_manager rng name pf pw (p, ctx) = (Some (Ok ()), p, ctx1) \<and>
    pa_persist L mem_collection mem_state rng Full e (p, ctx1) = (Some (Ok ()), p', ctx2) \<and>
    pa_start_store L mem_collection mem_state mem_manager rng name pf pw (self, ctx2\<lparr>pc_store := None\<rparr>) =
      (Some (Ok ()), p, ctx3)"
proof -
  obtain ctx1 st mb where s: "pa_start_store L mem_collection mem_state mem_manager rng name pf pw (p, ctx) =
      (Some (Ok ()), p, ctx1)" "pc_path ctx1 = pc_path ctx" "pc_store ctx1 = Some (st, mb)" "\<not> mb_closed mb"
    "mb_queue mb = [ActorMessage_new (CmdSnapshot p) (store_path ctx1) None]" "key_box st = kb"
    "log_rep (mem_opened name pfx) mem_entries L st (pc_world ctx1) []"
    using mem_new.pa_start_fresh [OF mem_freshI [OF assms(1-3)] assms(4,5) pfx, of rng p] by blast
  have "(case pf of Some q \<Rightarrow> q | None \<Rightarrow> path_key (pc_path ctx1)) = pfx"
    using pfx s(2) by (simp split: option.splits)
  from mem.pa_first_event_lost [OF s(3-5,7) this _ _ assms(7), of pw rng self] s(1,6) assms(5,6)
  show ?thesis by blast
qed

theorem first_event_lost_after_crash_witness:
  "\<exists>ctx1 ctx2 ctx3.
    pa_start_store example_lib mem_collection mem_state mem_manager example_rng ''acc'' None None
      (5, (example_ctx mem_world_default)\<lparr>pc_store := None\<rparr>) = (Some (Ok ()), 5, ctx1) \<and>
    pa_persist example_lib mem_collection mem_state example_rng Full 2 (5, ctx1) = (Some (Ok ()), 7, ctx2) \<and>
    pa_start_store example_lib mem_collection mem_state mem_manager example_rng ''acc'' None None
      (0, ctx2\<lparr>pc_store := None\<rparr>) = (Some (Ok ()), 5, ctx3)"
  using first_event_lost_after_crash [of "(example_ctx mem_world_default)\<lparr>pc_store := None\<rparr>" "''acc''" "''a''"
      example_lib None None example_rng 5 2 7 None 0]
    mem_wf_default example_client_ok
  by (simp add: example_ctx_def mem_world_default_def password_box_def path_key_def)

text \<open>C11. When the replay of a recovery fails, \<open>start_store\<close> still succeeds: the actor keeps its initial
  state, and the stored snapshot is replaced by that state before the next command is served.\<close>

theorem failed_recovery_overwrites_snapshot:
  assumes "pc_store ctx = None" "(case pf of Some q \<Rightarrow> q | None \<Rightarrow> path_key (pc_path ctx)) = pfx"
    and "log_rep (mem_opened name pfx) mem_entries L st (pc_world ctx) evs"
    and "snap_rep mem_content L st (pc_world ctx) (p, k)" "Suc (unat k) < length evs"
    and "apply_all L p (drop (Suc (unat k)) evs) = Err x"
    and "password_box L pw (key_box st)" "client_ok L (key_box st) rng"
  shows "\<exists>ctx1 st1 mb1 ctx2 n.
    pa_start_store L mem_collection mem_state mem_manager rng name pf pw (self, ctx) =
      (Some (Ok ()), self, ctx1) \<and> pc_store ctx1 = Some (st1, mb1) \<and>
    ask_store L mem_collection mem_state rng CmdLastEventNumber (st1, mb1) ctx1 =
      (Some (Ok (RespLastEventNumber n)), ctx2) \<and>
    snap_rep mem_content L st1 (pc_world ctx2) (self, n)"
  using assms by (rule mem.pa_failed_recovery_overwrites)

theorem failed_recovery_overwrites_snapshot_witness:
  "\<exists>ctx1 st1 mb1 ctx2 n.
    pa_start_store example_lib mem_collection mem_state mem_manager example_rng ''acc'' None None
      (99, (example_ctx (example_world 3 0))\<lparr>pc_store := None\<rparr>) = (Some (Ok ()), 99, ctx1) \<and>
    pc_store ctx1 = Some (st1, mb1) \<and>
    ask_store example_lib mem_collection mem_state example_rng CmdLastEventNumber (st1, mb1) ctx1 =
      (Some (Ok (RespLastEventNumber n)), ctx2) \<and>
    snap_rep mem_content example_lib st1 (pc_world ctx2) (99, n)"
  using failed_recovery_overwrites_snapshot [of "(example_ctx (example_world 3 0))\<lparr>pc_store := None\<rparr>" None "''a''"
      "''acc''" example_lib example_store "[3, 0]" 5 0 _ None example_rng 99]
    example_log [of 3 0] example_snap [of 3 0] example_client_ok
  by (simp add: example_ctx_def example_store_def password_box_def path_key_def)

section \<open>Errors of the persistence methods\<close>

text \<open>An event that \<open>apply\<close> refuses is not persisted: \<open>persist\<close> returns the error of \<open>apply\<close>, the
  actor has the state it had before, and neither the store nor the database is touched.\<close>

theorem refused_event_leaves_everything:
  assumes "pc_store ctx = Some store" "apply_event L p e = (Err x, p')"
  shows "pa_persist L C S rng persistence e (p, ctx) = (Some (Err x), p, ctx)"
  using assms by (simp add: pa_persist_def pa_update_def)

theorem refused_event_leaves_everything_witness:
  "pa_persist example_lib mem_collection mem_state example_rng Full 0 (12, example_ctx (example_world 3 7)) =
     (Some (Err (ActorErr_Functional ''zero'')), 12, example_ctx (example_world 3 7))"
  using refused_event_leaves_everything [of "example_ctx (example_world 3 7)" "(example_store, mailbox_new)"
      example_lib 12 0 "ActorErr_Functional ''zero''" 12 mem_collection mem_state example_rng Full]
  by (simp add: example_ctx_def)

text \<open>C18. When the store cannot encode the event, \<open>persist\<close> returns the error of the store and the
  database is unchanged, but the actor keeps the state with the event applied. When it cannot
  encode the state, \<open>snapshot\<close> writes nothing either, but answers \<open>Ok\<close>: the caller is not told.\<close>

theorem store_errors_seen_by_actor:
  assumes "pc_store ctx = Some (st, mb)" "idle mb" "apply_event L p e = (Ok (), p')"
    and "encode_event L (key_box st) (fst (rng (pc_rng ctx))) e = Err x"
    and "enc_state L (p, event_counter st) = Err y"
  shows "\<exists>ctx1 ctx2. pa_persist L C S rng Full e (p, ctx) =
      (Some (Err (ActorErr_Store (store_error_display x))), p', ctx1) \<and> pc_world ctx1 = pc_world ctx \<and>
    pa_snapshot L C S rng p ctx = (Some (Ok ()), ctx2) \<and> pc_world ctx2 = pc_world ctx"
  using persist_store_error [where rng = rng, OF assms(1-4)] snapshot_store_error [OF assms(1,2,5)] by blast

theorem store_errors_seen_by_actor_witness:
  "let L = example_lib\<lparr>enc_event := \<lambda>_. Err ''limit'', enc_state := \<lambda>_. Err ''limit''\<rparr> in
   \<exists>ctx1 ctx2. pa_persist L mem_collection mem_state example_rng Full 4 (12, example_ctx (example_world 3 7)) =
      (Some (Err (ActorErr_Store ''Store error: Can't encode event: limit'')), 16, ctx1) \<and>
    pc_world ctx1 = example_world 3 7 \<and>
    pa_snapshot L mem_collection mem_state example_rng 12 (example_ctx (example_world 3 7)) = (Some (Ok ()), ctx2) \<and>
    pc_world ctx2 = example_world 3 7"
  using store_errors_seen_by_actor [of "example_ctx (example_world 3 7)" example_store mailbox_new
      "example_lib\<lparr>enc_event := \<lambda>_. Err ''limit'', enc_state := \<lambda>_. Err ''limit''\<rparr>" 12 4 16 example_rng
      "StoreErr_Store ''Can't encode event: limit''" "''limit''" mem_collection mem_state]
  by (simp add: example_ctx_def idle_def mailbox_new_def example_store_def encode_event_def)

text \<open>C20. A purge empties the log and the snapshot, but keeps the event counter. The event persisted next (one
  that can be encoded and decoded back, below the last number) gets the number after the counter, and
  asking for the events from \<open>0\<close> then finds none; only if the counter was still \<open>0\<close>, as with at most
  one event in the log, does it get the number \<open>0\<close> and is found.\<close>

theorem purge_keeps_numbering:
  assumes "mem_opened name pfx (events st) (states st) w"
    and cnt: "event_counter st + 1 \<noteq> 0"
    and enc: "encode_event L (key_box st) nonce e = Ok b" "decode_event L (key_box st) b = Ok e"
    and n: "n = (if event_counter st = 0 then 0 else event_counter st + 1)"
  shows "\<exists>w1 w2. purge mem_collection mem_state (st, w) = (Ok (), st, w1) \<and>
    mem_entries (events st) w1 = [] \<and> mem_content (states st) w1 = None \<and>
    persist L mem_collection nonce e (st, w1) = (Ok (), st\<lparr>event_counter := n\<rparr>, w2) \<and>
    events_range L mem_collection (st\<lparr>event_counter := n\<rparr>) w2 0 to =
      Ok (if event_counter st = 0 then [e] else [])"
proof -
  obtain w1 where w1: "purge mem_collection mem_state (st, w) = (Ok (), st, w1)"
    "mem_opened name pfx (events st) (states st) w1" "mem_entries (events st) w1 = []"
    "mem_content (states st) w1 = None"
    using mem.purge_all [OF assms(1)] by blast
  from mem.persist_after_purge [OF w1(2,3) cnt enc, of to] w1 show ?thesis unfolding n by blast
qed

theorem purge_keeps_numbering_witness:
  "\<exists>w1 w2. purge mem_collection mem_state (example_store, example_world 3 7) = (Ok (), example_store, w1) \<and>
    mem_entries example_events w1 = [] \<and> mem_content example_states w1 = None \<and>
    persist example_lib mem_collection (replicate 12 0) 4 (example_store, w1) =
      (Ok (), example_store\<lparr>event_counter := 2\<rparr>, w2) \<and>
    events_range example_lib mem_collection (example_store\<lparr>event_counter := 2\<rparr>) w2 0 9 = Ok []"
proof -
  have st: "event_counter example_store = 1" "events example_store = example_events"
    "states example_store = example_states"
    by (simp_all add: example_store_def)
  have cnt: "event_counter example_store + 1 \<noteq> 0"
    "2 = (if event_counter example_store = 0 then 0 else event_counter example_store + 1)"
    by (simp_all add: st)
  have enc: "encode_event example_lib (key_box example_store) (replicate 12 0) 4 = Ok [4]"
    "decode_event example_lib (key_box example_store) [4] = Ok 4"
    by (simp_all add: example_store_def encode_event_def decode_event_def)
  have opened: "mem_opened ''acc'' ''a'' (events example_store) (states example_store) (example_world 3 7)"
    using example_opened [of 3 7] by (simp add: st)
  have none: "(if (1 :: u64) = 0 then xs else []) = []" for xs :: "bytes" by simp
  show ?thesis
    using purge_keeps_numbering [OF opened cnt(1) enc cnt(2), of 9] unfolding st none .
qed

text \<open>\<open>LastEvent\<close> answers with the last event of the log, and with none when the log is empty;
  \<open>LastEventNumber\<close> answers with its number, and neither changes anything.\<close>

theorem last_event_of_log:
  assumes "log_rep (mem_opened name pfx) mem_entries L st w evs"
  shows "handle_message L mem_collection mem_state ns CmdLastEvent (st, w) =
      (Ok (RespLastEvent (if evs = [] then None else Some (last evs))), st, w) \<and>
    handle_message L mem_collection mem_state ns CmdLastEventNumber (st, w) =
      (Ok (RespLastEventNumber (of_nat (length evs - 1))), st, w)"
  using mem.last_event_log [OF assms] assms by (simp add: respond_def log_rep_def)

theorem last_event_of_log_witness:
  "handle_message example_lib mem_collection mem_state ([], []) CmdLastEvent (example_store, example_world 3 7) =
      (Ok (RespLastEvent (Some 7)), example_store, example_world 3 7) \<and>
    handle_message example_lib mem_collection mem_state ([], []) CmdLastEventNumber
      (example_store, example_world 3 7) = (Ok (RespLastEventNumber 1), example_store, example_world 3 7)"
  using last_event_of_log [OF example_log [of 3 7], of "([], [])"] by simp

text \<open>C19. The event counter is a 64-bit number: the event after number \<open>2^64 - 1\<close> gets number \<open>0\<close> and is
  written over the first event of the log. Below that bound the number grows by one and the key of
  the new event is greater than those of all events before it.\<close>

theorem event_counter_wraps:
  assumes "mem_opened name pfx (events st) (states st) w" "event_counter st \<noteq> 0"
    and "encode_event L (key_box st) nonce e = Ok b"
  shows "\<exists>w'. persist L mem_collection nonce e (st, w) =
      (Ok (), st\<lparr>event_counter := event_counter st + 1\<rparr>, w') \<and>
    mem_entries (events st) w' = bt_insert (fmt020 (event_counter st + 1)) b (mem_entries (events st) w) \<and>
    (unat (event_counter st) = 2 ^ 64 - 1 \<longrightarrow> fmt020 (event_counter st + 1) = fmt020 0) \<and>
    (unat (event_counter st) < 2 ^ 64 - 1 \<longrightarrow> fmt020 (event_counter st) < fmt020 (event_counter st + 1))"
  using mem.persist_numbered [OF assms] u64_succ [of "event_counter st"] by (auto simp: fmt020_less_iff)

theorem event_counter_wraps_witness:
  "\<exists>w'. persist example_lib mem_collection (replicate 12 0) 4 (example_store\<lparr>event_counter := - 1\<rparr>, example_world 3 7) =
      (Ok (), example_store\<lparr>event_counter := 0\<rparr>, w') \<and>
    mem_entries example_events w' = bt_insert (fmt020 0) [4] [(fmt020 0, [3]), (fmt020 1, [7])]"
  using event_counter_wraps [of "''acc''" "''a''" "example_store\<lparr>event_counter := - 1\<rparr>" "example_world 3 7" example_lib
      "replicate 12 0" 4 "[4]"]
    example_opened [of 3 7] example_entries(1) [of 3 7]
  by (auto simp: example_store_def encode_event_def)

end
